(* ===== verification/Prelude.thy ===== *)
theory Prelude
  imports Main "HOL-Library.AList"
begin

text \<open>
  Shared vocabulary of the development: identifiers and time, JSON values, the exceptions of
  the program, operations that thread a state and may raise, Python dictionaries as association
  lists in insertion order, and SQL tables as lists of rows with the statement forms the
  repositories use (SELECT, UPDATE, DELETE with a WHERE clause, row counts).
\<close>

named_theorems op_simps \<open>unfolding of state-passing operations\<close>
named_theorems table_simps \<open>effect of SQL statements on tables\<close>

section \<open>Identifiers, time and JSON\<close>

text \<open>
  A UUID is a 128-bit value; the program only compares UUIDs, and PostgreSQL orders them by
  their value (\<open>ORDER BY trigger_definition_id\<close>). New UUIDs come from \<open>uuid4\<close>: every
  operation that draws some takes a generator \<open>nat \<Rightarrow> uuid\<close> for the draws of that call.
\<close>

datatype uuid = Uuid nat

fun uuid_value :: "uuid \<Rightarrow> nat" where
  "uuid_value (Uuid n) = n"

lemma uuid_value_inject [simp]: "uuid_value a = uuid_value b \<longleftrightarrow> a = b"
  by (cases a; cases b) simp

instantiation uuid :: linorder
begin

definition less_eq_uuid :: "uuid \<Rightarrow> uuid \<Rightarrow> bool" where
  "less_eq_uuid a b \<longleftrightarrow> uuid_value a \<le> uuid_value b"

definition less_uuid :: "uuid \<Rightarrow> uuid \<Rightarrow> bool" where
  "less_uuid a b \<longleftrightarrow> uuid_value a < uuid_value b"

instance
  by standard (auto simp: less_eq_uuid_def less_uuid_def intro: uuid_value_inject [THEN iffD1])

end

text \<open>
  A \<open>datetime\<close> is a number of microseconds since the epoch in UTC, a \<open>timedelta\<close> a number
  of microseconds.
\<close>

type_synonym datetime = int
type_synonym timedelta = int

text \<open>
  JSON values as \<open>dict[str, Any]\<close> configurations and outputs hold them. A float is its
  mantissa and binary exponent; an object keeps its members in insertion order.
\<close>

datatype json =
    JNull
  | JBool bool
  | JInt int
  | JFloat int int
  | JStr string
  | JList "json list"
  | JObj "(string \<times> json) list"

type_synonym json_object = "(string \<times> json) list"

section \<open>Exceptions and operations\<close>

text \<open>
  Why a workflow definition is rejected: one constructor per \<open>raise\<close> of
  \<open>WorkflowDefinitionService\<close>, holding what its message interpolates.
\<close>

datatype invalid_definition =
    NoTasks
  | DuplicateTaskKeys
  | NoMaxTries string int
  | UnknownTaskPlugin string
  | InvalidTaskConfiguration string string
  | SelfDependency string
  | DuplicateDependencies string
  | UnknownDependency string string
  | DependencyCycle
  | UnknownTriggerPlugin string
  | InvalidTriggerConfiguration string string

text \<open>
  The exceptions the modelled code raises or lets through: those of \<open>application/exceptions.py\<close>
  and \<open>plugins/exceptions.py\<close>, the built-in ones the code raises itself, and what the database
  driver raises for a violated constraint or an out-of-range integer. \<open>PluginError\<close> is any
  exception a plugin raises, \<open>ConfigParserError\<close> an interpolation error of \<open>configparser\<close>.
\<close>

datatype exn =
    InvalidWorkflowDefinitionError invalid_definition
  | WorkflowDefinitionNotFoundError uuid
  | WorkflowDefinitionDisabledError uuid
  | WorkflowExecutionNotFoundError uuid
  | InvalidPluginConfigurationError string
  | KeyError
  | AttributeError
  | TypeError
  | ValueError
  | RuntimeError string
  | OverflowError
  | IntegrityError
  | DataError
  | PluginError string
  | InvalidExecutionQueueType string
  | ModuleNotFoundError string
  | ConfigParserError string

type_synonym 'a result = "exn + 'a"

text \<open>An operation on a state: the state after it, and its result or the exception it raised.\<close>

type_synonym ('s, 'a) op = "'s \<Rightarrow> 's \<times> 'a result"

definition ret :: "'a \<Rightarrow> ('s, 'a) op" where
  "ret x s = (s, Inr x)"

definition raise :: "exn \<Rightarrow> ('s, 'a) op" where
  "raise e s = (s, Inl e)"

definition andThen :: "('s, 'a) op \<Rightarrow> ('a \<Rightarrow> ('s, 'b) op) \<Rightarrow> ('s, 'b) op" where
  "andThen m f s =
     (case m s of
        (s', Inl e) \<Rightarrow> (s', Inl e)
      | (s', Inr x) \<Rightarrow> f x s')"

text \<open>Running an operation for each element of a list, stopping at the first exception.\<close>

fun for_each :: "('a \<Rightarrow> ('s, unit) op) \<Rightarrow> 'a list \<Rightarrow> ('s, unit) op" where
  "for_each f [] = ret ()"
| "for_each f (x # xs) = andThen (f x) (\<lambda>_. for_each f xs)"

text \<open>The same on results without a state: a loop that may raise and collects values.\<close>

definition bind_result :: "'a result \<Rightarrow> ('a \<Rightarrow> 'b result) \<Rightarrow> 'b result" where
  "bind_result r f = (case r of Inl e \<Rightarrow> Inl e | Inr x \<Rightarrow> f x)"

fun map_result :: "('a \<Rightarrow> 'b result) \<Rightarrow> 'a list \<Rightarrow> 'b list result" where
  "map_result f [] = Inr []"
| "map_result f (x # xs) =
     bind_result (f x) (\<lambda>y. bind_result (map_result f xs) (\<lambda>ys. Inr (y # ys)))"

lemma ret_apply [op_simps, simp]: "ret x s = (s, Inr x)"
  by (simp add: ret_def)

lemma raise_apply [op_simps, simp]: "raise e s = (s, Inl e)"
  by (simp add: raise_def)

lemma andThen_Inr [op_simps]: "m s = (s', Inr x) \<Longrightarrow> andThen m f s = f x s'"
  by (simp add: andThen_def)

lemma andThen_Inl [op_simps]: "m s = (s', Inl e) \<Longrightarrow> andThen m f s = (s', Inl e)"
  by (simp add: andThen_def)

lemma andThen_ret [simp]: "andThen (ret x) f = f x"
  by (rule ext) (simp add: andThen_def)

lemma andThen_raise [simp]: "andThen (raise e) f = raise e"
  by (rule ext) (simp add: andThen_def)

lemma andThen_eq_Inr_iff:
  "andThen m f s = (t, Inr y) \<longleftrightarrow> (\<exists>s' x. m s = (s', Inr x) \<and> f x s' = (t, Inr y))"
  by (auto simp: andThen_def split: prod.splits sum.splits)

lemma bind_result_simps [simp]:
  "bind_result (Inl e) f = Inl e" "bind_result (Inr x) f = f x"
  by (simp_all add: bind_result_def)

lemma bind_result_eq_Inr_iff:
  "bind_result r f = Inr y \<longleftrightarrow> (\<exists>x. r = Inr x \<and> f x = Inr y)"
  by (cases r) simp_all

lemma map_result_Inr:
  "(\<And>x. x \<in> set xs \<Longrightarrow> f x = Inr (g x)) \<Longrightarrow> map_result f xs = Inr (map g xs)"
  by (induction xs) simp_all

lemma option_eqI: "(\<And>x. a = Some x \<longleftrightarrow> b = Some x) \<Longrightarrow> a = b"
  by (cases a; cases b) auto

lemma not_image: "x \<notin> f ` A \<Longrightarrow> a \<in> A \<Longrightarrow> f a \<noteq> x"
  by blast

lemma fk_new: "f ` A \<subseteq> B \<Longrightarrow> x \<notin> B \<Longrightarrow> a \<in> A \<Longrightarrow> f a \<noteq> x"
  by blast

lemma andThen_eq: "m s = (s', Inr x) \<Longrightarrow> andThen m f s = f x s'"
  "m s = (s', Inl e) \<Longrightarrow> andThen m f s = (s', Inl e)"
  by (simp_all add: andThen_def)

section \<open>Dictionaries\<close>

text \<open>
  A Python dictionary is an association list with distinct keys in insertion order:
  \<open>AList.update\<close> overwrites in place or appends, as \<open>d[k] = v\<close> does. \<open>dict_of\<close> is the
  dictionary comprehension \<open>{k: v for ...}\<close>.
\<close>

definition dict_of :: "('k \<times> 'v) list \<Rightarrow> ('k \<times> 'v) list" where
  "dict_of ps = fold (\<lambda>(k, v) d. AList.update k v d) ps []"

text \<open>\<open>d[k]\<close>, which raises \<open>KeyError\<close> on a missing key.\<close>

definition dict_get :: "('k \<times> 'v) list \<Rightarrow> 'k \<Rightarrow> 'v result" where
  "dict_get d k = (case map_of d k of None \<Rightarrow> Inl KeyError | Some v \<Rightarrow> Inr v)"

lemma update_new: "k \<notin> fst ` set d \<Longrightarrow> AList.update k v d = d @ [(k, v)]"
  by (induction d) auto

lemma fold_update_new:
  "distinct (map fst ps) \<Longrightarrow> fst ` set ps \<inter> fst ` set d = {} \<Longrightarrow>
   fold (\<lambda>(k, v) d. AList.update k v d) ps d = d @ ps"
proof (induction ps arbitrary: d)
  case Nil
  then show ?case by simp
next
  case (Cons p ps)
  obtain k v where p: "p = (k, v)" by force
  have "fold (\<lambda>(k, v) d. AList.update k v d) ps (d @ [p]) = (d @ [p]) @ ps"
    by (rule Cons.IH) (use Cons.prems in auto)
  moreover have "AList.update k v d = d @ [p]"
    using Cons.prems(2) p by (auto intro: update_new)
  ultimately show ?case using p by simp
qed

lemma dict_of_distinct [simp]: "distinct (map fst ps) \<Longrightarrow> dict_of ps = ps"
  by (simp add: dict_of_def fold_update_new)

lemma dict_get_Some [simp]: "map_of d k = Some v \<Longrightarrow> dict_get d k = Inr v"
  by (simp add: dict_get_def)

lemma dict_get_None [simp]: "map_of d k = None \<Longrightarrow> dict_get d k = Inl KeyError"
  by (simp add: dict_get_def)

section \<open>Tables\<close>

text \<open>
  A table is the list of its rows. SQL leaves the order of a scan without ORDER BY open; here
  a scan follows the list, and every statement about a table is for every list, so for every
  order. An UPDATE rewrites the rows that satisfy its WHERE clause, in one atomic statement.
\<close>

definition select_where :: "('r \<Rightarrow> bool) \<Rightarrow> 'r list \<Rightarrow> 'r list" where
  "select_where P rows = filter P rows"

definition update_where :: "('r \<Rightarrow> bool) \<Rightarrow> ('r \<Rightarrow> 'r) \<Rightarrow> 'r list \<Rightarrow> 'r list" where
  "update_where P f rows = map (\<lambda>r. if P r then f r else r) rows"

definition delete_where :: "('r \<Rightarrow> bool) \<Rightarrow> 'r list \<Rightarrow> 'r list" where
  "delete_where P rows = filter (\<lambda>r. \<not> P r) rows"

definition rowcount :: "('r \<Rightarrow> bool) \<Rightarrow> 'r list \<Rightarrow> nat" where
  "rowcount P rows = length (filter P rows)"

text \<open>
  \<open>UPDATE ... RETURNING\<close>: the returned values are read from the rows after the update.
  \<open>one_or_none\<close> reads a result of at most one row, as a primary key in the WHERE clause gives.
\<close>

definition update_returning :: "('r \<Rightarrow> bool) \<Rightarrow> ('r \<Rightarrow> 'r) \<Rightarrow> ('r \<Rightarrow> 'v) \<Rightarrow> 'r list \<Rightarrow> 'v list" where
  "update_returning P f g rows = map (\<lambda>r. g (f r)) (filter P rows)"

definition one_or_none :: "'v list \<Rightarrow> 'v option" where
  "one_or_none vs = (case vs of [] \<Rightarrow> None | v # _ \<Rightarrow> Some v)"

text \<open>The row with a given primary key.\<close>

definition lookup_row :: "('r \<Rightarrow> 'k) \<Rightarrow> 'k \<Rightarrow> 'r list \<Rightarrow> 'r option" where
  "lookup_row key k rows = find (\<lambda>r. key r = k) rows"

lemma set_select_where [table_simps, simp]: "set (select_where P rows) = {r \<in> set rows. P r}"
  by (simp add: select_where_def)

lemma set_update_where [table_simps]:
  "set (update_where P f rows) = (\<lambda>r. if P r then f r else r) ` set rows"
  by (simp add: update_where_def)

lemma set_delete_where [table_simps, simp]: "set (delete_where P rows) = {r \<in> set rows. \<not> P r}"
  by (simp add: delete_where_def)

lemma map_update_where [table_simps]:
  "(\<And>r. P r \<Longrightarrow> g (f r) = g r) \<Longrightarrow> map g (update_where P f rows) = map g rows"
  by (simp add: update_where_def)

lemma update_where_none [table_simps]:
  "(\<And>r. r \<in> set rows \<Longrightarrow> \<not> P r) \<Longrightarrow> update_where P f rows = rows"
  by (induction rows) (simp_all add: update_where_def)

lemma length_update_where [simp]: "length (update_where P f rows) = length rows"
  by (simp add: update_where_def)

lemma update_where_Nil [simp]: "update_where P f [] = []"
  by (simp add: update_where_def)

lemma update_where_Cons [simp]:
  "update_where P f (r # rows) = (if P r then f r else r) # update_where P f rows"
  by (simp add: update_where_def)

lemma rowcount_0_iff: "rowcount P rows = 0 \<longleftrightarrow> (\<forall>r \<in> set rows. \<not> P r)"
  by (simp add: rowcount_def filter_empty_conv)

lemma lookup_row_Some_iff:
  "distinct (map key rows) \<Longrightarrow> lookup_row key k rows = Some r \<longleftrightarrow> r \<in> set rows \<and> key r = k"
  by (induction rows) (auto simp: lookup_row_def)

lemma lookup_row_SomeD: "lookup_row key k rows = Some r \<Longrightarrow> r \<in> set rows \<and> key r = k"
  by (auto simp: lookup_row_def find_Some_iff)

lemma lookup_row_None_iff: "lookup_row key k rows = None \<longleftrightarrow> k \<notin> key ` set rows"
  by (auto simp: lookup_row_def find_None_iff)

lemma lookup_row_append:
  "lookup_row key k (xs @ ys) =
     (case lookup_row key k xs of None \<Rightarrow> lookup_row key k ys | Some r \<Rightarrow> Some r)"
  by (induction xs) (auto simp: lookup_row_def)

lemma lookup_row_update_where:
  assumes "\<And>r. P r \<Longrightarrow> key (f r) = key r"
  shows "lookup_row key k (update_where P f rows) =
     map_option (\<lambda>r. if P r then f r else r) (lookup_row key k rows)"
  using assms by (induction rows) (auto simp: lookup_row_def)

lemma one_or_none_returning:
  "one_or_none (update_returning P f g rows) = map_option (\<lambda>r. g (f r)) (find P rows)"
  by (induction rows) (simp_all add: one_or_none_def update_returning_def)

lemma find_key_Some_iff:
  "distinct (map key rows) \<Longrightarrow>
   find (\<lambda>r. key r = k \<and> P r) rows = Some r \<longleftrightarrow> r \<in> set rows \<and> key r = k \<and> P r"
  by (induction rows) auto

lemma find_key_None_iff:
  "find (\<lambda>r. key r = k \<and> P r) rows = None \<longleftrightarrow> (\<forall>r \<in> set rows. key r = k \<longrightarrow> \<not> P r)"
  by (auto simp: find_None_iff)

lemma distinct_key_eq:
  "distinct (map key rows) \<Longrightarrow> r \<in> set rows \<Longrightarrow> r' \<in> set rows \<Longrightarrow> key r = key r' \<Longrightarrow> r = r'"
  by (meson distinct_map inj_on_def)

lemma rowcount_key_le_1:
  "distinct (map key rows) \<Longrightarrow> rowcount (\<lambda>r. key r = k \<and> P r) rows \<le> 1"
proof (induction rows)
  case Nil
  then show ?case by (simp add: rowcount_def)
next
  case (Cons r rows)
  show ?case
  proof (cases "key r = k")
    case True
    with Cons.prems have "filter (\<lambda>r. key r = k \<and> P r) rows = []"
      by (auto simp: filter_empty_conv image_iff dest: sym)
    then show ?thesis by (simp add: rowcount_def)
  next
    case False
    with Cons show ?thesis by (simp add: rowcount_def)
  qed
qed

lemma rowcount_key_1_iff:
  "distinct (map key rows) \<Longrightarrow>
   rowcount (\<lambda>r. key r = k \<and> P r) rows = 1 \<longleftrightarrow> (\<exists>r \<in> set rows. key r = k \<and> P r)"
  using rowcount_key_le_1 [of key rows k P] rowcount_0_iff [of "\<lambda>r. key r = k \<and> P r" rows]
  by (cases "rowcount (\<lambda>r. key r = k \<and> P r) rows") auto

text \<open>\<open>ORDER BY key LIMIT 1\<close>.\<close>

definition first_by :: "('r \<Rightarrow> 'k :: linorder) \<Rightarrow> 'r list \<Rightarrow> 'r option" where
  "first_by key rows = (case sort_key key rows of [] \<Rightarrow> None | r # _ \<Rightarrow> Some r)"

lemma first_by_Some:
  assumes "first_by key rows = Some r"
  shows "r \<in> set rows \<and> (\<forall>s \<in> set rows. key r \<le> key s)"
proof -
  obtain rest where rest: "sort_key key rows = r # rest"
    using assms by (auto simp: first_by_def split: list.splits)
  have "sorted (map key (sort_key key rows))" by (rule sorted_sort_key)
  then have "\<forall>s \<in> set (r # rest). key r \<le> key s" by (auto simp: rest)
  moreover have "set (r # rest) = set rows" using rest set_sort [of key rows] by simp
  ultimately show ?thesis by auto
qed

lemma first_by_None: "first_by key rows = None \<longleftrightarrow> rows = []"
proof -
  have "sort_key key rows = [] \<longleftrightarrow> rows = []"
    by (metis length_0_conv length_sort)
  then show ?thesis by (auto simp: first_by_def split: list.splits)
qed

end
