(* ===== verification/Domain.thy ===== *)
theory Domain
  imports Prelude
begin

text \<open>
  The domain layer (\<open>domain/\<close>): the status enumerations and the dataclasses of workflow
  definitions (reusable templates), workflow executions (runtime state) and of the contract with
  task plugins. Field names carry a prefix per class: \<open>td\<close> task definition, \<open>tr\<close> trigger
  definition, \<open>wd\<close> workflow definition, \<open>te\<close> task execution, \<open>we\<close> workflow execution.
\<close>

section \<open>Statuses\<close>

datatype workflow_status = WfRunning | WfCompleted | WfFailed | WfCancelled

datatype task_status = Pending | Running | Completed | Failed | Cancelled

text \<open>The statuses in which a task is finished for good.\<close>

definition terminal_task :: "task_status \<Rightarrow> bool" where
  "terminal_task s \<longleftrightarrow> s = Completed \<or> s = Failed \<or> s = Cancelled"

lemma terminal_task_simps [simp]:
  "\<not> terminal_task Pending" "\<not> terminal_task Running"
  "terminal_task Completed" "terminal_task Failed" "terminal_task Cancelled"
  by (simp_all add: terminal_task_def)

lemma not_terminal_task_iff: "\<not> terminal_task s \<longleftrightarrow> s = Pending \<or> s = Running"
  by (cases s) simp_all

section \<open>Contract with task plugins\<close>

record task_output =
  output_values :: json_object

record task_context =
  context_configuration :: json_object
  context_inputs :: "(string \<times> task_output) list"

record task_result =
  result_succeeded :: bool
  result_output :: task_output
  result_message :: "string option"

section \<open>Workflow definitions\<close>

record task_definition =
  td_id :: uuid
  td_plugin_type :: string
  td_key :: string
  td_configuration :: json_object
  td_dependencies :: "uuid list"
  td_max_tries :: int

record trigger_definition =
  tr_id :: uuid
  tr_plugin_type :: string
  tr_configuration :: json_object
  tr_enabled :: bool

record workflow_definition =
  wd_id :: uuid
  wd_name :: string
  wd_description :: string
  wd_task_definitions :: "task_definition list"
  wd_trigger_definitions :: "trigger_definition list"
  wd_enabled :: bool

section \<open>Workflow executions\<close>

record task_execution =
  te_id :: uuid
  te_workflow_execution_id :: uuid
  te_task_definition_id :: uuid
  te_key :: string
  te_plugin_type :: string
  te_configuration :: json_object
  te_status :: task_status
  te_remaining_dependencies :: int
  te_remaining_tries :: int
  te_parent_task_ids :: "uuid list"
  te_child_task_ids :: "uuid list"
  te_output :: "task_output option"
  te_error_message :: "string option"
  te_started_at :: "datetime option"
  te_completed_at :: "datetime option"

record workflow_execution =
  we_id :: uuid
  we_workflow_definition_id :: uuid
  we_status :: workflow_status
  we_task_executions :: "task_execution list"
  we_created_at :: datetime
  we_started_at :: "datetime option"
  we_completed_at :: "datetime option"

end
