(* ===== verification/Database.thy ===== *)
theory Database
  imports Domain
begin

text \<open>
  The relational schema (\<open>persistence/*/model.py\<close> and the Alembic migrations): one record
  per mapped class, one list of rows per table, and the constraints the migrations declare
  (primary keys, foreign keys, the unique task key per workflow, 32-bit \<open>INTEGER\<close> columns).
  A unit of work (\<open>persistence/database/sqlalchemy_uow.py\<close>) is one transaction: it sees the
  committed state plus its own changes, \<open>commit\<close> publishes them, and leaving the block without
  a commit, normally or by an exception, drops what was not committed.

  Transactions are modelled one after the other; the schedule in which the statements of two
  transactions interleave is the subject of theory \<open>Read_Committed\<close>.
\<close>

section \<open>Rows\<close>

record workflow_definition_row =
  wdr_id :: uuid
  wdr_name :: string
  wdr_description :: string
  wdr_enabled :: bool

record task_definition_row =
  tdr_id :: uuid
  tdr_workflow_definition_id :: uuid
  tdr_key :: string
  tdr_plugin_type :: string
  tdr_configuration :: json_object
  tdr_max_tries :: int

record dependency_row =
  dep_task_definition_id :: uuid
  dep_depends_on :: uuid

record trigger_definition_row =
  trr_id :: uuid
  trr_workflow_definition_id :: uuid
  trr_plugin_type :: string
  trr_configuration :: json_object
  trr_enabled :: bool

record trigger_state_row =
  cts_trigger_definition_id :: uuid
  cts_next_run_at :: datetime

record workflow_row =
  w_id :: uuid
  w_workflow_definition_id :: uuid
  w_status :: workflow_status
  w_created_at :: datetime
  w_started_at :: "datetime option"
  w_completed_at :: "datetime option"

record task_row =
  t_id :: uuid
  t_workflow_execution_id :: uuid
  t_task_definition_id :: uuid
  t_key :: string
  t_plugin_type :: string
  t_configuration :: json_object
  t_status :: task_status
  t_remaining_dependencies :: int
  t_parent_task_ids :: "uuid list"
  t_child_task_ids :: "uuid list"
  t_remaining_tries :: int
  t_output :: "json_object option"
  t_error_message :: "string option"
  t_started_at :: "datetime option"
  t_completed_at :: "datetime option"

section \<open>The database\<close>

record database =
  workflow_definitions :: "workflow_definition_row list"
  task_definitions :: "task_definition_row list"
  task_definition_dependencies :: "dependency_row list"
  trigger_definitions :: "trigger_definition_row list"
  chronological_trigger_state :: "trigger_state_row list"
  workflow_executions :: "workflow_row list"
  task_executions :: "task_row list"

definition empty_database :: database where
  "empty_database =
     \<lparr>workflow_definitions = [], task_definitions = [], task_definition_dependencies = [],
      trigger_definitions = [], chronological_trigger_state = [],
      workflow_executions = [], task_executions = []\<rparr>"

text \<open>The range of an \<open>INTEGER\<close> column; a value outside it is a \<open>DataError\<close>.\<close>

definition int4 :: "int \<Rightarrow> bool" where
  "int4 n \<longleftrightarrow> - (2 ^ 31) \<le> n \<and> n < 2 ^ 31"

section \<open>Units of work\<close>

record session =
  committed :: database
  working :: database

definition uow_factory :: "database \<Rightarrow> session" where
  "uow_factory db = \<lparr>committed = db, working = db\<rparr>"

definition uow_commit :: "(session, unit) op" where
  "uow_commit s = (s\<lparr>committed := working s\<rparr>, Inr ())"

definition uow_rollback :: "session \<Rightarrow> session" where
  "uow_rollback s = s\<lparr>working := committed s\<rparr>"

text \<open>\<open>__exit__\<close>: roll back on an exception, then close the session; what is left is committed.\<close>

definition uow_exit :: "session \<Rightarrow> 'a result \<Rightarrow> database" where
  "uow_exit s r =
     (case r of
        Inl _ \<Rightarrow> committed (uow_rollback s)
      | Inr _ \<Rightarrow> committed s)"

text \<open>\<open>with uow_factory() as uow: body\<close>.\<close>

definition with_uow :: "(session, 'a) op \<Rightarrow> (database, 'a) op" where
  "with_uow body db =
     (case body (uow_factory db) of (s, r) \<Rightarrow> (uow_exit s r, r))"

text \<open>A repository operation, called through the unit of work, acts on the transaction's view.\<close>

definition in_uow :: "(database, 'a) op \<Rightarrow> (session, 'a) op" where
  "in_uow m s = (case m (working s) of (db, r) \<Rightarrow> (s\<lparr>working := db\<rparr>, r))"

lemma uow_factory_sel [simp]: "committed (uow_factory db) = db" "working (uow_factory db) = db"
  by (simp_all add: uow_factory_def)

lemma uow_exit_eq [simp]: "uow_exit s r = committed s"
  by (simp add: uow_exit_def uow_rollback_def split: sum.splits)

lemma in_uow_Inr [op_simps]:
  "m (working s) = (db, Inr x) \<Longrightarrow> in_uow m s = (s\<lparr>working := db\<rparr>, Inr x)"
  by (simp add: in_uow_def)

lemma in_uow_Inl [op_simps]:
  "m (working s) = (db, Inl e) \<Longrightarrow> in_uow m s = (s\<lparr>working := db\<rparr>, Inl e)"
  by (simp add: in_uow_def)

text \<open>A single repository call followed by a commit, the shape of the task transitions.\<close>

lemma with_uow_call_commit:
  "with_uow (andThen (in_uow m) (\<lambda>x. andThen uow_commit (\<lambda>_. ret (f x)))) db =
     (case m db of (db', Inl e) \<Rightarrow> (db, Inl e) | (db', Inr x) \<Rightarrow> (db', Inr (f x)))"
  by (simp add: with_uow_def andThen_def in_uow_def uow_commit_def split: prod.splits sum.splits)

end
