(* ===== verification/Execution_Repository.thy ===== *)
theory Execution_Repository
  imports Database
begin

text \<open>
  Persistence of workflow executions (\<open>persistence/workflow_executions/\<close>): the mapper between
  domain objects and rows, loading and creating executions, and the conditional SQL transitions
  \<open>start_task\<close>, \<open>complete_task\<close> and \<open>retry_task\<close> with their helpers, one statement of the
  source per \<open>update_where\<close>. The second half characterises each transition as one function
  applied to every task row, which is what the invariant proofs work with.
\<close>

section \<open>Requests and results (operations.py)\<close>

record complete_request =
  creq_task_execution_id :: uuid
  creq_output :: task_output
  creq_completed_at :: datetime

record retry_request =
  rreq_task_execution_id :: uuid
  rreq_error_message :: "string option"
  rreq_completed_at :: datetime

record start_result =
  sres_plugin_type :: string
  sres_configuration :: json_object
  sres_parent_outputs :: "(string \<times> task_output) list"

record complete_result =
  cres_runnable_task_execution_ids :: "uuid list"
  cres_workflow_completed :: bool

record retry_result =
  rres_should_retry :: bool
  rres_workflow_failed :: bool

record complete_helper_result =
  chr_succeeded :: bool
  chr_child_task_ids :: "uuid list"
  chr_workflow_execution_id :: "uuid option"

record retry_helper_result =
  rhr_succeeded :: bool
  rhr_should_retry :: bool
  rhr_workflow_execution_id :: "uuid option"

section \<open>Mapper (_mapper.py)\<close>

definition output_to_domain :: "json_object option \<Rightarrow> task_output option" where
  "output_to_domain out =
     (case out of None \<Rightarrow> None | Some values \<Rightarrow> Some \<lparr>output_values = values\<rparr>)"

definition task_to_model :: "task_execution \<Rightarrow> task_row" where
  "task_to_model task =
     \<lparr>t_id = te_id task,
      t_workflow_execution_id = te_workflow_execution_id task,
      t_task_definition_id = te_task_definition_id task,
      t_key = te_key task,
      t_plugin_type = te_plugin_type task,
      t_configuration = te_configuration task,
      t_status = te_status task,
      t_remaining_dependencies = te_remaining_dependencies task,
      t_parent_task_ids = te_parent_task_ids task,
      t_child_task_ids = te_child_task_ids task,
      t_remaining_tries = te_remaining_tries task,
      t_output = (case te_output task of None \<Rightarrow> None | Some out \<Rightarrow> Some (output_values out)),
      t_error_message = te_error_message task,
      t_started_at = te_started_at task,
      t_completed_at = te_completed_at task\<rparr>"

definition task_to_domain :: "task_row \<Rightarrow> task_execution" where
  "task_to_domain model =
     \<lparr>te_id = t_id model,
      te_workflow_execution_id = t_workflow_execution_id model,
      te_task_definition_id = t_task_definition_id model,
      te_key = t_key model,
      te_plugin_type = t_plugin_type model,
      te_configuration = t_configuration model,
      te_status = t_status model,
      te_remaining_dependencies = t_remaining_dependencies model,
      te_remaining_tries = t_remaining_tries model,
      te_parent_task_ids = t_parent_task_ids model,
      te_child_task_ids = t_child_task_ids model,
      te_output = output_to_domain (t_output model),
      te_error_message = t_error_message model,
      te_started_at = t_started_at model,
      te_completed_at = t_completed_at model\<rparr>"

text \<open>
  The workflow model owns its task models through the \<open>task_executions\<close> relationship: it is a
  row together with the rows of its tasks.
\<close>

definition workflow_to_model :: "workflow_execution \<Rightarrow> workflow_row \<times> task_row list" where
  "workflow_to_model workflow =
     (let tasks = map task_to_model (we_task_executions workflow)
      in (\<lparr>w_id = we_id workflow,
           w_workflow_definition_id = we_workflow_definition_id workflow,
           w_status = we_status workflow,
           w_created_at = we_created_at workflow,
           w_started_at = we_started_at workflow,
           w_completed_at = we_completed_at workflow\<rparr>,
          tasks))"

definition workflow_to_domain :: "workflow_row \<Rightarrow> task_execution list \<Rightarrow> workflow_execution" where
  "workflow_to_domain model tasks =
     \<lparr>we_id = w_id model,
      we_workflow_definition_id = w_workflow_definition_id model,
      we_status = w_status model,
      we_task_executions = tasks,
      we_created_at = w_created_at model,
      we_started_at = w_started_at model,
      we_completed_at = w_completed_at model\<rparr>"

section \<open>Loading, creating, deleting\<close>

text \<open>\<open>selectinload\<close> reads the tasks of the execution with a second SELECT.\<close>

definition load_execution :: "uuid \<Rightarrow> (database, workflow_execution option) op" where
  "load_execution workflow_execution_id db =
     (case lookup_row w_id workflow_execution_id (workflow_executions db) of
        None \<Rightarrow> ret None db
      | Some model \<Rightarrow>
          (let task_models = select_where (\<lambda>t. t_workflow_execution_id t = w_id model)
                               (task_executions db);
               tasks = map task_to_domain task_models
           in ret (Some (workflow_to_domain model tasks)) db))"

text \<open>The INSERT statements of a flush, with the constraints of the two tables.\<close>

definition insert_workflow_row :: "workflow_row \<Rightarrow> (database, unit) op" where
  "insert_workflow_row w db =
     (if w_id w \<in> w_id ` set (workflow_executions db)
         \<or> w_workflow_definition_id w \<notin> wdr_id ` set (workflow_definitions db)
      then raise IntegrityError db
      else ret () (db\<lparr>workflow_executions := workflow_executions db @ [w]\<rparr>))"

definition insert_task_row :: "task_row \<Rightarrow> (database, unit) op" where
  "insert_task_row t db =
     (if \<not> int4 (t_remaining_dependencies t) \<or> \<not> int4 (t_remaining_tries t)
      then raise DataError db
      else if t_id t \<in> t_id ` set (task_executions db)
         \<or> t_workflow_execution_id t \<notin> w_id ` set (workflow_executions db)
         \<or> t_task_definition_id t \<notin> tdr_id ` set (task_definitions db)
      then raise IntegrityError db
      else ret () (db\<lparr>task_executions := task_executions db @ [t]\<rparr>))"

text \<open>
  \<open>session.add\<close> and \<open>flush\<close>: the parent row first, then its tasks, whose foreign key the
  relationship sets to the parent's identifier.
\<close>

definition create_execution :: "workflow_execution \<Rightarrow> (database, unit) op" where
  "create_execution workflow =
     (case workflow_to_model workflow of
        (w, tasks) \<Rightarrow>
          andThen (insert_workflow_row w)
            (\<lambda>_. for_each (\<lambda>t. insert_task_row (t\<lparr>t_workflow_execution_id := w_id w\<rparr>)) tasks))"

text \<open>The cascade \<open>all, delete-orphan\<close> removes the tasks of a deleted execution.\<close>

definition delete_execution :: "uuid \<Rightarrow> (database, unit) op" where
  "delete_execution workflow_execution_id db =
     (case lookup_row w_id workflow_execution_id (workflow_executions db) of
        None \<Rightarrow> ret () db
      | Some model \<Rightarrow>
          ret () (db\<lparr>task_executions :=
                       delete_where (\<lambda>t. t_workflow_execution_id t = w_id model) (task_executions db),
                     workflow_executions :=
                       delete_where (\<lambda>w. w_id w = w_id model) (workflow_executions db)\<rparr>))"

definition find_workflow_execution :: "uuid \<Rightarrow> (database, uuid option) op" where
  "find_workflow_execution task_execution_id db =
     ret (map_option t_workflow_execution_id
            (lookup_row t_id task_execution_id (task_executions db))) db"

definition find_runnable_ids :: "(database, uuid list) op" where
  "find_runnable_ids db =
     ret (map t_id
            (select_where (\<lambda>t. t_status t = Pending \<and> t_remaining_dependencies t = 0)
               (task_executions db))) db"

section \<open>Starting a task\<close>

fun collect_parent_outputs ::
  "task_row list \<Rightarrow> (string \<times> task_output) list \<Rightarrow> (string \<times> task_output) list result" where
  "collect_parent_outputs [] outputs = Inr outputs"
| "collect_parent_outputs (p # ps) outputs =
     (case output_to_domain (t_output p) of
        None \<Rightarrow> Inl (RuntimeError (t_key p))
      | Some out \<Rightarrow> collect_parent_outputs ps (AList.update (t_key p) out outputs))"

definition load_parent_outputs ::
  "uuid list \<Rightarrow> database \<Rightarrow> (string \<times> task_output) list result" where
  "load_parent_outputs parent_task_ids db =
     (if parent_task_ids = [] then Inr []
      else collect_parent_outputs
             (select_where (\<lambda>t. t_id t \<in> set parent_task_ids) (task_executions db)) [])"

definition start_task :: "uuid \<Rightarrow> datetime \<Rightarrow> (database, start_result option) op" where
  "start_task task_execution_id started_at db =
     (let db1 = db\<lparr>task_executions :=
            update_where (\<lambda>t. t_id t = task_execution_id \<and> t_status t = Pending)
              (\<lambda>t. t\<lparr>t_status := Running, t_started_at := Some started_at\<rparr>)
              (task_executions db)\<rparr>
      in case find (\<lambda>t. t_id t = task_execution_id \<and> t_status t = Running)
                (task_executions db1) of
           None \<Rightarrow> ret None db1
         | Some task_model \<Rightarrow>
             (case load_parent_outputs (t_parent_task_ids task_model) db1 of
                Inl e \<Rightarrow> raise e db1
              | Inr outputs \<Rightarrow>
                  ret (Some \<lparr>sres_plugin_type = t_plugin_type task_model,
                             sres_configuration = t_configuration task_model,
                             sres_parent_outputs = outputs\<rparr>) db1))"

section \<open>Completing a task\<close>

definition complete_task_helper ::
  "complete_request \<Rightarrow> database \<Rightarrow> database \<times> complete_helper_result" where
  "complete_task_helper request db =
     (let cond = (\<lambda>t. t_id t = creq_task_execution_id request \<and> t_status t = Running);
          setv = (\<lambda>t. t\<lparr>t_status := Completed,
                        t_output := Some (output_values (creq_output request)),
                        t_completed_at := Some (creq_completed_at request)\<rparr>);
          row = one_or_none (update_returning cond setv
                  (\<lambda>t. (t_child_task_ids t, t_workflow_execution_id t)) (task_executions db));
          db1 = db\<lparr>task_executions := update_where cond setv (task_executions db)\<rparr>
      in case row of
           None \<Rightarrow> (db1, \<lparr>chr_succeeded = False, chr_child_task_ids = [],
                          chr_workflow_execution_id = None\<rparr>)
         | Some (child_task_ids, workflow_execution_id) \<Rightarrow>
             (db1, \<lparr>chr_succeeded = True, chr_child_task_ids = child_task_ids,
                    chr_workflow_execution_id = Some workflow_execution_id\<rparr>))"

fun update_child_dependencies :: "uuid list \<Rightarrow> database \<Rightarrow> database \<times> uuid list" where
  "update_child_dependencies [] db = (db, [])"
| "update_child_dependencies (child_id # child_ids) db =
     (let cond = (\<lambda>t. t_id t = child_id \<and> t_status t = Pending \<and> t_remaining_dependencies t > 0);
          setv = (\<lambda>t. t\<lparr>t_remaining_dependencies := t_remaining_dependencies t - 1\<rparr>);
          remaining = one_or_none (update_returning cond setv t_remaining_dependencies
                        (task_executions db));
          (db', runnable) = update_child_dependencies child_ids
            (db\<lparr>task_executions := update_where cond setv (task_executions db)\<rparr>)
      in (db', if remaining = Some 0 then child_id # runnable else runnable))"

definition complete_workflow_if_finished ::
  "uuid option \<Rightarrow> datetime \<Rightarrow> database \<Rightarrow> database \<times> bool" where
  "complete_workflow_if_finished workflow_execution_id completed_at db =
     (let unfinished = (\<exists>t \<in> set (task_executions db).
            Some (t_workflow_execution_id t) = workflow_execution_id \<and> t_status t \<noteq> Completed);
          cond = (\<lambda>w. Some (w_id w) = workflow_execution_id \<and> w_status w = WfRunning \<and> \<not> unfinished);
          setv = (\<lambda>w. w\<lparr>w_status := WfCompleted, w_completed_at := Some completed_at\<rparr>)
      in (db\<lparr>workflow_executions := update_where cond setv (workflow_executions db)\<rparr>,
          rowcount cond (workflow_executions db) = 1))"

definition complete_task :: "complete_request \<Rightarrow> (database, complete_result) op" where
  "complete_task request db =
     (case complete_task_helper request db of
        (db1, result) \<Rightarrow>
          if \<not> chr_succeeded result
          then ret \<lparr>cres_runnable_task_execution_ids = [], cres_workflow_completed = False\<rparr> db1
          else
            (case update_child_dependencies (chr_child_task_ids result) db1 of
               (db2, runnable) \<Rightarrow>
                 (case complete_workflow_if_finished (chr_workflow_execution_id result)
                         (creq_completed_at request) db2 of
                    (db3, workflow_completed) \<Rightarrow>
                      ret \<lparr>cres_runnable_task_execution_ids = runnable,
                           cres_workflow_completed = workflow_completed\<rparr> db3)))"

section \<open>Retrying or failing a task\<close>

definition retry_task_helper ::
  "retry_request \<Rightarrow> database \<Rightarrow> database \<times> retry_helper_result" where
  "retry_task_helper request db =
     (let cond = (\<lambda>t. t_id t = rreq_task_execution_id request \<and> t_status t = Running
                      \<and> t_remaining_tries t > 0);
          setv = (\<lambda>t. t\<lparr>t_remaining_tries := t_remaining_tries t - 1,
                        t_status := (if t_remaining_tries t > 1 then Running else Failed),
                        t_error_message := rreq_error_message request,
                        t_completed_at := (if t_remaining_tries t > 1 then None
                                           else Some (rreq_completed_at request))\<rparr>);
          row = one_or_none (update_returning cond setv
                  (\<lambda>t. (t_remaining_tries t, t_workflow_execution_id t)) (task_executions db));
          db1 = db\<lparr>task_executions := update_where cond setv (task_executions db)\<rparr>
      in case row of
           None \<Rightarrow> (db1, \<lparr>rhr_succeeded = False, rhr_should_retry = False,
                          rhr_workflow_execution_id = None\<rparr>)
         | Some (remaining_tries, workflow_execution_id) \<Rightarrow>
             (db1, \<lparr>rhr_succeeded = True, rhr_should_retry = remaining_tries > 0,
                    rhr_workflow_execution_id = Some workflow_execution_id\<rparr>))"

definition fail_workflow :: "uuid option \<Rightarrow> datetime \<Rightarrow> database \<Rightarrow> database \<times> bool" where
  "fail_workflow workflow_execution_id completed_at db =
     (let cond = (\<lambda>w. Some (w_id w) = workflow_execution_id \<and> w_status w = WfRunning);
          setv = (\<lambda>w. w\<lparr>w_status := WfFailed, w_completed_at := Some completed_at\<rparr>);
          db1 = db\<lparr>workflow_executions := update_where cond setv (workflow_executions db)\<rparr>
      in if rowcount cond (workflow_executions db) \<noteq> 1 then (db1, False)
         else (db1\<lparr>task_executions :=
                     update_where
                       (\<lambda>t. Some (t_workflow_execution_id t) = workflow_execution_id
                            \<and> (t_status t = Pending \<or> t_status t = Running))
                       (\<lambda>t. t\<lparr>t_status := Cancelled, t_completed_at := Some completed_at\<rparr>)
                       (task_executions db1)\<rparr>, True))"

definition retry_task :: "retry_request \<Rightarrow> (database, retry_result) op" where
  "retry_task request db =
     (case retry_task_helper request db of
        (db1, result) \<Rightarrow>
          if \<not> rhr_succeeded result
          then ret \<lparr>rres_should_retry = False, rres_workflow_failed = False\<rparr> db1
          else if \<not> rhr_should_retry result
          then (case fail_workflow (rhr_workflow_execution_id result)
                       (rreq_completed_at request) db1 of
                  (db2, workflow_failed) \<Rightarrow>
                    ret \<lparr>rres_should_retry = rhr_should_retry result,
                         rres_workflow_failed = workflow_failed\<rparr> db2)
          else ret \<lparr>rres_should_retry = rhr_should_retry result,
                    rres_workflow_failed = False\<rparr> db1)"

section \<open>The transitions row by row\<close>

text \<open>
  Each statement on \<open>task_executions\<close> is one function applied to every row. None of these
  functions touches the identity and the graph of a task: its identifier, its workflow, its
  parents and children, its key, plugin and configuration.
\<close>

definition task_shape :: "task_row \<Rightarrow> uuid \<times> uuid \<times> uuid \<times> string \<times> string \<times> json_object
    \<times> uuid list \<times> uuid list" where
  "task_shape t =
     (t_id t, t_workflow_execution_id t, t_task_definition_id t, t_key t, t_plugin_type t,
      t_configuration t, t_parent_task_ids t, t_child_task_ids t)"

definition start_row :: "uuid \<Rightarrow> datetime \<Rightarrow> task_row \<Rightarrow> task_row" where
  "start_row tid now t =
     (if t_id t = tid \<and> t_status t = Pending
      then t\<lparr>t_status := Running, t_started_at := Some now\<rparr> else t)"

definition complete_row :: "complete_request \<Rightarrow> task_row \<Rightarrow> task_row" where
  "complete_row request t =
     (if t_id t = creq_task_execution_id request \<and> t_status t = Running
      then t\<lparr>t_status := Completed, t_output := Some (output_values (creq_output request)),
             t_completed_at := Some (creq_completed_at request)\<rparr>
      else t)"

definition release_row :: "uuid list \<Rightarrow> task_row \<Rightarrow> task_row" where
  "release_row children t =
     (if t_id t \<in> set children \<and> t_status t = Pending \<and> t_remaining_dependencies t > 0
      then t\<lparr>t_remaining_dependencies := t_remaining_dependencies t - 1\<rparr> else t)"

definition retry_row :: "retry_request \<Rightarrow> task_row \<Rightarrow> task_row" where
  "retry_row request t =
     (if t_id t = rreq_task_execution_id request \<and> t_status t = Running \<and> t_remaining_tries t > 0
      then t\<lparr>t_remaining_tries := t_remaining_tries t - 1,
             t_status := (if t_remaining_tries t > 1 then Running else Failed),
             t_error_message := rreq_error_message request,
             t_completed_at := (if t_remaining_tries t > 1 then None
                                else Some (rreq_completed_at request))\<rparr>
      else t)"

definition cancel_row :: "uuid \<Rightarrow> datetime \<Rightarrow> task_row \<Rightarrow> task_row" where
  "cancel_row wid at t =
     (if t_workflow_execution_id t = wid \<and> (t_status t = Pending \<or> t_status t = Running)
      then t\<lparr>t_status := Cancelled, t_completed_at := Some at\<rparr> else t)"

named_theorems row_shape \<open>rows keep their identity and graph\<close>

lemma shape_start_row [row_shape]: "task_shape (start_row tid now t) = task_shape t"
  by (simp add: start_row_def task_shape_def)

lemma shape_complete_row [row_shape]: "task_shape (complete_row request t) = task_shape t"
  by (simp add: complete_row_def task_shape_def)

lemma shape_release_row [row_shape]: "task_shape (release_row children t) = task_shape t"
  by (simp add: release_row_def task_shape_def)

lemma shape_retry_row [row_shape]: "task_shape (retry_row request t) = task_shape t"
  by (simp add: retry_row_def task_shape_def)

lemma shape_cancel_row [row_shape]: "task_shape (cancel_row wid at t) = task_shape t"
  by (simp add: cancel_row_def task_shape_def)

lemma shape_eqD:
  assumes "task_shape t = task_shape u"
  shows "t_id t = t_id u" "t_workflow_execution_id t = t_workflow_execution_id u"
    "t_task_definition_id t = t_task_definition_id u" "t_key t = t_key u"
    "t_plugin_type t = t_plugin_type u" "t_configuration t = t_configuration u"
    "t_parent_task_ids t = t_parent_task_ids u" "t_child_task_ids t = t_child_task_ids u"
  using assms by (simp_all add: task_shape_def)

lemmas start_row_keeps [simp] = shape_eqD [OF shape_start_row]
lemmas complete_row_keeps [simp] = shape_eqD [OF shape_complete_row]
lemmas release_row_keeps [simp] = shape_eqD [OF shape_release_row]
lemmas retry_row_keeps [simp] = shape_eqD [OF shape_retry_row]
lemmas cancel_row_keeps [simp] = shape_eqD [OF shape_cancel_row]

abbreviation task_ids :: "task_row list \<Rightarrow> uuid list" where
  "task_ids ts \<equiv> map t_id ts"

lemma task_ids_map:
  "(\<And>t. task_shape (f t) = task_shape t) \<Longrightarrow> task_ids (map f ts) = task_ids ts"
  by (auto simp: comp_def dest: shape_eqD(1))

text \<open>Starting.\<close>

lemma start_update_eq:
  "update_where (\<lambda>t. t_id t = tid \<and> t_status t = Pending)
     (\<lambda>t. t\<lparr>t_status := Running, t_started_at := Some now\<rparr>) ts = map (start_row tid now) ts"
  by (simp add: update_where_def start_row_def)

lemma start_task_db:
  "fst (start_task tid now db) = db\<lparr>task_executions := map (start_row tid now) (task_executions db)\<rparr>"
  by (simp add: start_task_def start_update_eq Let_def split: option.splits sum.splits)

text \<open>Completing: the children of the completed task are released in one pass.\<close>

lemma release_row_Nil [simp]: "release_row [] = (\<lambda>t. t)"
  by (rule ext) (simp add: release_row_def)

lemma release_update_eq:
  "update_where (\<lambda>t. t_id t = c \<and> t_status t = Pending \<and> t_remaining_dependencies t > 0)
     (\<lambda>t. t\<lparr>t_remaining_dependencies := t_remaining_dependencies t - 1\<rparr>) ts
   = map (release_row [c]) ts"
  by (simp add: update_where_def release_row_def)

lemma release_row_Cons:
  "c \<notin> set cs \<Longrightarrow> release_row cs (release_row [c] t) = release_row (c # cs) t"
  by (auto simp: release_row_def)

definition becomes_runnable :: "task_row list \<Rightarrow> uuid \<Rightarrow> bool" where
  "becomes_runnable ts c \<longleftrightarrow>
     (\<exists>t \<in> set ts. t_id t = c \<and> t_status t = Pending \<and> t_remaining_dependencies t = 1)"

lemma becomes_runnable_release_other:
  "c \<noteq> d \<Longrightarrow> becomes_runnable (map (release_row [d]) ts) c \<longleftrightarrow> becomes_runnable ts c"
  unfolding becomes_runnable_def set_map bex_simps
  by (rule bex_cong) (auto simp: release_row_def)

lemma released_to_zero_iff:
  assumes "distinct (task_ids ts)"
  shows "one_or_none (update_returning
           (\<lambda>t. t_id t = c \<and> t_status t = Pending \<and> t_remaining_dependencies t > 0)
           (\<lambda>t. t\<lparr>t_remaining_dependencies := t_remaining_dependencies t - 1\<rparr>)
           t_remaining_dependencies ts) = Some 0 \<longleftrightarrow> becomes_runnable ts c"
  by (auto simp: one_or_none_returning becomes_runnable_def find_key_Some_iff [OF assms])

lemma update_child_dependencies_eq:
  "distinct (task_ids (task_executions db)) \<Longrightarrow> distinct cs \<Longrightarrow>
   update_child_dependencies cs db =
     (db\<lparr>task_executions := map (release_row cs) (task_executions db)\<rparr>,
      filter (becomes_runnable (task_executions db)) cs)"
proof (induction cs arbitrary: db)
  case Nil
  then show ?case by simp
next
  case (Cons c cs)
  let ?ts = "task_executions db"
  let ?db = "db\<lparr>task_executions := map (release_row [c]) ?ts\<rparr>"
  have "distinct (task_ids (task_executions ?db))"
    using Cons.prems(1) by (simp add: comp_def)
  with Cons have IH: "update_child_dependencies cs ?db =
      (?db\<lparr>task_executions := map (release_row cs) (task_executions ?db)\<rparr>,
       filter (becomes_runnable (task_executions ?db)) cs)"
    by simp
  have "filter (becomes_runnable (map (release_row [c]) ?ts)) cs = filter (becomes_runnable ?ts) cs"
    using Cons.prems(2) by (intro filter_cong refl) (metis becomes_runnable_release_other distinct.simps(2))
  then show ?case
    using Cons.prems IH
    by (simp add: Let_def release_update_eq released_to_zero_iff release_row_Cons comp_def)
qed

definition finish_workflow_row :: "uuid \<Rightarrow> datetime \<Rightarrow> task_row list \<Rightarrow> workflow_row \<Rightarrow> workflow_row" where
  "finish_workflow_row wid at ts w =
     (if w_id w = wid \<and> w_status w = WfRunning
         \<and> (\<forall>t \<in> set ts. t_workflow_execution_id t = wid \<longrightarrow> t_status t = Completed)
      then w\<lparr>w_status := WfCompleted, w_completed_at := Some at\<rparr> else w)"

lemma complete_workflow_db:
  "fst (complete_workflow_if_finished (Some wid) at db) =
     db\<lparr>workflow_executions :=
          map (finish_workflow_row wid at (task_executions db)) (workflow_executions db)\<rparr>"
  by (auto simp: complete_workflow_if_finished_def finish_workflow_row_def update_where_def Let_def)

lemma complete_task_inactive:
  assumes "\<And>t. t \<in> set (task_executions db) \<Longrightarrow> t_id t = creq_task_execution_id request \<Longrightarrow>
             t_status t \<noteq> Running"
  shows "complete_task request db =
     (db, Inr \<lparr>cres_runnable_task_execution_ids = [], cres_workflow_completed = False\<rparr>)"
proof -
  have f: "find (\<lambda>t. t_id t = creq_task_execution_id request \<and> t_status t = Running)
          (task_executions db) = None"
    using assms by (auto simp: find_None_iff)
  show ?thesis
    using assms
    by (simp add: complete_task_def complete_task_helper_def Let_def one_or_none_returning f
        update_where_none)
qed

lemma complete_update_eq:
  "update_where (\<lambda>t. t_id t = creq_task_execution_id request \<and> t_status t = Running)
     (\<lambda>t. t\<lparr>t_status := Completed, t_output := Some (output_values (creq_output request)),
            t_completed_at := Some (creq_completed_at request)\<rparr>) ts = map (complete_row request) ts"
  by (simp add: update_where_def complete_row_def)

lemma complete_task_active:
  assumes ids: "distinct (task_ids (task_executions db))"
    and r: "r \<in> set (task_executions db)" "t_id r = creq_task_execution_id request"
      "t_status r = Running"
    and children: "distinct (t_child_task_ids r)"
  defines "ts \<equiv> map (release_row (t_child_task_ids r))
                  (map (complete_row request) (task_executions db))"
  shows "fst (complete_task request db) =
      db\<lparr>task_executions := ts,
         workflow_executions :=
           map (finish_workflow_row (t_workflow_execution_id r) (creq_completed_at request) ts)
             (workflow_executions db)\<rparr>"
    and "\<exists>done. snd (complete_task request db) =
      Inr \<lparr>cres_runnable_task_execution_ids =
             filter (becomes_runnable (map (complete_row request) (task_executions db)))
               (t_child_task_ids r),
           cres_workflow_completed = done\<rparr>"
proof -
  let ?db1 = "db\<lparr>task_executions := map (complete_row request) (task_executions db)\<rparr>"
  have "find (\<lambda>t. t_id t = creq_task_execution_id request \<and> t_status t = Running)
          (task_executions db) = Some r"
    using r by (simp add: find_key_Some_iff [OF ids])
  then have helper: "complete_task_helper request db =
      (?db1, \<lparr>chr_succeeded = True, chr_child_task_ids = t_child_task_ids r,
              chr_workflow_execution_id = Some (t_workflow_execution_id r)\<rparr>)"
    by (simp add: complete_task_helper_def Let_def one_or_none_returning complete_update_eq)
  have children_eq: "update_child_dependencies (t_child_task_ids r) ?db1 =
      (?db1\<lparr>task_executions := ts\<rparr>,
       filter (becomes_runnable (map (complete_row request) (task_executions db)))
         (t_child_task_ids r))"
    using ids children by (subst update_child_dependencies_eq) (simp_all add: ts_def comp_def)
  obtain db3 finished where wf: "complete_workflow_if_finished (Some (t_workflow_execution_id r))
      (creq_completed_at request) (?db1\<lparr>task_executions := ts\<rparr>) = (db3, finished)"
    by force
  have db3: "db3 = db\<lparr>task_executions := ts, workflow_executions :=
      map (finish_workflow_row (t_workflow_execution_id r) (creq_completed_at request) ts)
        (workflow_executions db)\<rparr>"
    using complete_workflow_db [of "t_workflow_execution_id r" "creq_completed_at request"
        "?db1\<lparr>task_executions := ts\<rparr>"] wf by simp
  show "fst (complete_task request db) =
      db\<lparr>task_executions := ts,
         workflow_executions :=
           map (finish_workflow_row (t_workflow_execution_id r) (creq_completed_at request) ts)
             (workflow_executions db)\<rparr>"
    and "\<exists>done. snd (complete_task request db) =
      Inr \<lparr>cres_runnable_task_execution_ids =
             filter (becomes_runnable (map (complete_row request) (task_executions db)))
               (t_child_task_ids r),
           cres_workflow_completed = done\<rparr>"
    using wf db3 by (simp_all add: complete_task_def helper children_eq)
qed

text \<open>Retrying and failing.\<close>

lemma retry_update_eq:
  "update_where (\<lambda>t. t_id t = rreq_task_execution_id request \<and> t_status t = Running
                     \<and> t_remaining_tries t > 0)
     (\<lambda>t. t\<lparr>t_remaining_tries := t_remaining_tries t - 1,
            t_status := (if t_remaining_tries t > 1 then Running else Failed),
            t_error_message := rreq_error_message request,
            t_completed_at := (if t_remaining_tries t > 1 then None
                               else Some (rreq_completed_at request))\<rparr>) ts
   = map (retry_row request) ts"
  by (simp add: update_where_def retry_row_def)

lemma cancel_update_eq:
  "update_where (\<lambda>t. Some (t_workflow_execution_id t) = Some wid
                     \<and> (t_status t = Pending \<or> t_status t = Running))
     (\<lambda>t. t\<lparr>t_status := Cancelled, t_completed_at := Some at\<rparr>) ts = map (cancel_row wid at) ts"
  by (simp add: update_where_def cancel_row_def)

definition fail_workflow_row :: "uuid \<Rightarrow> datetime \<Rightarrow> workflow_row \<Rightarrow> workflow_row" where
  "fail_workflow_row wid at w =
     (if w_id w = wid \<and> w_status w = WfRunning
      then w\<lparr>w_status := WfFailed, w_completed_at := Some at\<rparr> else w)"

lemma finish_workflow_row_keeps [simp]:
  "w_id (finish_workflow_row wid at ts w) = w_id w"
  "w_workflow_definition_id (finish_workflow_row wid at ts w) = w_workflow_definition_id w"
  "w_started_at (finish_workflow_row wid at ts w) = w_started_at w"
  by (simp_all add: finish_workflow_row_def)

lemma fail_workflow_row_keeps [simp]:
  "w_id (fail_workflow_row wid at w) = w_id w"
  "w_workflow_definition_id (fail_workflow_row wid at w) = w_workflow_definition_id w"
  "w_started_at (fail_workflow_row wid at w) = w_started_at w"
  by (simp_all add: fail_workflow_row_def)

definition workflow_running :: "database \<Rightarrow> uuid \<Rightarrow> bool" where
  "workflow_running db wid \<longleftrightarrow> (\<exists>w \<in> set (workflow_executions db). w_id w = wid \<and> w_status w = WfRunning)"

lemma fail_workflow_running:
  assumes "distinct (map w_id (workflow_executions db))" and "workflow_running db wid"
  shows "fail_workflow (Some wid) at db =
     (db\<lparr>workflow_executions := map (fail_workflow_row wid at) (workflow_executions db),
         task_executions := map (cancel_row wid at) (task_executions db)\<rparr>, True)"
proof -
  have "rowcount (\<lambda>w. w_id w = wid \<and> w_status w = WfRunning) (workflow_executions db) = 1"
    using rowcount_key_1_iff [OF assms(1), of wid "\<lambda>w. w_status w = WfRunning"] assms(2)
    by (simp add: workflow_running_def)
  then show ?thesis
    by (simp add: fail_workflow_def Let_def update_where_def fail_workflow_row_def cancel_row_def)
qed

lemma fail_workflow_not_running:
  assumes "\<not> workflow_running db wid"
  shows "fail_workflow (Some wid) at db = (db, False)"
proof -
  have none: "\<And>w. w \<in> set (workflow_executions db) \<Longrightarrow> \<not> (w_id w = wid \<and> w_status w = WfRunning)"
    using assms by (auto simp: workflow_running_def)
  then have "rowcount (\<lambda>w. w_id w = wid \<and> w_status w = WfRunning) (workflow_executions db) = 0"
    by (auto simp: rowcount_0_iff)
  with none show ?thesis
    by (simp add: fail_workflow_def Let_def update_where_none)
qed

lemma retry_task_inactive:
  assumes "\<And>t. t \<in> set (task_executions db) \<Longrightarrow> t_id t = rreq_task_execution_id request \<Longrightarrow>
             t_status t \<noteq> Running \<or> t_remaining_tries t \<le> 0"
  shows "retry_task request db =
     (db, Inr \<lparr>rres_should_retry = False, rres_workflow_failed = False\<rparr>)"
proof -
  have none: "\<And>t. t \<in> set (task_executions db) \<Longrightarrow> \<not> (t_id t = rreq_task_execution_id request
      \<and> t_status t = Running \<and> t_remaining_tries t > 0)"
    using assms by force
  then have f: "find (\<lambda>t. t_id t = rreq_task_execution_id request \<and> t_status t = Running
      \<and> t_remaining_tries t > 0) (task_executions db) = None"
    by (auto simp: find_None_iff)
  show ?thesis
    using none
    by (simp add: retry_task_def retry_task_helper_def Let_def one_or_none_returning f
        update_where_none)
qed

lemma retry_helper_active:
  assumes ids: "distinct (task_ids (task_executions db))"
    and r: "r \<in> set (task_executions db)" "t_id r = rreq_task_execution_id request"
      "t_status r = Running" "t_remaining_tries r > 0"
  shows "retry_task_helper request db =
      (db\<lparr>task_executions := map (retry_row request) (task_executions db)\<rparr>,
       \<lparr>rhr_succeeded = True, rhr_should_retry = t_remaining_tries r > 1,
        rhr_workflow_execution_id = Some (t_workflow_execution_id r)\<rparr>)"
proof -
  have "find (\<lambda>t. t_id t = rreq_task_execution_id request \<and> t_status t = Running
      \<and> t_remaining_tries t > 0) (task_executions db) = Some r"
    using r by (simp add: find_key_Some_iff [OF ids])
  then show ?thesis
    by (simp add: retry_task_helper_def Let_def one_or_none_returning retry_update_eq)
qed

lemma retry_task_again:
  assumes "distinct (task_ids (task_executions db))"
    and "r \<in> set (task_executions db)" "t_id r = rreq_task_execution_id request"
      "t_status r = Running" "t_remaining_tries r > 1"
  shows "retry_task request db =
      (db\<lparr>task_executions := map (retry_row request) (task_executions db)\<rparr>,
       Inr \<lparr>rres_should_retry = True, rres_workflow_failed = False\<rparr>)"
  using assms by (simp add: retry_task_def retry_helper_active)

lemma retry_task_last:
  assumes "distinct (task_ids (task_executions db))"
    and "distinct (map w_id (workflow_executions db))"
    and "r \<in> set (task_executions db)" "t_id r = rreq_task_execution_id request"
      "t_status r = Running" "t_remaining_tries r = 1"
    and "workflow_running db (t_workflow_execution_id r)"
  shows "retry_task request db =
      (db\<lparr>task_executions :=
            map (cancel_row (t_workflow_execution_id r) (rreq_completed_at request))
              (map (retry_row request) (task_executions db)),
          workflow_executions :=
            map (fail_workflow_row (t_workflow_execution_id r) (rreq_completed_at request))
              (workflow_executions db)\<rparr>,
       Inr \<lparr>rres_should_retry = False, rres_workflow_failed = True\<rparr>)"
  using assms
  by (simp add: retry_task_def retry_helper_active fail_workflow_running workflow_running_def)

lemma retry_task_last_not_running:
  assumes "distinct (task_ids (task_executions db))"
    and "r \<in> set (task_executions db)" "t_id r = rreq_task_execution_id request"
      "t_status r = Running" "t_remaining_tries r = 1"
    and "\<not> workflow_running db (t_workflow_execution_id r)"
  shows "retry_task request db =
      (db\<lparr>task_executions := map (retry_row request) (task_executions db)\<rparr>,
       Inr \<lparr>rres_should_retry = False, rres_workflow_failed = False\<rparr>)"
  using assms
  by (simp add: retry_task_def retry_helper_active fail_workflow_not_running workflow_running_def)

section \<open>Round trips through the mapper\<close>

lemma output_to_domain_model [simp]:
  "output_to_domain (case out of None \<Rightarrow> None | Some v \<Rightarrow> Some (output_values v)) = out"
  by (simp add: output_to_domain_def split: option.splits)

lemma task_model_roundtrip [simp]: "task_to_domain (task_to_model task) = task"
  by (simp add: task_to_domain_def task_to_model_def)

lemma task_domain_roundtrip [simp]: "task_to_model (task_to_domain row) = row"
  by (simp add: task_to_domain_def task_to_model_def output_to_domain_def split: option.splits)

lemma workflow_model_roundtrip:
  "workflow_to_model we = (w, ts) \<Longrightarrow> workflow_to_domain w (map task_to_domain ts) = we"
  by (auto simp: workflow_to_model_def workflow_to_domain_def Let_def comp_def)

end
