(* ===== verification/Execution_Invariants.thy ===== *)
theory Execution_Invariants
  imports Execution_Repository
begin

text \<open>
  What the task tables satisfy while executions run: the stored graph is consistent (parents
  and children mirror each other inside one workflow), dependency counters equal the number of
  parents still to complete, a started task has only completed parents, and the status of a
  workflow agrees with its tasks. Each transition of the repository preserves these invariants;
  the abstract reading of a counter, "all parents are completed", is what the scheduler needs.
\<close>

section \<open>The stored graph\<close>

definition completed :: "task_row list \<Rightarrow> uuid \<Rightarrow> bool" where
  "completed ts p \<longleftrightarrow> (\<exists>u \<in> set ts. t_id u = p \<and> t_status u = Completed)"

definition mirrored :: "task_row list \<Rightarrow> task_row \<Rightarrow> bool" where
  "mirrored ts t \<longleftrightarrow>
     distinct (t_parent_task_ids t) \<and> distinct (t_child_task_ids t)
     \<and> (\<forall>p \<in> set (t_parent_task_ids t). \<exists>u \<in> set ts. t_id u = p
           \<and> t_workflow_execution_id u = t_workflow_execution_id t
           \<and> t_id t \<in> set (t_child_task_ids u))
     \<and> (\<forall>c \<in> set (t_child_task_ids t). \<exists>u \<in> set ts. t_id u = c
           \<and> t_workflow_execution_id u = t_workflow_execution_id t
           \<and> t_id t \<in> set (t_parent_task_ids u))"

definition unique_keys :: "task_row list \<Rightarrow> bool" where
  "unique_keys ts \<longleftrightarrow> distinct (map (\<lambda>t. (t_workflow_execution_id t, t_key t)) ts)"

definition acyclic_graph :: "task_row list \<Rightarrow> bool" where
  "acyclic_graph ts \<longleftrightarrow>
     (\<exists>rank :: uuid \<Rightarrow> nat. \<forall>t \<in> set ts. \<forall>p \<in> set (t_parent_task_ids t). rank p < rank (t_id t))"

definition graph_ok :: "task_row list \<Rightarrow> bool" where
  "graph_ok ts \<longleftrightarrow>
     distinct (task_ids ts) \<and> (\<forall>t \<in> set ts. mirrored ts t) \<and> unique_keys ts \<and> acyclic_graph ts"

section \<open>Progress of tasks\<close>

definition open_parents :: "task_row list \<Rightarrow> task_row \<Rightarrow> uuid list" where
  "open_parents ts t = filter (\<lambda>p. \<not> completed ts p) (t_parent_task_ids t)"

definition ready :: "task_row list \<Rightarrow> task_row \<Rightarrow> bool" where
  "ready ts t \<longleftrightarrow> (\<forall>p \<in> set (t_parent_task_ids t). completed ts p)"

definition row_ok :: "task_row list \<Rightarrow> task_row \<Rightarrow> bool" where
  "row_ok ts t \<longleftrightarrow>
     (case t_status t of
        Pending \<Rightarrow> t_remaining_dependencies t = int (length (open_parents ts t))
                   \<and> t_remaining_tries t > 0
      | Running \<Rightarrow> ready ts t \<and> t_remaining_dependencies t = 0 \<and> t_remaining_tries t > 0
      | Completed \<Rightarrow> ready ts t \<and> t_output t \<noteq> None
      | Failed \<Rightarrow> ready ts t
      | Cancelled \<Rightarrow> True)"

definition progress_ok :: "task_row list \<Rightarrow> bool" where
  "progress_ok ts \<longleftrightarrow> (\<forall>t \<in> set ts. row_ok ts t)"

section \<open>Status of workflows\<close>

definition tasks_of :: "task_row list \<Rightarrow> uuid \<Rightarrow> task_row list" where
  "tasks_of ts wid = filter (\<lambda>t. t_workflow_execution_id t = wid) ts"

definition workflow_ok :: "task_row list \<Rightarrow> workflow_row \<Rightarrow> bool" where
  "workflow_ok ts w \<longleftrightarrow>
     (case w_status w of
        WfRunning \<Rightarrow> (\<forall>t \<in> set (tasks_of ts (w_id w)). t_status t \<noteq> Failed \<and> t_status t \<noteq> Cancelled)
                     \<and> (\<exists>t \<in> set (tasks_of ts (w_id w)). t_status t \<noteq> Completed)
      | WfCompleted \<Rightarrow> (\<forall>t \<in> set (tasks_of ts (w_id w)). t_status t = Completed)
      | WfFailed \<Rightarrow> (\<forall>t \<in> set (tasks_of ts (w_id w)). terminal_task (t_status t))
                    \<and> (\<exists>t \<in> set (tasks_of ts (w_id w)). t_status t = Failed)
      | WfCancelled \<Rightarrow> False)"

definition workflows_ok :: "database \<Rightarrow> bool" where
  "workflows_ok db \<longleftrightarrow>
     distinct (map w_id (workflow_executions db))
     \<and> (\<forall>t \<in> set (task_executions db). t_workflow_execution_id t \<in> w_id ` set (workflow_executions db))
     \<and> (\<forall>w \<in> set (workflow_executions db). workflow_ok (task_executions db) w)"

definition exec_inv :: "database \<Rightarrow> bool" where
  "exec_inv db \<longleftrightarrow>
     graph_ok (task_executions db) \<and> progress_ok (task_executions db) \<and> workflows_ok db"

lemma exec_invD:
  assumes "exec_inv db"
  shows "graph_ok (task_executions db)" "progress_ok (task_executions db)" "workflows_ok db"
    "distinct (task_ids (task_executions db))" "distinct (map w_id (workflow_executions db))"
  using assms by (auto simp: exec_inv_def graph_ok_def workflows_ok_def)

lemma exec_inv_empty: "exec_inv empty_database"
  by (simp add: exec_inv_def empty_database_def graph_ok_def unique_keys_def acyclic_graph_def
      progress_ok_def workflows_ok_def)

section \<open>Rewriting rows keeps the graph\<close>

lemma graph_ok_map:
  assumes shape: "\<And>t. task_shape (f t) = task_shape t" and ok: "graph_ok ts"
  shows "graph_ok (map f ts)"
proof -
  have f [simp]: "t_id (f t) = t_id t" "t_workflow_execution_id (f t) = t_workflow_execution_id t"
    "t_key (f t) = t_key t" "t_parent_task_ids (f t) = t_parent_task_ids t"
    "t_child_task_ids (f t) = t_child_task_ids t" for t
    by (rule shape_eqD [OF shape])+
  have "distinct (task_ids (map f ts))"
    using ok by (simp add: graph_ok_def comp_def)
  moreover have "\<forall>t \<in> set (map f ts). mirrored (map f ts) t"
    using ok by (simp add: graph_ok_def mirrored_def)
  moreover have "unique_keys (map f ts)"
    using ok by (simp add: graph_ok_def unique_keys_def comp_def)
  moreover have "acyclic_graph (map f ts)"
    using ok by (simp add: graph_ok_def acyclic_graph_def)
  ultimately show ?thesis by (simp add: graph_ok_def)
qed

lemma same_id_same_row:
  "distinct (task_ids ts) \<Longrightarrow> t \<in> set ts \<Longrightarrow> u \<in> set ts \<Longrightarrow> t_id t = t_id u \<Longrightarrow> t = u"
  by (rule distinct_key_eq)

lemma completed_iff_status:
  "distinct (task_ids ts) \<Longrightarrow> t \<in> set ts \<Longrightarrow> completed ts (t_id t) \<longleftrightarrow> t_status t = Completed"
  by (auto simp: completed_def dest: same_id_same_row)

lemma parent_child_iff:
  assumes "graph_ok ts" "t \<in> set ts" "u \<in> set ts"
  shows "t_id t \<in> set (t_parent_task_ids u) \<longleftrightarrow> t_id u \<in> set (t_child_task_ids t)"
  using assms unfolding graph_ok_def mirrored_def by (metis same_id_same_row)

lemma completed_map_same:
  assumes "\<And>t. task_shape (f t) = task_shape t"
    and "\<And>t. t \<in> set ts \<Longrightarrow> t_status (f t) = Completed \<longleftrightarrow> t_status t = Completed"
  shows "completed (map f ts) p = completed ts p"
  using assms(2) shape_eqD(1) [OF assms(1)] by (auto simp: completed_def)

text \<open>
  Row functions that complete no task: the invariant on rows is checked row by row, with
  readiness and open parents read in the old table.
\<close>

lemma progress_ok_map:
  assumes shape: "\<And>t. task_shape (f t) = task_shape t"
    and same: "\<And>t. t \<in> set ts \<Longrightarrow> t_status (f t) = Completed \<longleftrightarrow> t_status t = Completed"
    and row: "\<And>t. t \<in> set ts \<Longrightarrow> row_ok ts t \<Longrightarrow> row_ok ts (f t)"
    and ok: "progress_ok ts"
  shows "progress_ok (map f ts)"
proof -
  have "completed (map f ts) = completed ts"
    by (rule ext) (rule completed_map_same [OF shape same])
  then have "row_ok (map f ts) t = row_ok ts t" for t
    by (cases "t_status t") (simp_all add: row_ok_def ready_def open_parents_def)
  with row ok show ?thesis by (simp add: progress_ok_def)
qed

lemma ready_cong: "t_parent_task_ids t = t_parent_task_ids u \<Longrightarrow> ready ts t = ready ts u"
  by (simp add: ready_def)

lemma open_parents_cong:
  "t_parent_task_ids t = t_parent_task_ids u \<Longrightarrow> open_parents ts t = open_parents ts u"
  by (simp add: open_parents_def)

lemma ready_iff_no_open: "ready ts t \<longleftrightarrow> open_parents ts t = []"
  by (auto simp: ready_def open_parents_def filter_empty_conv)

text \<open>
  The counter is the abstract dependency condition: a pending task has counter 0 exactly when
  all its parents are completed.
\<close>

lemma counter_zero_iff_ready:
  "progress_ok ts \<Longrightarrow> t \<in> set ts \<Longrightarrow> t_status t = Pending \<Longrightarrow>
   t_remaining_dependencies t = 0 \<longleftrightarrow> ready ts t"
  by (force simp: progress_ok_def row_ok_def ready_iff_no_open)

section \<open>Starting a task\<close>

lemma progress_ok_start:
  assumes ok: "progress_ok ts"
    and released: "\<And>t. t \<in> set ts \<Longrightarrow> t_id t = tid \<Longrightarrow> t_status t = Pending \<Longrightarrow>
                     t_remaining_dependencies t = 0"
  shows "progress_ok (map (start_row tid now) ts)"
proof (rule progress_ok_map [OF shape_start_row _ _ ok])
  show "t_status (start_row tid now t) = Completed \<longleftrightarrow> t_status t = Completed" for t
    by (simp add: start_row_def)
  fix t assume t: "t \<in> set ts" "row_ok ts t"
  show "row_ok ts (start_row tid now t)"
  proof (cases "t_id t = tid \<and> t_status t = Pending")
    case True
    with released t have "t_remaining_dependencies t = 0" by blast
    moreover from this have "ready ts t"
      using counter_zero_iff_ready [OF ok t(1)] True by blast
    ultimately show ?thesis
      using True t(2) by (simp add: start_row_def row_ok_def ready_def)
  next
    case False
    then have "start_row tid now t = t" by (auto simp: start_row_def)
    with t show ?thesis by simp
  qed
qed

lemma tasks_of_map:
  assumes "\<And>t. task_shape (f t) = task_shape t"
  shows "set (tasks_of (map f ts) wid) = f ` set (tasks_of ts wid)"
  using shape_eqD(2) [OF assms] by (auto simp: tasks_of_def)

lemmas tasks_of_rows [simp] =
  tasks_of_map [OF shape_start_row] tasks_of_map [OF shape_complete_row]
  tasks_of_map [OF shape_release_row] tasks_of_map [OF shape_retry_row]
  tasks_of_map [OF shape_cancel_row]

lemma start_row_status:
  "t_status (start_row tid now t) = (if t_id t = tid \<and> t_status t = Pending then Running else t_status t)"
  by (simp add: start_row_def)

text \<open>A row function that ends no task, and reopens none, keeps the status of a workflow right.\<close>

lemma workflow_ok_map:
  assumes shape: "\<And>t. task_shape (f t) = task_shape t"
    and ended: "\<And>t. t \<in> set (tasks_of ts (w_id w)) \<Longrightarrow> terminal_task (t_status t) \<Longrightarrow>
                  t_status (f t) = t_status t"
    and open_task: "\<And>t. t \<in> set (tasks_of ts (w_id w)) \<Longrightarrow> \<not> terminal_task (t_status t) \<Longrightarrow>
                  \<not> terminal_task (t_status (f t))"
    and ok: "workflow_ok ts w"
  shows "workflow_ok (map f ts) w"
proof -
  have *: "t_status (f t) = s \<longleftrightarrow> t_status t = s"
    if "t \<in> set (tasks_of ts (w_id w))" "terminal_task s" for t s
    using ended [OF that(1)] open_task [OF that(1)] that(2) by (metis)
  have terminal: "terminal_task (t_status (f t)) \<longleftrightarrow> terminal_task (t_status t)"
    if "t \<in> set (tasks_of ts (w_id w))" for t
    using ended [OF that] open_task [OF that] by metis
  show ?thesis
    using ok * terminal
    by (cases "w_status w") (simp_all add: workflow_ok_def tasks_of_map [OF shape])
qed

lemma workflow_ok_start:
  "workflow_ok ts w \<Longrightarrow> workflow_ok (map (start_row tid now) ts) w"
  by (rule workflow_ok_map [OF shape_start_row]) (auto simp: start_row_status)

lemma exec_inv_start:
  assumes inv: "exec_inv db"
    and released: "\<And>t. t \<in> set (task_executions db) \<Longrightarrow> t_id t = tid \<Longrightarrow> t_status t = Pending \<Longrightarrow>
                     t_remaining_dependencies t = 0"
  shows "exec_inv (fst (start_task tid now db))"
  using exec_invD [OF inv] progress_ok_start [OF _ released]
  by (auto simp: start_task_db exec_inv_def workflows_ok_def workflow_ok_start
      intro: graph_ok_map shape_start_row)

section \<open>Completing a task\<close>

lemma complete_row_status:
  "t_status (complete_row request t) =
     (if t_id t = creq_task_execution_id request \<and> t_status t = Running then Completed
      else t_status t)"
  by (simp add: complete_row_def)

lemma completed_complete_row:
  assumes "r \<in> set ts" "t_id r = creq_task_execution_id request" "t_status r = Running"
  shows "completed (map (complete_row request) ts) p \<longleftrightarrow> completed ts p \<or> p = t_id r"
proof
  assume "completed (map (complete_row request) ts) p"
  then show "completed ts p \<or> p = t_id r"
    using assms by (auto simp: completed_def complete_row_status split: if_splits)
next
  assume "completed ts p \<or> p = t_id r"
  then obtain u where "u \<in> set ts" "t_id u = p" "t_status (complete_row request u) = Completed"
    using assms by (auto simp: completed_def complete_row_status)
  then show "completed (map (complete_row request) ts) p"
    unfolding completed_def set_map by (metis complete_row_keeps(1) imageI)
qed

lemma completed_release_row:
  "completed (map (release_row cs) ts) p \<longleftrightarrow> completed ts p"
  by (rule completed_map_same [OF shape_release_row]) (simp add: release_row_def)

text \<open>One more completed parent closes exactly one open parent of each child.\<close>

lemma length_filter_close:
  "distinct ps \<Longrightarrow> \<not> C r \<Longrightarrow>
   length (filter (\<lambda>p. \<not> (C p \<or> p = r)) ps) + (if r \<in> set ps then 1 else 0)
   = length (filter (\<lambda>p. \<not> C p) ps)"
  by (induction ps) (auto split: if_splits)

definition completion_rows :: "complete_request \<Rightarrow> task_row \<Rightarrow> task_row list \<Rightarrow> task_row list" where
  "completion_rows request r ts =
     map (release_row (t_child_task_ids r)) (map (complete_row request) ts)"

lemma completed_completion_rows:
  assumes "r \<in> set ts" "t_id r = creq_task_execution_id request" "t_status r = Running"
  shows "completed (completion_rows request r ts) p \<longleftrightarrow> completed ts p \<or> p = t_id r"
  unfolding completion_rows_def completed_release_row completed_complete_row [OF assms] ..

lemma open_parents_completion:
  assumes graph: "graph_ok ts" and t: "t \<in> set ts"
    and r: "r \<in> set ts" "t_id r = creq_task_execution_id request" "t_status r = Running"
  shows "length (open_parents (completion_rows request r ts) t)
           + (if t_id t \<in> set (t_child_task_ids r) then 1 else 0)
         = length (open_parents ts t)"
proof -
  have "\<not> completed ts (t_id r)"
    using graph r completed_iff_status [of ts r] by (simp add: graph_ok_def)
  moreover have "distinct (t_parent_task_ids t)"
    using graph t by (auto simp: graph_ok_def mirrored_def)
  moreover have "t_id r \<in> set (t_parent_task_ids t) \<longleftrightarrow> t_id t \<in> set (t_child_task_ids r)"
    using parent_child_iff [OF graph r(1) t] .
  ultimately show ?thesis
    using length_filter_close [of "t_parent_task_ids t" "completed ts" "t_id r"]
    by (simp add: open_parents_def completed_completion_rows [OF r])
qed

lemma ready_completion:
  assumes r: "r \<in> set ts" "t_id r = creq_task_execution_id request" "t_status r = Running"
    and "ready ts t"
  shows "ready (completion_rows request r ts) t"
  using assms
  by (simp add: ready_def completed_completion_rows)

lemma progress_ok_complete:
  assumes graph: "graph_ok ts" and ok: "progress_ok ts"
    and r: "r \<in> set ts" "t_id r = creq_task_execution_id request" "t_status r = Running"
  shows "progress_ok (completion_rows request r ts)"
  unfolding progress_ok_def
proof
  let ?ts = "completion_rows request r ts"
  fix t' assume "t' \<in> set ?ts"
  then obtain t where t: "t \<in> set ts"
    and t': "t' = release_row (t_child_task_ids r) (complete_row request t)"
    by (auto simp: completion_rows_def)
  have row: "row_ok ts t" using ok t by (simp add: progress_ok_def)
  have op: "open_parents ?ts t' = open_parents ?ts t" "ready ?ts t' = ready ?ts t"
    using t' by (simp_all add: open_parents_def ready_def)
  note counter = open_parents_completion [OF graph t r]
  note kept = ready_completion [OF r, of t]
  show "row_ok ?ts t'"
  proof (cases "t_status t")
    case Pending
    with row counter have "t_remaining_dependencies t > 0 \<or> t_id t \<notin> set (t_child_task_ids r)"
      by (auto simp: row_ok_def split: if_splits)
    with Pending row counter show ?thesis
      unfolding row_ok_def op
      by (auto simp: t' complete_row_def release_row_def split: if_splits)
  next
    case Running
    show ?thesis
    proof (cases "t_id t = creq_task_execution_id request")
      case True
      with Running row kept show ?thesis
        unfolding row_ok_def op by (simp add: t' complete_row_def release_row_def)
    next
      case False
      with Running row kept show ?thesis
        unfolding row_ok_def op by (simp add: t' complete_row_def release_row_def)
    qed
  qed (use row kept in \<open>simp_all add: row_ok_def op t' complete_row_def release_row_def\<close>)
qed

text \<open>
  The completed task's workflow: it stays running while a task is unfinished and is completed by
  the transition that finishes the last one.
\<close>

lemma completion_rows_eq_map:
  "completion_rows request r ts = map (\<lambda>t. release_row (t_child_task_ids r) (complete_row request t)) ts"
  by (simp add: completion_rows_def)

lemma shape_completion [row_shape]:
  "task_shape (release_row cs (complete_row request t)) = task_shape t"
  by (simp add: shape_release_row shape_complete_row)

lemma release_row_status [simp]: "t_status (release_row cs t) = t_status t"
  by (simp add: release_row_def)

lemma workflow_ok_completion_other:
  assumes r: "r \<in> set ts" "t_id r = creq_task_execution_id request" "t_status r = Running"
    and ids: "distinct (task_ids ts)"
    and other: "w_id w \<noteq> t_workflow_execution_id r" and ok: "workflow_ok ts w"
  shows "workflow_ok (completion_rows request r ts) w"
  unfolding completion_rows_eq_map
proof (rule workflow_ok_map [OF shape_completion _ _ ok])
  fix t assume t: "t \<in> set (tasks_of ts (w_id w))"
  then have "t \<noteq> r" "t \<in> set ts" using other by (auto simp: tasks_of_def)
  then have "t_id t \<noteq> creq_task_execution_id request"
    using r ids same_id_same_row by metis
  then show "t_status (release_row (t_child_task_ids r) (complete_row request t)) = t_status t"
    "\<not> terminal_task (t_status t) \<Longrightarrow>
     \<not> terminal_task (t_status (release_row (t_child_task_ids r) (complete_row request t)))"
    by (simp_all add: complete_row_status)
qed

lemma finish_row_workflow_ok:
  assumes ids: "distinct (map w_id ws)" and w: "w \<in> set ws"
    and r: "r \<in> set ts" "t_id r = creq_task_execution_id request" "t_status r = Running"
      "t_workflow_execution_id r = w_id w"
    and ok: "workflow_ok ts w"
  shows "workflow_ok (completion_rows request r ts)
           (finish_workflow_row (w_id w) at (completion_rows request r ts) w)"
proof -
  let ?ts = "completion_rows request r ts"
  have r_in: "r \<in> set (tasks_of ts (w_id w))" using r by (simp add: tasks_of_def)
  then have running: "w_status w = WfRunning"
    using ok r(3) by (cases "w_status w") (auto simp: workflow_ok_def)
  then have no_fail: "t_status t \<noteq> Failed \<and> t_status t \<noteq> Cancelled"
    if "t \<in> set (tasks_of ts (w_id w))" for t
    using ok that by (simp add: workflow_ok_def)
  have still: "\<forall>t \<in> set (tasks_of ?ts (w_id w)). t_status t \<noteq> Failed \<and> t_status t \<noteq> Cancelled"
    using no_fail
    by (simp add: completion_rows_eq_map tasks_of_map [OF shape_completion] complete_row_status)
  show ?thesis
  proof (cases "\<forall>t \<in> set ?ts. t_workflow_execution_id t = w_id w \<longrightarrow> t_status t = Completed")
    case True
    then show ?thesis
      using running by (auto simp: finish_workflow_row_def workflow_ok_def tasks_of_def)
  next
    case False
    then have "finish_workflow_row (w_id w) at ?ts w = w"
      by (auto simp: finish_workflow_row_def)
    moreover have "\<exists>t \<in> set (tasks_of ?ts (w_id w)). t_status t \<noteq> Completed"
      using False by (auto simp: tasks_of_def)
    ultimately show ?thesis using running still by (simp add: workflow_ok_def)
  qed
qed

lemma exec_inv_complete_active:
  assumes inv: "exec_inv db"
    and r: "r \<in> set (task_executions db)" "t_id r = creq_task_execution_id request"
      "t_status r = Running"
  shows "exec_inv (fst (complete_task request db))"
proof -
  note parts = exec_invD [OF inv]
  let ?ts = "completion_rows request r (task_executions db)"
  let ?fin = "finish_workflow_row (t_workflow_execution_id r) (creq_completed_at request) ?ts"
  have "distinct (t_child_task_ids r)"
    using parts(1) r by (auto simp: graph_ok_def mirrored_def)
  then have eq: "fst (complete_task request db) =
      db\<lparr>task_executions := ?ts, workflow_executions := map ?fin (workflow_executions db)\<rparr>"
    using complete_task_active(1) [OF parts(4) r] by (simp add: completion_rows_def)
  have graph: "graph_ok ?ts"
    using graph_ok_map [OF shape_completion parts(1)] by (simp add: completion_rows_eq_map)
  have "workflow_ok ?ts (?fin w)" if w: "w \<in> set (workflow_executions db)" for w
  proof (cases "t_workflow_execution_id r = w_id w")
    case True
    then show ?thesis
      using finish_row_workflow_ok [OF parts(5) w r True] parts(3) w
      by (simp add: workflows_ok_def)
  next
    case False
    then have "?fin w = w" by (simp add: finish_workflow_row_def)
    then show ?thesis
      using workflow_ok_completion_other [OF r parts(4)] False parts(3) w
      by (simp add: workflows_ok_def)
  qed
  moreover have "w_id ` ?fin ` set (workflow_executions db) = w_id ` set (workflow_executions db)"
    by (simp add: image_image)
  moreover have "\<forall>t \<in> set ?ts. t_workflow_execution_id t \<in> w_id ` set (workflow_executions db)"
    using parts(3) by (simp add: workflows_ok_def completion_rows_eq_map)
  ultimately have "workflows_ok (fst (complete_task request db))"
    using parts(5) by (simp add: eq workflows_ok_def comp_def)
  with graph progress_ok_complete [OF parts(1,2) r] show ?thesis
    by (simp add: exec_inv_def eq)
qed

lemma exec_inv_complete: "exec_inv db \<Longrightarrow> exec_inv (fst (complete_task request db))"
  using exec_inv_complete_active [of db _ request] complete_task_inactive [of db request]
  by (metis fst_conv)

section \<open>Retrying or failing a task\<close>

lemma retry_row_status:
  "t_status (retry_row request t) =
     (if t_id t = rreq_task_execution_id request \<and> t_status t = Running \<and> t_remaining_tries t > 0
      then if t_remaining_tries t > 1 then Running else Failed
      else t_status t)"
  by (simp add: retry_row_def)

lemma cancel_row_status:
  "t_status (cancel_row wid at t) =
     (if t_workflow_execution_id t = wid \<and> (t_status t = Pending \<or> t_status t = Running)
      then Cancelled else t_status t)"
  by (auto simp: cancel_row_def)

lemma row_ok_retry: "row_ok ts t \<Longrightarrow> row_ok ts (retry_row request t)"
  by (cases "t_status t") (auto simp: row_ok_def retry_row_def ready_def open_parents_def)

lemma row_ok_cancel: "row_ok ts t \<Longrightarrow> row_ok ts (cancel_row wid at t)"
  by (cases "t_status t") (auto simp: row_ok_def cancel_row_def ready_def open_parents_def)

lemma progress_ok_retry: "progress_ok ts \<Longrightarrow> progress_ok (map (retry_row request) ts)"
  by (rule progress_ok_map [OF shape_retry_row _ row_ok_retry]) (auto simp: retry_row_status)

lemma progress_ok_cancel: "progress_ok ts \<Longrightarrow> progress_ok (map (cancel_row wid at) ts)"
  by (rule progress_ok_map [OF shape_cancel_row _ row_ok_cancel]) (auto simp: cancel_row_status)

text \<open>A running task belongs to a running workflow.\<close>

lemma running_task_running_workflow:
  assumes "workflows_ok db" "t \<in> set (task_executions db)" "t_status t = Running"
  shows "workflow_running db (t_workflow_execution_id t)"
proof -
  obtain w where w: "w \<in> set (workflow_executions db)" "w_id w = t_workflow_execution_id t"
    using assms(1,2) by (force simp: workflows_ok_def)
  then have "workflow_ok (task_executions db) w" and "t \<in> set (tasks_of (task_executions db) (w_id w))"
    using assms by (simp_all add: workflows_ok_def tasks_of_def)
  then have "w_status w = WfRunning"
    using assms(3) by (cases "w_status w") (auto simp: workflow_ok_def)
  with w show ?thesis by (auto simp: workflow_running_def)
qed

lemma exec_inv_retry_again:
  assumes inv: "exec_inv db"
    and r: "r \<in> set (task_executions db)" "t_id r = rreq_task_execution_id request"
      "t_status r = Running" "t_remaining_tries r > 1"
  shows "exec_inv (fst (retry_task request db))"
proof -
  note parts = exec_invD [OF inv]
  have keep: "t_status (retry_row request t) = t_status t" if "t \<in> set (task_executions db)" for t
    using that r same_id_same_row [OF parts(4) that r(1)] by (auto simp: retry_row_status)
  have "workflow_ok (map (retry_row request) (task_executions db)) w"
    if "workflow_ok (task_executions db) w" for w
    by (rule workflow_ok_map [OF shape_retry_row _ _ that]) (simp_all add: keep tasks_of_def)
  then show ?thesis
    using retry_task_again [OF parts(4) r] parts(3) graph_ok_map [OF shape_retry_row parts(1)]
      progress_ok_retry [OF parts(2)]
    by (simp add: exec_inv_def workflows_ok_def)
qed

lemma failed_workflow_ok:
  assumes r: "r \<in> set ts" "t_id r = rreq_task_execution_id request" "t_status r = Running"
      "t_remaining_tries r = 1"
    and ids: "distinct (task_ids ts)" and ok: "workflow_ok ts w"
  shows "workflow_ok (map (cancel_row (t_workflow_execution_id r) at) (map (retry_row request) ts))
           (fail_workflow_row (t_workflow_execution_id r) at w)"
proof (cases "t_workflow_execution_id r = w_id w")
  case True
  let ?f = "\<lambda>t. cancel_row (t_workflow_execution_id r) at (retry_row request t)"
  have shape: "task_shape (?f t) = task_shape t" for t
    by (simp add: shape_cancel_row shape_retry_row)
  have r_in: "r \<in> set (tasks_of ts (w_id w))" using r True by (simp add: tasks_of_def)
  then have "w_status w = WfRunning"
    using ok r(3) by (cases "w_status w") (auto simp: workflow_ok_def)
  then have failed: "w_status (fail_workflow_row (t_workflow_execution_id r) at w) = WfFailed"
    using True by (simp add: fail_workflow_row_def)
  have "t_status (?f r) = Failed"
    using r by (simp add: cancel_row_status retry_row_status)
  then have "\<exists>t \<in> ?f ` set (tasks_of ts (w_id w)). t_status t = Failed"
    using r_in by blast
  moreover have "terminal_task (t_status (?f t))" if "t \<in> set (tasks_of ts (w_id w))" for t
    using that True
    by (cases "t_status t") (auto simp: cancel_row_status retry_row_status tasks_of_def)
  ultimately show ?thesis
    using failed tasks_of_map [OF shape, of ts "w_id w"] by (simp add: workflow_ok_def comp_def)
next
  case False
  have keep: "t_status (cancel_row (t_workflow_execution_id r) at (retry_row request t)) = t_status t"
    if "t \<in> set (tasks_of ts (w_id w))" for t
  proof -
    have "t \<in> set ts" "t \<noteq> r" using that False by (auto simp: tasks_of_def)
    then have "t_id t \<noteq> rreq_task_execution_id request"
      using r ids same_id_same_row by metis
    then show ?thesis
      using that False by (simp add: cancel_row_status retry_row_status tasks_of_def)
  qed
  have "workflow_ok (map (\<lambda>t. cancel_row (t_workflow_execution_id r) at (retry_row request t)) ts) w"
    by (rule workflow_ok_map [OF _ _ _ ok]) (simp_all add: keep shape_cancel_row shape_retry_row)
  then show ?thesis using False by (simp add: fail_workflow_row_def comp_def)
qed

lemma exec_inv_retry_last:
  assumes inv: "exec_inv db"
    and r: "r \<in> set (task_executions db)" "t_id r = rreq_task_execution_id request"
      "t_status r = Running" "t_remaining_tries r = 1"
  shows "exec_inv (fst (retry_task request db))"
proof -
  note parts = exec_invD [OF inv]
  let ?wid = "t_workflow_execution_id r" and ?at = "rreq_completed_at request"
  let ?ts = "map (cancel_row ?wid ?at) (map (retry_row request) (task_executions db))"
  have "workflow_running db ?wid"
    using running_task_running_workflow parts(3) r by blast
  from retry_task_last [OF parts(4,5) r this]
  have eq: "fst (retry_task request db) = db\<lparr>task_executions := ?ts,
      workflow_executions := map (fail_workflow_row ?wid ?at) (workflow_executions db)\<rparr>"
    by simp
  have "graph_ok ?ts"
    by (intro graph_ok_map [OF shape_cancel_row] graph_ok_map [OF shape_retry_row] parts(1))
  moreover have "progress_ok ?ts"
    by (intro progress_ok_cancel progress_ok_retry parts(2))
  moreover have "workflow_ok ?ts (fail_workflow_row ?wid ?at w)"
    if "w \<in> set (workflow_executions db)" for w
    using failed_workflow_ok [OF r parts(4)] parts(3) that by (simp add: workflows_ok_def)
  moreover have "\<forall>t \<in> set ?ts. t_workflow_execution_id t \<in> w_id ` set (workflow_executions db)"
    using parts(3) by (simp add: workflows_ok_def)
  ultimately show ?thesis
    using parts(5) by (simp add: eq exec_inv_def workflows_ok_def comp_def image_image)
qed

lemma exec_inv_retry:
  assumes inv: "exec_inv db"
  shows "exec_inv (fst (retry_task request db))"
proof (cases "\<exists>r \<in> set (task_executions db). t_id r = rreq_task_execution_id request
    \<and> t_status r = Running \<and> t_remaining_tries r > 0")
  case True
  then obtain r where r: "r \<in> set (task_executions db)" "t_id r = rreq_task_execution_id request"
    "t_status r = Running" "t_remaining_tries r > 0" by blast
  show ?thesis
  proof (cases "t_remaining_tries r = 1")
    case True
    then show ?thesis using exec_inv_retry_last [OF inv r(1-3)] by blast
  next
    case False
    then show ?thesis using exec_inv_retry_again [OF inv r(1-3)] r(4) by simp
  qed
next
  case False
  then have "retry_task request db =
      (db, Inr \<lparr>rres_should_retry = False, rres_workflow_failed = False\<rparr>)"
    by (intro retry_task_inactive) force
  with inv show ?thesis by simp
qed

section \<open>Adding an execution\<close>

lemma completed_append:
  "completed (ts @ us) p \<longleftrightarrow> completed ts p \<or> completed us p"
  by (auto simp: completed_def)

lemma mirrored_append:
  "mirrored ts t \<or> mirrored us t \<Longrightarrow> mirrored (ts @ us) t"
  unfolding mirrored_def set_append by (meson UnI1 UnI2)

lemma mirrored_parents_in:
  "mirrored ts t \<Longrightarrow> p \<in> set (t_parent_task_ids t) \<Longrightarrow> p \<in> t_id ` set ts"
  by (auto simp: mirrored_def)

lemma completed_in_ids: "completed ts p \<Longrightarrow> p \<in> t_id ` set ts"
  by (auto simp: completed_def)

lemma row_ok_append:
  assumes "mirrored ts t" "t_id ` set ts \<inter> t_id ` set us = {}"
  shows "row_ok (ts @ us) t = row_ok ts t" "row_ok (us @ ts) t = row_ok ts t"
proof -
  have *: "completed us p \<longleftrightarrow> False" if "p \<in> set (t_parent_task_ids t)" for p
    using mirrored_parents_in [OF assms(1) that] completed_in_ids [of us p] assms(2) by auto
  have "open_parents (ts @ us) t = open_parents ts t" "open_parents (us @ ts) t = open_parents ts t"
    unfolding open_parents_def completed_append by (auto intro!: filter_cong simp: *)
  then show "row_ok (ts @ us) t = row_ok ts t" "row_ok (us @ ts) t = row_ok ts t"
    by (cases "t_status t"; simp add: row_ok_def ready_iff_no_open)+
qed

lemma progress_ok_append:
  assumes "graph_ok ts" "graph_ok us" "t_id ` set ts \<inter> t_id ` set us = {}"
    and "progress_ok ts" "progress_ok us"
  shows "progress_ok (ts @ us)"
proof -
  have "t_id ` set us \<inter> t_id ` set ts = {}" using assms(3) by blast
  then show ?thesis
    using assms row_ok_append(1) [of ts _ us] row_ok_append(2) [of us _ ts]
    by (auto simp: progress_ok_def graph_ok_def)
qed

lemma acyclic_graph_append:
  assumes "\<forall>t \<in> set ts. mirrored ts t" "\<forall>t \<in> set us. mirrored us t"
    and disjoint: "t_id ` set ts \<inter> t_id ` set us = {}"
    and "acyclic_graph ts" "acyclic_graph us"
  shows "acyclic_graph (ts @ us)"
proof -
  obtain f g :: "uuid \<Rightarrow> nat"
    where f: "\<forall>t \<in> set ts. \<forall>p \<in> set (t_parent_task_ids t). f p < f (t_id t)"
      and g: "\<forall>t \<in> set us. \<forall>p \<in> set (t_parent_task_ids t). g p < g (t_id t)"
    using assms(4,5) by (auto simp: acyclic_graph_def)
  define rank where "rank p = (if p \<in> t_id ` set ts then f p else g p)" for p
  have "rank p < rank (t_id t)" if "t \<in> set (ts @ us)" "p \<in> set (t_parent_task_ids t)" for t p
  proof (cases "t \<in> set ts")
    case True
    then have "p \<in> t_id ` set ts" using assms(1) that(2) mirrored_parents_in by blast
    with True f that(2) show ?thesis by (simp add: rank_def)
  next
    case False
    then have t: "t \<in> set us" using that(1) by simp
    then have "p \<in> t_id ` set us" using assms(2) that(2) mirrored_parents_in by blast
    then have "p \<notin> t_id ` set ts" "t_id t \<notin> t_id ` set ts" using disjoint t by auto
    with g t that(2) show ?thesis by (simp add: rank_def)
  qed
  then show ?thesis unfolding acyclic_graph_def by blast
qed

lemma graph_ok_append:
  assumes ok: "graph_ok ts" "graph_ok us"
    and disjoint: "t_id ` set ts \<inter> t_id ` set us = {}"
    and workflows: "t_workflow_execution_id ` set ts \<inter> t_workflow_execution_id ` set us = {}"
  shows "graph_ok (ts @ us)"
proof -
  have "unique_keys (ts @ us)"
    using ok workflows by (auto simp: graph_ok_def unique_keys_def)
  moreover have "acyclic_graph (ts @ us)"
    using ok disjoint acyclic_graph_append by (simp add: graph_ok_def)
  moreover have "\<forall>t \<in> set (ts @ us). mirrored (ts @ us) t"
    using ok mirrored_append by (auto simp: graph_ok_def)
  ultimately show ?thesis
    using ok disjoint by (simp add: graph_ok_def)
qed

text \<open>A fresh execution: its rows satisfy the invariant on their own and use new identifiers.\<close>

definition new_execution :: "database \<Rightarrow> workflow_row \<Rightarrow> task_row list \<Rightarrow> bool" where
  "new_execution db w us \<longleftrightarrow>
     w_id w \<notin> w_id ` set (workflow_executions db) \<and> w_status w = WfRunning
     \<and> us \<noteq> [] \<and> (\<forall>t \<in> set us. t_workflow_execution_id t = w_id w \<and> t_status t = Pending)
     \<and> t_id ` set (task_executions db) \<inter> t_id ` set us = {}
     \<and> graph_ok us \<and> progress_ok us"

lemma workflow_ok_append:
  assumes "\<forall>t \<in> set us. t_workflow_execution_id t \<noteq> w_id w"
  shows "workflow_ok (ts @ us) w = workflow_ok ts w" "workflow_ok (us @ ts) w = workflow_ok ts w"
proof -
  have "tasks_of us (w_id w) = []" using assms by (simp add: tasks_of_def filter_empty_conv)
  then have "tasks_of (ts @ us) (w_id w) = tasks_of ts (w_id w)"
    "tasks_of (us @ ts) (w_id w) = tasks_of ts (w_id w)"
    by (simp_all add: tasks_of_def)
  then show "workflow_ok (ts @ us) w = workflow_ok ts w" "workflow_ok (us @ ts) w = workflow_ok ts w"
    by (cases "w_status w"; simp add: workflow_ok_def)+
qed

lemma exec_inv_create:
  assumes inv: "exec_inv db" and new: "new_execution db w us"
  shows "exec_inv (db\<lparr>workflow_executions := workflow_executions db @ [w],
                      task_executions := task_executions db @ us\<rparr>)"
proof -
  note parts = exec_invD [OF inv]
  let ?ts = "task_executions db" and ?ws = "workflow_executions db"
  have owners: "\<forall>t \<in> set ?ts. t_workflow_execution_id t \<in> w_id ` set ?ws"
    using parts(3) by (simp add: workflows_ok_def)
  have new_wf: "\<forall>t \<in> set ?ts. t_workflow_execution_id t \<noteq> w_id w"
    using owners new unfolding new_execution_def by metis
  have "t_workflow_execution_id ` set ?ts \<inter> t_workflow_execution_id ` set us = {}"
    using new_wf new by (auto simp: new_execution_def)
  then have graph: "graph_ok (?ts @ us)"
    using new parts(1) by (intro graph_ok_append) (auto simp: new_execution_def)
  have progress: "progress_ok (?ts @ us)"
    using new parts(1,2) by (intro progress_ok_append) (auto simp: new_execution_def)
  have old: "workflow_ok (?ts @ us) v" if "v \<in> set ?ws" for v
  proof -
    have "w_id v \<noteq> w_id w" using new that unfolding new_execution_def by (metis imageI)
    then have "\<forall>t \<in> set us. t_workflow_execution_id t \<noteq> w_id v"
      using new by (auto simp: new_execution_def)
    then show ?thesis
      using parts(3) that by (simp add: workflow_ok_append workflows_ok_def)
  qed
  have "tasks_of us (w_id w) = us"
    using new by (simp add: tasks_of_def new_execution_def filter_id_conv)
  then have "workflow_ok us w"
    using new by (cases us) (auto simp: workflow_ok_def new_execution_def)
  then have this_wf: "workflow_ok (?ts @ us) w"
    using new_wf by (simp add: workflow_ok_append)
  show ?thesis
    using graph progress old this_wf owners parts(5) new
    by (auto simp: exec_inv_def workflows_ok_def new_execution_def)
qed

section \<open>Outputs of the parents\<close>

lemma collect_parent_outputs_eq:
  "(\<And>p. p \<in> set ps \<Longrightarrow> t_output p \<noteq> None) \<Longrightarrow>
   collect_parent_outputs ps outs =
     Inr (fold (\<lambda>(k, v) d. AList.update k v d)
            (map (\<lambda>p. (t_key p, \<lparr>output_values = the (t_output p)\<rparr>)) ps) outs)"
proof (induction ps arbitrary: outs)
  case Nil
  then show ?case by simp
next
  case (Cons p ps)
  obtain vs where "t_output p = Some vs" using Cons.prems [of p] by auto
  with Cons show ?case by (simp add: output_to_domain_def)
qed

lemma distinct_map_same_workflow:
  "unique_keys ts \<Longrightarrow> distinct (map t_key (filter P (tasks_of ts wid)))"
proof (induction ts)
  case Nil
  then show ?case by (simp add: tasks_of_def)
next
  case (Cons t ts)
  then show ?case by (auto simp: unique_keys_def tasks_of_def image_iff)
qed

text \<open>
  The outputs handed to a ready task: exactly one entry per parent, under the parent's key, with
  the values the parent stored. No \<open>RuntimeError\<close> is raised.
\<close>

definition parent_rows :: "task_row list \<Rightarrow> task_row \<Rightarrow> task_row list" where
  "parent_rows ts t = select_where (\<lambda>u. t_id u \<in> set (t_parent_task_ids t)) ts"

lemma parent_rows_in_workflow:
  assumes "graph_ok ts" "t \<in> set ts" "u \<in> set (parent_rows ts t)"
  shows "t_workflow_execution_id u = t_workflow_execution_id t"
  using assms unfolding parent_rows_def graph_ok_def mirrored_def set_select_where
  by (metis (mono_tags, lifting) mem_Collect_eq same_id_same_row)

lemma distinct_parent_keys:
  assumes "graph_ok ts" "t \<in> set ts"
  shows "distinct (map t_key (parent_rows ts t))"
proof -
  have "parent_rows ts t =
      filter (\<lambda>u. t_id u \<in> set (t_parent_task_ids t)) (tasks_of ts (t_workflow_execution_id t))"
    using parent_rows_in_workflow [OF assms]
    by (auto simp: parent_rows_def select_where_def tasks_of_def intro!: filter_cong)
  then show ?thesis
    using assms(1) distinct_map_same_workflow by (simp add: graph_ok_def)
qed

lemma load_parent_outputs_ready:
  assumes graph: "graph_ok (task_executions db)" and ok: "progress_ok (task_executions db)"
    and t: "t \<in> set (task_executions db)" "ready (task_executions db) t"
  shows "load_parent_outputs (t_parent_task_ids t) db =
     Inr (map (\<lambda>p. (t_key p, \<lparr>output_values = the (t_output p)\<rparr>))
            (parent_rows (task_executions db) t))"
proof (cases "t_parent_task_ids t = []")
  case True
  then show ?thesis by (simp add: load_parent_outputs_def parent_rows_def select_where_def)
next
  case False
  let ?ps = "parent_rows (task_executions db) t"
  have outputs: "t_output p \<noteq> None" if "p \<in> set ?ps" for p
  proof -
    have p: "p \<in> set (task_executions db)" "completed (task_executions db) (t_id p)"
      using that t(2) by (auto simp: parent_rows_def ready_def)
    then have "t_status p = Completed"
      using graph completed_iff_status by (simp add: graph_ok_def)
    then show ?thesis using ok p(1) by (auto simp: progress_ok_def row_ok_def)
  qed
  have "collect_parent_outputs ?ps [] =
      Inr (dict_of (map (\<lambda>p. (t_key p, \<lparr>output_values = the (t_output p)\<rparr>)) ?ps))"
    using outputs by (simp add: collect_parent_outputs_eq dict_of_def)
  also have "\<dots> = Inr (map (\<lambda>p. (t_key p, \<lparr>output_values = the (t_output p)\<rparr>)) ?ps)"
    using distinct_parent_keys [OF graph t(1)] by (simp add: comp_def)
  finally show ?thesis
    using False by (simp add: load_parent_outputs_def parent_rows_def)
qed

section \<open>What no transition undoes\<close>

text \<open>
  A row rewritten by any transition keeps its shape, a finished row is never changed again, a
  started task never becomes pending again, and a counter never grows.
\<close>

definition row_advances :: "task_row \<Rightarrow> task_row \<Rightarrow> bool" where
  "row_advances t u \<longleftrightarrow>
     task_shape u = task_shape t \<and> (terminal_task (t_status t) \<longrightarrow> u = t)
     \<and> (t_status u = Pending \<longrightarrow> t_status t = Pending)
     \<and> (t_remaining_dependencies t = 0 \<longrightarrow> t_remaining_dependencies u = 0)"

lemma row_advances_refl [simp]: "row_advances t t"
  by (simp add: row_advances_def)

lemma row_advances_trans: "row_advances t u \<Longrightarrow> row_advances u v \<Longrightarrow> row_advances t v"
  unfolding row_advances_def by metis

lemma row_advances_rows:
  "row_advances t (start_row tid now t)"
  "row_advances t (complete_row creq t)"
  "row_advances t (release_row cs t)"
  "row_advances t (retry_row rreq t)"
  "row_advances t (cancel_row wid at t)"
  by (auto simp: row_advances_def shape_start_row shape_complete_row shape_release_row
      shape_retry_row shape_cancel_row)
    (auto simp: start_row_def complete_row_def release_row_def retry_row_def cancel_row_def
       split: if_splits)

definition table_advances :: "task_row list \<Rightarrow> task_row list \<Rightarrow> bool" where
  "table_advances ts us \<longleftrightarrow> (\<forall>t \<in> set ts. \<exists>u \<in> set us. row_advances t u)"

lemma table_advances_map: "(\<And>t. row_advances t (f t)) \<Longrightarrow> table_advances ts (map f ts)"
  by (auto simp: table_advances_def)

lemma table_advances_refl [simp]: "table_advances ts ts"
  by (auto simp: table_advances_def intro: row_advances_refl)

lemma table_advances_trans:
  "table_advances ts us \<Longrightarrow> table_advances us vs \<Longrightarrow> table_advances ts vs"
  unfolding table_advances_def by (meson row_advances_trans)

lemma table_advances_append: "table_advances ts (ts @ us)"
  by (auto simp: table_advances_def intro!: bexI row_advances_refl)

end
