(* ===== verification/Python_Numbers.thy ===== *)
theory Python_Numbers
  imports Prelude
begin

text \<open>
  The parts of Python's numbers the program uses: \<open>int\<close> and \<open>float\<close> of a string, binary64
  arithmetic with round-half-even, comparisons with infinities and NaN, \<open>str.strip\<close>, and
  \<open>timedelta(seconds=...)\<close> of a float as CPython computes it.
\<close>

section \<open>Binary64\<close>

text \<open>\<open>Finite m e\<close> is the number \<open>m * 2^e\<close>; \<open>Infinity True\<close> is negative infinity.\<close>

datatype py_float = Finite int int | Infinity bool | NaN

function bit_length :: "int \<Rightarrow> int" where
  "bit_length n = (if n \<le> 0 then 0 else bit_length (n div 2) + 1)"
  by pat_completeness auto
termination
  by (relation "measure nat") auto

declare bit_length.simps [simp del]

text \<open>The largest \<open>k\<close> with \<open>2^k \<le> num / den\<close>.\<close>

definition ratio_exponent :: "int \<Rightarrow> int \<Rightarrow> int" where
  "ratio_exponent num den =
     (let k = bit_length num - bit_length den
      in if (if k \<ge> 0 then den * 2 ^ nat k \<le> num else den \<le> num * 2 ^ nat (- k)) then k else k - 1)"

definition half_even :: "int \<Rightarrow> int \<Rightarrow> int" where
  "half_even num den =
     (let q = num div den; r = num mod den
      in if 2 * r < den \<or> 2 * r = den \<and> even q then q else q + 1)"

definition signed :: "bool \<Rightarrow> int \<Rightarrow> int" where
  "signed negative n = (if negative then - n else n)"

text \<open>The binary64 number nearest to \<open>num / den\<close>, with gradual underflow and overflow to infinity.\<close>

definition binary64 :: "bool \<Rightarrow> int \<Rightarrow> int \<Rightarrow> py_float" where
  "binary64 negative num den =
     (if num = 0 then Finite 0 0
      else
        let e = max (ratio_exponent num den - 52) (- 1074);
            m = (if e \<ge> 0 then half_even num (den * 2 ^ nat e) else half_even (num * 2 ^ nat (- e)) den)
        in if e > 971 \<or> e = 971 \<and> m \<ge> 2 ^ 53 then Infinity negative else Finite (signed negative m) e)"

definition times_float :: "int \<Rightarrow> py_float \<Rightarrow> py_float" where
  "times_float k x =
     (case x of
        Finite m e \<Rightarrow>
          (let n = k * \<bar>m\<bar>
           in if e \<ge> 0 then binary64 (m < 0) (n * 2 ^ nat e) 1 else binary64 (m < 0) n (2 ^ nat (- e)))
      | Infinity negative \<Rightarrow> Infinity negative
      | NaN \<Rightarrow> NaN)"

definition positive_float :: "py_float \<Rightarrow> bool" where
  "positive_float x = (case x of Finite m e \<Rightarrow> m > 0 | Infinity negative \<Rightarrow> \<not> negative | NaN \<Rightarrow> False)"

fun less_float :: "py_float \<Rightarrow> py_float \<Rightarrow> bool" where
  "less_float (Finite m e) (Finite n f) =
     (let d = min e f in m * 2 ^ nat (e - d) < n * 2 ^ nat (f - d))"
| "less_float (Finite m e) (Infinity negative) = (\<not> negative)"
| "less_float (Infinity negative) (Finite n f) = negative"
| "less_float (Infinity a) (Infinity b) = (a \<and> \<not> b)"
| "less_float NaN y = False"
| "less_float x NaN = False"

section \<open>timedelta\<close>

definition microseconds_per_second :: int where
  "microseconds_per_second = 1000000"

definition timedelta_ok :: "timedelta \<Rightarrow> bool" where
  "timedelta_ok d \<longleftrightarrow> - 999999999 \<le> d div (86400 * 1000000) \<and> d div (86400 * 1000000) \<le> 999999999"

definition checked_timedelta :: "int \<Rightarrow> timedelta result" where
  "checked_timedelta d = (if timedelta_ok d then Inr d else Inl OverflowError)"

text \<open>
  Whole seconds are exact; the fraction times a million is rounded to a float, and the result to
  whole microseconds, half to even.
\<close>

definition split_float :: "int \<Rightarrow> int \<Rightarrow> int \<times> int \<times> int" where
  "split_float m e =
     (if e \<ge> 0 then (m * 2 ^ nat e, 0, 1) else (m div 2 ^ nat (- e), m mod 2 ^ nat (- e), 2 ^ nat (- e)))"

definition float_microseconds :: "int \<Rightarrow> int \<Rightarrow> int" where
  "float_microseconds m e =
     (case split_float m e of (seconds, num, den) \<Rightarrow>
        (case binary64 False (1000000 * num) den of
           Finite m' e' \<Rightarrow>
             (case split_float m' e' of (micros, num', den') \<Rightarrow>
                half_even ((seconds * 1000000 + micros) * den' + num') den')
         | _ \<Rightarrow> 0))"

definition float_seconds :: "py_float \<Rightarrow> timedelta result" where
  "float_seconds x =
     (case x of
        Finite m e \<Rightarrow> checked_timedelta (signed (m < 0) (float_microseconds \<bar>m\<bar> e))
      | Infinity negative \<Rightarrow> Inl OverflowError
      | NaN \<Rightarrow> Inl ValueError)"

section \<open>Strings and numbers\<close>

definition is_space :: "char \<Rightarrow> bool" where
  "is_space c \<longleftrightarrow> (let n = (of_char c :: nat) in (9 \<le> n \<and> n \<le> 13) \<or> (28 \<le> n \<and> n \<le> 32) \<or> n = 133 \<or> n = 160)"

text \<open>\<open>str.strip\<close>.\<close>

definition strip :: "string \<Rightarrow> string" where
  "strip s = rev (dropWhile is_space (rev (dropWhile is_space s)))"

definition is_digit :: "char \<Rightarrow> bool" where
  "is_digit c \<longleftrightarrow> (let n = (of_char c :: nat) in 48 \<le> n \<and> n \<le> 57)"

definition lower :: "string \<Rightarrow> string" where
  "lower s = map (\<lambda>c. let n = (of_char c :: nat) in if 65 \<le> n \<and> n \<le> 90 then char_of (n + 32) else c) s"

definition digits_value :: "string \<Rightarrow> int" where
  "digits_value s = foldl (\<lambda>v c. 10 * v + (of_char c - 48)) 0 s"

text \<open>Underscores are allowed between two digits.\<close>

fun underscores_ok :: "bool \<Rightarrow> string \<Rightarrow> bool" where
  "underscores_ok after_digit [] = True"
| "underscores_ok after_digit (c # cs) =
     (if c = CHR ''_'' then after_digit \<and> (case cs of [] \<Rightarrow> False | d # ds \<Rightarrow> is_digit d) \<and> underscores_ok False cs
      else underscores_ok (is_digit c) cs)"

definition without_underscores :: "string \<Rightarrow> string option" where
  "without_underscores s = (if underscores_ok False s then Some (filter (\<lambda>c. c \<noteq> CHR ''_'') s) else None)"

definition split_sign :: "string \<Rightarrow> bool \<times> string" where
  "split_sign s =
     (case s of
        c # cs \<Rightarrow> if c = CHR ''-'' then (True, cs) else if c = CHR ''+'' then (False, cs) else (False, s)
      | [] \<Rightarrow> (False, s))"

text \<open>\<open>int(s)\<close>; \<open>None\<close> is \<open>ValueError\<close>. Strings of more than 4300 digits are refused.\<close>

definition int_of_string :: "string \<Rightarrow> int option" where
  "int_of_string s =
     (case split_sign (strip s) of (negative, body) \<Rightarrow>
        (case without_underscores body of
           None \<Rightarrow> None
         | Some digits \<Rightarrow>
             if digits \<noteq> [] \<and> list_all is_digit digits \<and> length digits \<le> 4300
             then Some (signed negative (digits_value digits)) else None))"

text \<open>\<open>float(s)\<close>: the decimal number, rounded once; \<open>None\<close> is \<open>ValueError\<close>.\<close>

definition parse_exponent :: "string \<Rightarrow> int option" where
  "parse_exponent s =
     (case s of
        [] \<Rightarrow> Some 0
      | c # cs \<Rightarrow>
          if c = CHR ''e'' \<or> c = CHR ''E''
          then (case split_sign cs of (negative, digits) \<Rightarrow>
                  if digits \<noteq> [] \<and> list_all is_digit digits
                  then Some (signed negative (digits_value digits)) else None)
          else None)"

definition decimal_float :: "bool \<Rightarrow> int \<Rightarrow> int \<Rightarrow> py_float" where
  "decimal_float negative n k =
     (if k \<ge> 0 then binary64 negative (n * 10 ^ nat k) 1 else binary64 negative n (10 ^ nat (- k)))"

definition parse_decimal :: "bool \<Rightarrow> string \<Rightarrow> py_float option" where
  "parse_decimal negative s =
     (let whole = takeWhile is_digit s; rest = dropWhile is_digit s;
          fractional = (case rest of c # cs \<Rightarrow> c = CHR ''.'' | [] \<Rightarrow> False);
          fraction = (if fractional then takeWhile is_digit (tl rest) else []);
          tail = (if fractional then dropWhile is_digit (tl rest) else rest)
      in if whole @ fraction = [] then None
         else map_option (\<lambda>k. decimal_float negative (digits_value (whole @ fraction)) (k - int (length fraction)))
                (parse_exponent tail))"

definition float_of_string :: "string \<Rightarrow> py_float option" where
  "float_of_string s =
     (case split_sign (strip s) of (negative, body) \<Rightarrow>
        if lower body = ''inf'' \<or> lower body = ''infinity'' then Some (Infinity negative)
        else if lower body = ''nan'' then Some NaN
        else (case without_underscores body of None \<Rightarrow> None | Some t \<Rightarrow> parse_decimal negative t))"

end
