(* ===== verification/Python_Strings.thy ===== *)
theory Python_Strings
  imports Prelude "HOL-Library.List_Lexorder" "HOL-Library.Char_ord"
begin

text \<open>
  Python's textual forms as the messages of the program use them: \<open>str\<close> of an integer, \<open>repr\<close> of a
  string, and \<open>sorted\<close> of a set of strings, printed as a list. Strings are ordered by code points.
\<close>

section \<open>Numbers\<close>

definition digit_char :: "nat \<Rightarrow> char" where
  "digit_char n = (if n < 10 then char_of (48 + n) else char_of (87 + n))"

fun nat_str :: "nat \<Rightarrow> string" where
  "nat_str n = (if n < 10 then [digit_char n] else nat_str (n div 10) @ [digit_char (n mod 10)])"

declare nat_str.simps [simp del]

definition int_str :: "int \<Rightarrow> string" where
  "int_str i = (if i < 0 then ''-'' @ nat_str (nat (- i)) else nat_str (nat i))"

fun hex_str :: "nat \<Rightarrow> nat \<Rightarrow> string" where
  "hex_str 0 n = []"
| "hex_str (Suc k) n = hex_str k (n div 16) @ [digit_char (n mod 16)]"

section \<open>Strings\<close>

text \<open>\<open>repr\<close> of a string (\<open>{key!r}\<close>), on code points below 256.\<close>

definition printable :: "nat \<Rightarrow> bool" where
  "printable n \<longleftrightarrow> 32 \<le> n \<and> n < 127 \<or> 161 \<le> n \<and> n \<noteq> 173"

definition repr_char :: "nat \<Rightarrow> char \<Rightarrow> string" where
  "repr_char quote c =
     (let n = of_char c :: nat in
      if n = quote \<or> n = 92 then [char_of (92 :: nat), c]
      else if n = 10 then [char_of (92 :: nat), CHR ''n'']
      else if n = 13 then [char_of (92 :: nat), CHR ''r'']
      else if n = 9 then [char_of (92 :: nat), CHR ''t'']
      else if printable n then [c]
      else [char_of (92 :: nat), CHR ''x''] @ hex_str 2 n)"

definition repr :: "string \<Rightarrow> string" where
  "repr s =
     (let codes = map of_char s :: nat list;
          quote = (if 39 \<in> set codes \<and> 34 \<notin> set codes then 34 else 39 :: nat)
      in [char_of quote] @ concat (map (repr_char quote) s) @ [char_of quote])"

text \<open>\<open>f"{sorted(keys)}"\<close> of a set of strings, given by its elements.\<close>

fun join :: "string \<Rightarrow> string list \<Rightarrow> string" where
  "join sep [] = []"
| "join sep [s] = s"
| "join sep (s # t # rest) = s @ sep @ join sep (t # rest)"

definition sorted_keys :: "string list \<Rightarrow> string" where
  "sorted_keys keys = ''['' @ join '', '' (map repr (sort (remdups keys))) @ '']''"

end
