(* ===== verification/Plugins.thy ===== *)
theory Plugins
  imports Domain Python_Numbers Python_Strings
begin

text \<open>
  Plugins (\<open>plugins/\<close>): plugin classes and their interfaces, the registry keyed by \<open>plugin_type\<close>, the task plugins shipped with the platform
  (\<open>produce_value\<close>, \<open>collect_inputs\<close>, \<open>fail\<close>) and the interval trigger with its date arithmetic.
\<close>

section \<open>Plugin classes\<close>

text \<open>
  A plugin class: its name, its \<open>plugin_type\<close> and its \<open>validate_configuration\<close>. A task class
  adds \<open>execute\<close>. A trigger class adds \<open>next_occurrence\<close> when it is a \<open>ChronologicalTrigger\<close>,
  and \<open>None\<close> when it is a trigger of some other mechanism.
\<close>

record plugin =
  pl_name :: string
  pl_type :: string
  pl_validate :: "json_object \<Rightarrow> unit result"

record task_plugin = plugin +
  pl_execute :: "task_context \<Rightarrow> task_result result"

record trigger_plugin = plugin +
  pl_next_occurrence :: "(json_object \<Rightarrow> datetime \<Rightarrow> datetime option result) option"

section \<open>Registry\<close>

type_synonym 'p registry = "(string \<times> 'p plugin_scheme) list"

definition register :: "'p plugin_scheme \<Rightarrow> 'p registry \<Rightarrow> 'p registry result" where
  "register implementation implementations =
     (let plugin_type = pl_type implementation in
      if strip plugin_type = [] then Inl ValueError
      else if plugin_type \<in> fst ` set implementations then Inl ValueError
      else Inr (AList.update plugin_type implementation implementations))"

text \<open>Registering a list of plugins, stopping at the first exception.\<close>

fun build_registry :: "'p plugin_scheme list \<Rightarrow> 'p registry \<Rightarrow> 'p registry result" where
  "build_registry [] implementations = Inr implementations"
| "build_registry (p # ps) implementations =
     bind_result (register p implementations) (build_registry ps)"

definition registry_get :: "'p registry \<Rightarrow> string \<Rightarrow> 'p plugin_scheme result" where
  "registry_get implementations plugin_type =
     (case map_of implementations plugin_type of None \<Rightarrow> Inl KeyError | Some p \<Rightarrow> Inr p)"

definition registry_contains :: "'p registry \<Rightarrow> string \<Rightarrow> bool" where
  "registry_contains implementations plugin_type \<longleftrightarrow> plugin_type \<in> fst ` set implementations"

definition supported_types :: "'p registry \<Rightarrow> string set" where
  "supported_types implementations = fst ` set implementations"

lemma registry_get_iff_contains:
  "(\<exists>p. registry_get reg ty = Inr p) \<longleftrightarrow> registry_contains reg ty"
  by (auto simp: registry_get_def registry_contains_def map_of_eq_None_iff split: option.splits)
    (metis map_of_eq_None_iff option.distinct(1))

text \<open>A registry maps each type to a class that declares that very type.\<close>

definition registry_ok :: "'p registry \<Rightarrow> bool" where
  "registry_ok reg \<longleftrightarrow>
     distinct (map fst reg) \<and> (\<forall>(ty, p) \<in> set reg. pl_type p = ty \<and> strip ty \<noteq> [])"

lemma register_ok:
  "registry_ok reg \<Longrightarrow> register p reg = Inr reg' \<Longrightarrow>
   registry_ok reg' \<and> reg' = reg @ [(pl_type p, p)]"
  by (auto simp: register_def registry_ok_def Let_def update_new split: if_splits)

lemma build_registry_result:
  "registry_ok reg \<Longrightarrow> build_registry ps reg = Inr reg' \<Longrightarrow>
   registry_ok reg' \<and> reg' = reg @ map (\<lambda>p. (pl_type p, p)) ps"
proof (induction ps arbitrary: reg)
  case Nil
  then show ?case by simp
next
  case (Cons p ps)
  then obtain mid where mid: "register p reg = Inr mid" "build_registry ps mid = Inr reg'"
    by (auto simp: bind_result_eq_Inr_iff)
  then have "registry_ok mid" and eq: "mid = reg @ [(pl_type p, p)]"
    using register_ok [OF Cons.prems(1)] by blast+
  from Cons.IH [OF this(1) mid(2)] show ?case by (auto simp: eq)
qed

lemma build_registry_iff:
  "(\<exists>reg'. build_registry ps reg = Inr reg') \<longleftrightarrow>
     distinct (map pl_type ps) \<and> (\<forall>p \<in> set ps. strip (pl_type p) \<noteq> [])
     \<and> pl_type ` set ps \<inter> fst ` set reg = {}"
proof (induction ps arbitrary: reg)
  case Nil
  then show ?case by simp
next
  case (Cons p ps)
  show ?case
  proof (cases "strip (pl_type p) = [] \<or> pl_type p \<in> fst ` set reg")
    case True
    then show ?thesis by (auto simp: register_def Let_def bind_result_def)
  next
    case False
    then have "register p reg = Inr (AList.update (pl_type p) p reg)" by (simp add: register_def Let_def)
    moreover have "fst ` set (AList.update (pl_type p) p reg) = insert (pl_type p) (fst ` set reg)"
      by (simp add: dom_update)
    ultimately have "(\<exists>reg'. build_registry (p # ps) reg = Inr reg') \<longleftrightarrow>
        distinct (map pl_type ps) \<and> (\<forall>p \<in> set ps. strip (pl_type p) \<noteq> [])
        \<and> pl_type ` set ps \<inter> insert (pl_type p) (fst ` set reg) = {}"
      using Cons.IH [of "AList.update (pl_type p) p reg"] by (simp add: bind_result_def)
    then show ?thesis using False by auto
  qed
qed

text \<open>
  Building a registry from a list of plugins succeeds exactly when their \<open>plugin_type\<close>s are distinct
  and none is blank; then each type is found, and leads to the plugin that declares it, and no
  other type is known.
\<close>

lemma registry_finds_plugins:
  "case build_registry ps [] of
     Inl e \<Rightarrow> \<not> (distinct (map pl_type ps) \<and> (\<forall>p \<in> set ps. strip (pl_type p) \<noteq> []))
   | Inr reg \<Rightarrow> distinct (map pl_type ps) \<and> (\<forall>p \<in> set ps. strip (pl_type p) \<noteq> [])
       \<and> (\<forall>ty p. registry_get reg ty = Inr p \<longleftrightarrow> p \<in> set ps \<and> pl_type p = ty)"
proof (cases "build_registry ps []")
  case (Inl e)
  then show ?thesis using build_registry_iff [of ps "[]"] by auto
next
  case (Inr reg)
  have "registry_ok ([] :: 'a registry)" by (simp add: registry_ok_def)
  from build_registry_result [OF this Inr] have reg: "reg = map (\<lambda>p. (pl_type p, p)) ps" by simp
  have ok: "distinct (map pl_type ps) \<and> (\<forall>p \<in> set ps. strip (pl_type p) \<noteq> [])"
    using build_registry_iff [of ps "[]"] Inr by auto
  have d: "distinct (map fst reg)" using ok by (simp add: reg comp_def)
  have "registry_get reg ty = Inr p \<longleftrightarrow> map_of reg ty = Some p" for ty p
    by (auto simp: registry_get_def split: option.splits)
  then have "registry_get reg ty = Inr p \<longleftrightarrow> (ty, p) \<in> set reg" for ty p
    using map_of_eq_Some_iff [OF d] by simp
  moreover have "(ty, p) \<in> set reg \<longleftrightarrow> p \<in> set ps \<and> pl_type p = ty" for ty p
    by (auto simp: reg)
  ultimately show ?thesis using ok Inr by simp
qed

section \<open>Task plugins of the platform\<close>

definition produce_value_validate :: "json_object \<Rightarrow> unit result" where
  "produce_value_validate configuration =
     (if ''value'' \<notin> fst ` set configuration
      then Inl (InvalidPluginConfigurationError ''ProduceValueTask configuration requires 'value'.'')
      else if fst ` set configuration - {''value''} \<noteq> {}
      then Inl (InvalidPluginConfigurationError
                  (''ProduceValueTask configuration contains unexpected fields: ''
                   @ sorted_keys (filter (\<lambda>k. k \<noteq> ''value'') (map fst configuration)) @ ''.''))
      else Inr ())"

definition produce_value_execute :: "task_context \<Rightarrow> task_result result" where
  "produce_value_execute context =
     (let v = (case map_of (context_configuration context) ''value'' of
                 None \<Rightarrow> JNull | Some v \<Rightarrow> v)
      in Inr \<lparr>result_succeeded = True, result_output = \<lparr>output_values = [(''value'', v)]\<rparr>,
              result_message = None\<rparr>)"

definition collect_inputs_validate :: "json_object \<Rightarrow> unit result" where
  "collect_inputs_validate configuration =
     (if configuration \<noteq> []
      then Inl (InvalidPluginConfigurationError
                  (''CollectInputsTask does not accept configuration fields: ''
                   @ sorted_keys (map fst configuration) @ ''.''))
      else Inr ())"

definition collect_inputs_execute :: "task_context \<Rightarrow> task_result result" where
  "collect_inputs_execute context =
     (let vs = dict_of (map (\<lambda>(task_key, out). (task_key, JObj (output_values out)))
                          (context_inputs context))
      in Inr \<lparr>result_succeeded = True, result_output = \<lparr>output_values = vs\<rparr>,
              result_message = None\<rparr>)"

definition is_string :: "json \<Rightarrow> bool" where
  "is_string v = (case v of JStr _ \<Rightarrow> True | _ \<Rightarrow> False)"

definition fail_validate :: "json_object \<Rightarrow> unit result" where
  "fail_validate configuration =
     (if fst ` set configuration - {''message''} \<noteq> {}
      then Inl (InvalidPluginConfigurationError
                  (''FailTask configuration contains unexpected fields: ''
                   @ sorted_keys (filter (\<lambda>k. k \<noteq> ''message'') (map fst configuration)) @ ''.''))
      else case map_of configuration ''message'' of
             None \<Rightarrow> Inr ()
           | Some v \<Rightarrow>
               if \<not> is_string v
               then Inl (InvalidPluginConfigurationError
                           ''FailTask configuration field 'message' must be a string.'')
               else Inr ())"

text \<open>
  The message is used as it is configured. A value that is no string cannot be stored in the
  \<open>error_message\<close> column; validation excludes it, and here it is a \<open>TypeError\<close>.
\<close>

definition fail_execute :: "task_context \<Rightarrow> task_result result" where
  "fail_execute context =
     (let failed = (\<lambda>message. Inr \<lparr>result_succeeded = False, result_output = \<lparr>output_values = []\<rparr>,
                                  result_message = message\<rparr>)
      in case map_of (context_configuration context) ''message'' of
           None \<Rightarrow> failed (Some ''Task configured to fail.'')
         | Some (JStr message) \<Rightarrow> failed (Some message)
         | Some JNull \<Rightarrow> failed None
         | Some _ \<Rightarrow> Inl TypeError)"

definition produce_value_task :: task_plugin where
  "produce_value_task = \<lparr>pl_name = ''ProduceValueTask'', pl_type = ''produce_value'',
     pl_validate = produce_value_validate, pl_execute = produce_value_execute\<rparr>"

definition collect_inputs_task :: task_plugin where
  "collect_inputs_task = \<lparr>pl_name = ''CollectInputsTask'', pl_type = ''collect_inputs'',
     pl_validate = collect_inputs_validate, pl_execute = collect_inputs_execute\<rparr>"

definition fail_task :: task_plugin where
  "fail_task = \<lparr>pl_name = ''FailTask'', pl_type = ''fail'',
     pl_validate = fail_validate, pl_execute = fail_execute\<rparr>"

section \<open>The interval trigger\<close>

definition interval_validate :: "json_object \<Rightarrow> unit result" where
  "interval_validate configuration =
     (case map_of configuration ''interval_seconds'' of
        Some (JInt interval_seconds) \<Rightarrow>
          if interval_seconds \<le> 0
          then Inl (InvalidPluginConfigurationError ''interval_seconds must be greater than zero.'')
          else if fst ` set configuration \<noteq> {''interval_seconds''}
          then Inl (InvalidPluginConfigurationError
                      ''Interval trigger configuration must contain only interval_seconds.'')
          else Inr ()
      | _ \<Rightarrow> Inl (InvalidPluginConfigurationError ''interval_seconds must be an integer.''))"

text \<open>
  \<open>datetime\<close> and \<open>timedelta\<close> of the Python library, in microseconds: a \<open>timedelta\<close> has at most
  999999999 days, a \<open>datetime\<close> lies between the years 1 and 9999, and results outside are an
  \<open>OverflowError\<close>.
\<close>

definition datetime_ok :: "datetime \<Rightarrow> bool" where
  "datetime_ok t \<longleftrightarrow> - 62135596800000000 \<le> t \<and> t \<le> 253402300799999999"

definition timedelta_seconds :: "json \<Rightarrow> timedelta result" where
  "timedelta_seconds v =
     (case v of
        JInt n \<Rightarrow> checked_timedelta (n * microseconds_per_second)
      | JBool b \<Rightarrow> checked_timedelta (if b then microseconds_per_second else 0)
      | JFloat m e \<Rightarrow> float_seconds (Finite m e)
      | _ \<Rightarrow> Inl TypeError)"

definition datetime_add :: "datetime \<Rightarrow> timedelta \<Rightarrow> datetime result" where
  "datetime_add t d = (if datetime_ok (t + d) then Inr (t + d) else Inl OverflowError)"

definition interval_next_occurrence :: "json_object \<Rightarrow> datetime \<Rightarrow> datetime option result" where
  "interval_next_occurrence configuration after =
     bind_result (dict_get configuration ''interval_seconds'') (\<lambda>v.
     bind_result (timedelta_seconds v) (\<lambda>d.
     bind_result (datetime_add after d) (\<lambda>t. Inr (Some t))))"

definition interval_trigger :: trigger_plugin where
  "interval_trigger = \<lparr>pl_name = ''IntervalTrigger'', pl_type = ''interval'',
     pl_validate = interval_validate,
     pl_next_occurrence = Some interval_next_occurrence\<rparr>"

lemma interval_validate_ok_iff:
  "interval_validate configuration = Inr () \<longleftrightarrow>
     (\<exists>n. map_of configuration ''interval_seconds'' = Some (JInt n) \<and> n > 0
          \<and> fst ` set configuration = {''interval_seconds''})"
  by (auto simp: interval_validate_def split: option.splits json.splits)

lemma interval_next_valid:
  assumes "map_of configuration ''interval_seconds'' = Some (JInt n)" "0 < n"
  shows "interval_next_occurrence configuration after =
     (if n * 1000000 div 86400000000 \<le> 999999999 \<and> datetime_ok (after + n * 1000000)
      then Inr (Some (after + n * 1000000)) else Inl OverflowError)"
proof -
  have "- 999999999 \<le> n * 1000000 div 86400000000"
    using assms(2) pos_imp_zdiv_nonneg_iff [of 86400000000 "n * 1000000"] by linarith
  then show ?thesis
    using assms(1)
    by (simp add: interval_next_occurrence_def timedelta_seconds_def checked_timedelta_def timedelta_ok_def
        datetime_add_def microseconds_per_second_def)
qed

end
