(* ===== verification/Task_Processing.thy ===== *)
theory Task_Processing
  imports Execution_Invariants Plugins
begin

text \<open>
  Processing one task (\<open>application/task_processing/services.py\<close>): start or resume it in one
  transaction, run its plugin outside any transaction, and persist success or failure in another.
  The last section states what each of these transactions does to a database that satisfies
  \<open>exec_inv\<close>, in terms of rows.
\<close>

record process_result =
  pr_enqueue_task_ids :: "uuid list"
  pr_should_retry :: bool

definition no_result :: process_result where
  "no_result = \<lparr>pr_enqueue_task_ids = [], pr_should_retry = False\<rparr>"

text \<open>\<open>_start_task\<close>: without a processable task the block is left with nothing committed.\<close>

definition service_start_task :: "uuid \<Rightarrow> datetime \<Rightarrow> (database, start_result option) op" where
  "service_start_task task_execution_id now =
     with_uow (andThen (in_uow (start_task task_execution_id now)) (\<lambda>result.
       case result of
         None \<Rightarrow> ret None
       | Some r \<Rightarrow> andThen uow_commit (\<lambda>_. ret (Some r))))"

definition service_complete_task :: "uuid \<Rightarrow> task_output \<Rightarrow> datetime \<Rightarrow> (database, process_result) op" where
  "service_complete_task task_execution_id out now =
     with_uow (andThen (in_uow (complete_task \<lparr>creq_task_execution_id = task_execution_id,
                                  creq_output = out, creq_completed_at = now\<rparr>)) (\<lambda>result.
       andThen uow_commit (\<lambda>_.
         ret \<lparr>pr_enqueue_task_ids = cres_runnable_task_execution_ids result,
              pr_should_retry = False\<rparr>)))"

definition service_retry_task :: "uuid \<Rightarrow> string option \<Rightarrow> datetime \<Rightarrow> (database, process_result) op" where
  "service_retry_task task_execution_id error_message now =
     with_uow (andThen (in_uow (retry_task \<lparr>rreq_task_execution_id = task_execution_id,
                                  rreq_error_message = error_message,
                                  rreq_completed_at = now\<rparr>)) (\<lambda>result.
       andThen uow_commit (\<lambda>_.
         ret \<lparr>pr_enqueue_task_ids = [], pr_should_retry = rres_should_retry result\<rparr>)))"

text \<open>Running the plugin: look it up, build the context, call \<open>execute\<close>.\<close>

definition execute_plugin :: "(string \<times> task_plugin) list \<Rightarrow> start_result \<Rightarrow> task_result result" where
  "execute_plugin reg task =
     bind_result (registry_get reg (sres_plugin_type task)) (\<lambda>plugin.
       pl_execute plugin \<lparr>context_configuration = sres_configuration task,
                          context_inputs = sres_parent_outputs task\<rparr>)"

text \<open>Persisting what the plugin returned.\<close>

definition persist_result :: "uuid \<Rightarrow> datetime \<Rightarrow> task_result \<Rightarrow> (database, process_result) op" where
  "persist_result task_execution_id now r =
     (if result_succeeded r then service_complete_task task_execution_id (result_output r) now
      else service_retry_task task_execution_id (result_message r) now)"

definition process :: "(string \<times> task_plugin) list \<Rightarrow> datetime \<Rightarrow> datetime \<Rightarrow> uuid \<Rightarrow> (database, process_result) op" where
  "process reg started_at completed_at task_execution_id =
     andThen (service_start_task task_execution_id started_at) (\<lambda>task.
       case task of
         None \<Rightarrow> ret no_result
       | Some task \<Rightarrow>
           (case execute_plugin reg task of
              Inl e \<Rightarrow> raise e
            | Inr r \<Rightarrow> persist_result task_execution_id completed_at r))"

section \<open>The transactions, row by row\<close>

lemma complete_task_total: "\<exists>r. complete_task request db = (fst (complete_task request db), Inr r)"
  by (simp add: complete_task_def split: prod.splits)

lemma retry_task_total: "\<exists>r. retry_task request db = (fst (retry_task request db), Inr r)"
  by (simp add: retry_task_def split: prod.splits)

lemma service_complete_eq:
  "service_complete_task tid out now db =
     (let request = \<lparr>creq_task_execution_id = tid, creq_output = out, creq_completed_at = now\<rparr>
      in (fst (complete_task request db),
          case snd (complete_task request db) of
            Inl e \<Rightarrow> Inl e
          | Inr r \<Rightarrow> Inr \<lparr>pr_enqueue_task_ids = cres_runnable_task_execution_ids r,
                          pr_should_retry = False\<rparr>))"
  unfolding service_complete_task_def with_uow_call_commit Let_def
  using complete_task_total [of "\<lparr>creq_task_execution_id = tid, creq_output = out, creq_completed_at = now\<rparr>" db]
  by (auto split: prod.splits sum.splits)

lemma service_retry_eq:
  "service_retry_task tid msg now db =
     (let request = \<lparr>rreq_task_execution_id = tid, rreq_error_message = msg, rreq_completed_at = now\<rparr>
      in (fst (retry_task request db),
          case snd (retry_task request db) of
            Inl e \<Rightarrow> Inl e
          | Inr r \<Rightarrow> Inr \<lparr>pr_enqueue_task_ids = [], pr_should_retry = rres_should_retry r\<rparr>))"
  unfolding service_retry_task_def with_uow_call_commit Let_def
  using retry_task_total [of "\<lparr>rreq_task_execution_id = tid, rreq_error_message = msg, rreq_completed_at = now\<rparr>" db]
  by (auto split: prod.splits sum.splits)

text \<open>A task that a worker may start: running already, or pending with every parent completed.\<close>

definition startable :: "task_row list \<Rightarrow> task_row \<Rightarrow> bool" where
  "startable ts t \<longleftrightarrow> t_status t = Running \<or> (t_status t = Pending \<and> ready ts t)"

lemma start_row_output [simp]: "t_output (start_row tid now t) = t_output t"
  by (simp add: start_row_def)

lemma find_started:
  assumes "distinct (task_ids ts)" "t \<in> set ts" "startable ts t"
  shows "find (\<lambda>u. t_id u = t_id t \<and> t_status u = Running) (map (start_row (t_id t) now) ts) =
           Some (start_row (t_id t) now t)"
proof -
  have d: "distinct (map t_id (map (start_row (t_id t) now) ts))"
    using assms(1) by (simp add: comp_def)
  show ?thesis
    using assms(2,3) by (simp add: find_key_Some_iff [OF d]) (auto simp: startable_def start_row_def)
qed

lemma find_not_started:
  assumes "distinct (task_ids ts)" "\<And>t. t \<in> set ts \<Longrightarrow> t_id t = tid \<Longrightarrow> terminal_task (t_status t)"
  shows "find (\<lambda>u. t_id u = tid \<and> t_status u = Running) (map (start_row tid now) ts) = None"
    and "map (start_row tid now) ts = ts"
proof -
  have same: "start_row tid now t = t" if "t \<in> set ts" for t
    using assms(2) [OF that] by (auto simp: start_row_def)
  then show m: "map (start_row tid now) ts = ts" by (simp add: map_idI)
  show "find (\<lambda>u. t_id u = tid \<and> t_status u = Running) (map (start_row tid now) ts) = None"
    unfolding m find_None_iff
  proof
    assume "\<exists>u. u \<in> set ts \<and> t_id u = tid \<and> t_status u = Running"
    then obtain u where u: "u \<in> set ts" "t_id u = tid" "t_status u = Running" by blast
    from assms(2) [OF u(1,2)] u(3) show False by simp
  qed
qed

text \<open>
  Starting a startable task commits \<open>Running\<close> and hands the plugin the stored configuration and
  the outputs of all parents, without ever raising.
\<close>

lemma service_start_ok:
  assumes inv: "exec_inv db" and t: "t \<in> set (task_executions db)" "startable (task_executions db) t"
  shows "service_start_task (t_id t) now db =
     (db\<lparr>task_executions := map (start_row (t_id t) now) (task_executions db)\<rparr>,
      Inr (Some \<lparr>sres_plugin_type = t_plugin_type t, sres_configuration = t_configuration t,
                 sres_parent_outputs =
                   map (\<lambda>p. (t_key p, \<lparr>output_values = the (t_output p)\<rparr>))
                     (parent_rows (task_executions db) t)\<rparr>))"
proof -
  let ?ts = "task_executions db" and ?s = "start_row (t_id t) now"
  let ?db = "db\<lparr>task_executions := map ?s ?ts\<rparr>"
  note parts = exec_invD [OF inv]
  have prog: "progress_ok ?ts" and graph: "graph_ok ?ts" by (rule parts)+
  have ready_t: "ready ?ts t"
    using t prog by (auto simp: startable_def progress_ok_def row_ok_def split: task_status.splits)
  have released: "u \<in> set ?ts \<Longrightarrow> t_id u = t_id t \<Longrightarrow> t_status u = Pending \<Longrightarrow> t_remaining_dependencies u = 0" for u
    using same_id_same_row [OF parts(4) _ t(1)] counter_zero_iff_ready [OF prog] ready_t by metis
  have graph': "graph_ok (map ?s ?ts)" by (rule graph_ok_map [OF shape_start_row graph])
  have prog': "progress_ok (map ?s ?ts)" by (rule progress_ok_start [OF prog released])
  have comp: "completed (map ?s ?ts) p = completed ?ts p" for p
    by (rule completed_map_same [OF shape_start_row]) (simp add: start_row_def)
  have ready': "ready (map ?s ?ts) (?s t)" using ready_t by (simp add: ready_def comp)
  have outs: "load_parent_outputs (t_parent_task_ids (?s t)) ?db =
     Inr (map (\<lambda>p. (t_key p, \<lparr>output_values = the (t_output p)\<rparr>)) (parent_rows (map ?s ?ts) (?s t)))"
    using load_parent_outputs_ready [of ?db "?s t"] graph' prog' t(1) ready' by simp
  have rows: "map (\<lambda>p. (t_key p, \<lparr>output_values = the (t_output p)\<rparr>)) (parent_rows (map ?s ?ts) (?s t))
      = map (\<lambda>p. (t_key p, \<lparr>output_values = the (t_output p)\<rparr>)) (parent_rows ?ts t)"
    by (simp add: parent_rows_def select_where_def filter_map comp_def)
  have "start_task (t_id t) now db =
     (?db, Inr (Some \<lparr>sres_plugin_type = t_plugin_type t, sres_configuration = t_configuration t,
                 sres_parent_outputs = map (\<lambda>p. (t_key p, \<lparr>output_values = the (t_output p)\<rparr>))
                     (parent_rows ?ts t)\<rparr>))"
    using outs find_started [OF parts(4) t, of now] rows
    by (simp add: start_task_def start_update_eq Let_def)
  then show ?thesis by (simp add: service_start_task_def with_uow_def andThen_def in_uow_def uow_commit_def)
qed

lemma service_start_finished:
  assumes "exec_inv db" "\<And>t. t \<in> set (task_executions db) \<Longrightarrow> t_id t = tid \<Longrightarrow> terminal_task (t_status t)"
  shows "service_start_task tid now db = (db, Inr None)"
proof -
  have "start_task tid now db = (db, Inr None)"
    using find_not_started [OF exec_invD(4) [OF assms(1)] assms(2), of tid now]
    by (simp add: start_task_def start_update_eq Let_def)
  then show ?thesis by (simp add: service_start_task_def with_uow_def andThen_def in_uow_def)
qed

section \<open>What each transaction guarantees\<close>

text \<open>
  \<open>known_released ts i\<close>: the task exists and, if it is still pending, waits for no parent.
  \<open>started\<close> and \<open>finished\<close>: it has left \<open>Pending\<close>, it is in a terminal status.
\<close>

definition known_released :: "task_row list \<Rightarrow> uuid \<Rightarrow> bool" where
  "known_released ts i \<longleftrightarrow>
     (\<exists>t \<in> set ts. t_id t = i \<and> (t_status t = Pending \<longrightarrow> t_remaining_dependencies t = 0))"

definition started :: "task_row list \<Rightarrow> uuid \<Rightarrow> bool" where
  "started ts i \<longleftrightarrow> (\<exists>t \<in> set ts. t_id t = i \<and> t_status t \<noteq> Pending)"

definition finished :: "task_row list \<Rightarrow> uuid \<Rightarrow> bool" where
  "finished ts i \<longleftrightarrow> (\<exists>t \<in> set ts. t_id t = i \<and> terminal_task (t_status t))"

lemma known_released_advances: "table_advances ts us \<Longrightarrow> known_released ts i \<Longrightarrow> known_released us i"
  unfolding table_advances_def known_released_def row_advances_def by (metis shape_eqD(1))

lemma started_advances: "table_advances ts us \<Longrightarrow> started ts i \<Longrightarrow> started us i"
  unfolding table_advances_def started_def row_advances_def by (metis shape_eqD(1))

lemma finished_advances: "table_advances ts us \<Longrightarrow> finished ts i \<Longrightarrow> finished us i"
  unfolding table_advances_def finished_def row_advances_def by (metis)

lemma finished_started: "finished ts i \<Longrightarrow> started ts i"
  by (auto simp: finished_def started_def)

lemma started_released: "started ts i \<Longrightarrow> known_released ts i"
  by (auto simp: started_def known_released_def)

lemmas progress_advances = known_released_advances started_advances finished_advances

text \<open>A transition rewrites the execution tables only.\<close>

definition execution_step :: "database \<Rightarrow> database \<Rightarrow> bool" where
  "execution_step db db' \<longleftrightarrow>
     (\<exists>ws ts. db' = db\<lparr>workflow_executions := ws, task_executions := ts\<rparr>)
     \<and> table_advances (task_executions db) (task_executions db')"

lemma execution_stepI:
  "db' = db\<lparr>workflow_executions := ws, task_executions := ts\<rparr> \<Longrightarrow>
   table_advances (task_executions db) ts \<Longrightarrow> execution_step db db'"
  unfolding execution_step_def by auto

lemma execution_step_refl [simp]: "execution_step db db"
  by (rule execution_stepI [where ws = "workflow_executions db" and ts = "task_executions db"]) simp_all

lemma advances_two:
  "(\<And>t. row_advances t (f t)) \<Longrightarrow> (\<And>t. row_advances t (g t)) \<Longrightarrow>
   table_advances ts (map g (map f ts))"
  by (auto simp: table_advances_def intro: row_advances_trans)

lemma swap_updates:
  "db\<lparr>task_executions := ts, workflow_executions := ws\<rparr> =
   db\<lparr>workflow_executions := ws, task_executions := ts\<rparr>" for db :: database
  by simp

lemma started_cases:
  assumes "started ts i" "distinct (task_ids ts)"
  obtains r where "r \<in> set ts" "t_id r = i" "t_status r = Running"
  | "finished ts i" "\<And>t. t \<in> set ts \<Longrightarrow> t_id t = i \<Longrightarrow> t_status t \<noteq> Running"
proof -
  obtain t where t: "t \<in> set ts" "t_id t = i" "t_status t \<noteq> Pending"
    using assms(1) by (auto simp: started_def)
  show thesis
  proof (cases "t_status t = Running")
    case True
    with t that(1) show thesis by blast
  next
    case False
    with t(3) have "terminal_task (t_status t)" using not_terminal_task_iff by blast
    moreover have "u = t" if "u \<in> set ts" "t_id u = i" for u
      using same_id_same_row [OF assms(2) that(1) t(1)] that(2) t(2) by simp
    ultimately show thesis using that(2) t False unfolding finished_def by metis
  qed
qed

lemma complete_task_spec:
  assumes inv: "exec_inv db" and st: "started (task_executions db) (creq_task_execution_id request)"
  obtains r where "complete_task request db = (fst (complete_task request db), Inr r)"
    "exec_inv (fst (complete_task request db))"
    "execution_step db (fst (complete_task request db))"
    "finished (task_executions (fst (complete_task request db))) (creq_task_execution_id request)"
    "\<And>i. i \<in> set (cres_runnable_task_execution_ids r) \<Longrightarrow>
       known_released (task_executions (fst (complete_task request db))) i"
proof -
  let ?ts = "task_executions db" and ?tid = "creq_task_execution_id request"
  note parts = exec_invD [OF inv]
  have inv': "exec_inv (fst (complete_task request db))" by (rule exec_inv_complete [OF inv])
  show thesis
  proof (rule started_cases [OF st parts(4)])
    fix r assume r: "r \<in> set ?ts" "t_id r = ?tid" "t_status r = Running"
    have children: "distinct (t_child_task_ids r)"
      using parts(1) r(1) by (simp add: graph_ok_def mirrored_def)
    let ?us = "map (release_row (t_child_task_ids r)) (map (complete_row request) ?ts)"
    note active = complete_task_active [OF parts(4) r children]
    obtain closed where res: "snd (complete_task request db) =
        Inr \<lparr>cres_runnable_task_execution_ids =
               filter (becomes_runnable (map (complete_row request) ?ts)) (t_child_task_ids r),
             cres_workflow_completed = closed\<rparr>"
      using active(2) by blast
    have db': "fst (complete_task request db) = db\<lparr>task_executions := ?us, workflow_executions :=
        map (finish_workflow_row (t_workflow_execution_id r) (creq_completed_at request) ?us)
          (workflow_executions db)\<rparr>"
      by (rule active(1))
    have adv: "table_advances ?ts ?us" by (rule advances_two [OF row_advances_rows(2,3)])
    have fin: "finished ?us ?tid"
    proof -
      have "release_row (t_child_task_ids r) (complete_row request r) \<in> set ?us" using r(1) by simp
      moreover have "t_status (release_row (t_child_task_ids r) (complete_row request r)) = Completed"
        using r by (simp add: complete_row_def)
      moreover have "t_id (release_row (t_child_task_ids r) (complete_row request r)) = ?tid"
        using r(2) by simp
      ultimately show ?thesis unfolding finished_def by (metis terminal_task_simps(3))
    qed
    have rel: "known_released ?us i"
      if i: "i \<in> set (filter (becomes_runnable (map (complete_row request) ?ts)) (t_child_task_ids r))" for i
    proof -
      have "becomes_runnable (map (complete_row request) ?ts) i" using i by simp
      then obtain t where t: "t \<in> set (map (complete_row request) ?ts)" "t_id t = i"
        "t_status t = Pending" "t_remaining_dependencies t = 1"
        unfolding becomes_runnable_def by blast
      then have "t_remaining_dependencies (release_row (t_child_task_ids r) t) = 0"
        using i by (simp add: release_row_def)
      moreover have "release_row (t_child_task_ids r) t \<in> set ?us"
        using imageI [OF t(1), of "release_row (t_child_task_ids r)"] by (simp only: set_map)
      moreover have "t_id (release_row (t_child_task_ids r) t) = i" using t(2) by simp
      ultimately show ?thesis unfolding known_released_def by metis
    qed
    have step: "execution_step db (fst (complete_task request db))"
      unfolding db' by (rule execution_stepI [OF swap_updates adv])
    show thesis
    proof (rule that)
      show "complete_task request db = (fst (complete_task request db),
          Inr \<lparr>cres_runnable_task_execution_ids =
               filter (becomes_runnable (map (complete_row request) ?ts)) (t_child_task_ids r),
             cres_workflow_completed = closed\<rparr>)"
        using res by (metis prod.collapse)
      show "finished (task_executions (fst (complete_task request db))) ?tid"
        using fin by (simp add: db')
    qed (use inv' step rel in \<open>simp_all add: db'\<close>)
  next
    assume fin: "finished ?ts ?tid" and no: "\<And>t. t \<in> set ?ts \<Longrightarrow> t_id t = ?tid \<Longrightarrow> t_status t \<noteq> Running"
    have inactive: "complete_task request db =
        (db, Inr \<lparr>cres_runnable_task_execution_ids = [], cres_workflow_completed = False\<rparr>)"
      by (rule complete_task_inactive) (use no in blast)
    show thesis
      by (rule that [of "\<lparr>cres_runnable_task_execution_ids = [], cres_workflow_completed = False\<rparr>"])
        (use inactive inv fin in simp_all)
  qed
qed

lemma retry_task_spec:
  assumes inv: "exec_inv db" and st: "started (task_executions db) (rreq_task_execution_id request)"
  obtains r where "retry_task request db = (fst (retry_task request db), Inr r)"
    "exec_inv (fst (retry_task request db))"
    "execution_step db (fst (retry_task request db))"
    "\<not> rres_should_retry r \<Longrightarrow>
       finished (task_executions (fst (retry_task request db))) (rreq_task_execution_id request)"
proof -
  let ?ts = "task_executions db" and ?tid = "rreq_task_execution_id request"
  note parts = exec_invD [OF inv]
  have inv': "exec_inv (fst (retry_task request db))" by (rule exec_inv_retry [OF inv])
  show thesis
  proof (rule started_cases [OF st parts(4)])
    fix r assume r: "r \<in> set ?ts" "t_id r = ?tid" "t_status r = Running"
    have tries: "t_remaining_tries r > 0"
      using parts(2) r by (auto simp: progress_ok_def row_ok_def)
    show thesis
    proof (cases "t_remaining_tries r > 1")
      case True
      note again = retry_task_again [OF parts(4) r True]
      show thesis
      proof (rule that)
        show "execution_step db (fst (retry_task request db))"
          unfolding again fst_conv
          by (rule execution_stepI [OF _ table_advances_map [OF row_advances_rows(4)],
                where ws = "workflow_executions db"]) simp
        show "retry_task request db = (fst (retry_task request db),
            Inr \<lparr>rres_should_retry = True, rres_workflow_failed = False\<rparr>)"
          by (simp add: again)
      qed (use inv' in simp_all)
    next
      case False
      with tries have one: "t_remaining_tries r = 1" by simp
      have running: "workflow_running db (t_workflow_execution_id r)"
        by (rule running_task_running_workflow [OF parts(3) r(1,3)])
      note last = retry_task_last [OF parts(4,5) r one running]
      let ?c = "cancel_row (t_workflow_execution_id r) (rreq_completed_at request)"
      have adv: "table_advances ?ts (map ?c (map (retry_row request) ?ts))"
        by (rule advances_two [OF row_advances_rows(4,5)])
      have fin: "finished (map ?c (map (retry_row request) ?ts)) ?tid"
      proof -
        have "?c (retry_row request r) \<in> set (map ?c (map (retry_row request) ?ts))" using r(1) by simp
        moreover have "t_id (?c (retry_row request r)) = ?tid" using r(2) by simp
        moreover have "terminal_task (t_status (?c (retry_row request r)))"
          using r one by (simp add: retry_row_def cancel_row_def)
        ultimately show ?thesis unfolding finished_def by blast
      qed
      show thesis
      proof (rule that)
        show "execution_step db (fst (retry_task request db))"
          unfolding last fst_conv by (rule execution_stepI [OF swap_updates adv])
        show "finished (task_executions (fst (retry_task request db))) ?tid"
          unfolding last fst_conv using fin by simp
      qed (use last inv' in simp_all)
    qed
  next
    assume fin: "finished ?ts ?tid" and no: "\<And>t. t \<in> set ?ts \<Longrightarrow> t_id t = ?tid \<Longrightarrow> t_status t \<noteq> Running"
    have "retry_task request db = (db, Inr \<lparr>rres_should_retry = False, rres_workflow_failed = False\<rparr>)"
      by (rule retry_task_inactive) (use no in blast)
    then show thesis by (intro that) (use inv fin in simp_all)
  qed
qed

lemma persist_result_spec:
  assumes inv: "exec_inv db" and st: "started (task_executions db) tid"
  obtains db' pr where "persist_result tid now res db = (db', Inr pr)" "exec_inv db'"
    "execution_step db db'"
    "\<And>i. i \<in> set (pr_enqueue_task_ids pr) \<Longrightarrow> known_released (task_executions db') i"
    "\<not> pr_should_retry pr \<Longrightarrow> finished (task_executions db') tid"
proof (cases "result_succeeded res")
  case True
  let ?request = "\<lparr>creq_task_execution_id = tid, creq_output = result_output res, creq_completed_at = now\<rparr>"
  have "started (task_executions db) (creq_task_execution_id ?request)" using st by simp
  from complete_task_spec [OF inv this] obtain r where
    r: "complete_task ?request db = (fst (complete_task ?request db), Inr r)"
      "exec_inv (fst (complete_task ?request db))"
      "execution_step db (fst (complete_task ?request db))"
      "finished (task_executions (fst (complete_task ?request db))) (creq_task_execution_id ?request)"
      "\<And>i. i \<in> set (cres_runnable_task_execution_ids r) \<Longrightarrow>
         known_released (task_executions (fst (complete_task ?request db))) i"
    by blast
  have "snd (complete_task ?request db) = Inr r" using r(1) by (metis snd_conv)
  then have "persist_result tid now res db = (fst (complete_task ?request db),
      Inr \<lparr>pr_enqueue_task_ids = cres_runnable_task_execution_ids r, pr_should_retry = False\<rparr>)"
    using True by (simp add: persist_result_def service_complete_eq Let_def)
  then show thesis by (rule that) (use r in simp_all)
next
  case False
  let ?request = "\<lparr>rreq_task_execution_id = tid, rreq_error_message = result_message res, rreq_completed_at = now\<rparr>"
  have "started (task_executions db) (rreq_task_execution_id ?request)" using st by simp
  from retry_task_spec [OF inv this] obtain r where
    r: "retry_task ?request db = (fst (retry_task ?request db), Inr r)"
      "exec_inv (fst (retry_task ?request db))"
      "execution_step db (fst (retry_task ?request db))"
      "\<not> rres_should_retry r \<Longrightarrow>
       finished (task_executions (fst (retry_task ?request db))) (rreq_task_execution_id ?request)"
    by blast
  have "snd (retry_task ?request db) = Inr r" using r(1) by (metis snd_conv)
  then have "persist_result tid now res db = (fst (retry_task ?request db),
      Inr \<lparr>pr_enqueue_task_ids = [], pr_should_retry = rres_should_retry r\<rparr>)"
    using False by (simp add: persist_result_def service_retry_eq Let_def)
  then show thesis by (rule that) (use r in simp_all)
qed

lemma service_start_spec:
  assumes inv: "exec_inv db" and rel: "known_released (task_executions db) tid"
  obtains db' r where "service_start_task tid now db = (db', Inr r)" "exec_inv db'"
    "execution_step db db'" "started (task_executions db') tid"
    "r = None \<Longrightarrow> finished (task_executions db') tid"
proof -
  let ?ts = "task_executions db"
  note parts = exec_invD [OF inv]
  obtain t where t: "t \<in> set ?ts" "t_id t = tid" "t_status t = Pending \<Longrightarrow> t_remaining_dependencies t = 0"
    using rel by (auto simp: known_released_def)
  have only: "u = t" if "u \<in> set ?ts" "t_id u = tid" for u
    using same_id_same_row [OF parts(4) that(1) t(1)] that(2) t(2) by simp
  show thesis
  proof (cases "startable ?ts t")
    case True
    note ok = service_start_ok [OF inv t(1) True, unfolded t(2)]
    have "exec_inv (fst (start_task tid now db))"
      by (rule exec_inv_start [OF inv]) (use only t(3) in blast)
    then have inv': "exec_inv (db\<lparr>task_executions := map (start_row tid now) ?ts\<rparr>)"
      by (simp add: start_task_db)
    have "start_row tid now t \<in> set (map (start_row tid now) ?ts)" using t(1) by simp
    moreover have "t_status (start_row tid now t) \<noteq> Pending"
      using True t(2) by (auto simp: startable_def start_row_def)
    moreover have "t_id (start_row tid now t) = tid" using t(2) by simp
    ultimately have "started (map (start_row tid now) ?ts) tid" unfolding started_def by blast
    moreover have "execution_step db (db\<lparr>task_executions := map (start_row tid now) ?ts\<rparr>)"
      by (rule execution_stepI [OF _ table_advances_map [OF row_advances_rows(1)],
            where ws = "workflow_executions db"]) simp
    ultimately show thesis by (intro that [OF ok inv']) simp_all
  next
    case False
    then have "terminal_task (t_status t)"
      using counter_zero_iff_ready [OF parts(2) t(1)] t(3) not_terminal_task_iff
      by (auto simp: startable_def)
    then have fin: "finished ?ts tid" using t(1,2) unfolding finished_def by blast
    have "service_start_task tid now db = (db, Inr None)"
      by (rule service_start_finished [OF inv]) (use only \<open>terminal_task (t_status t)\<close> in blast)
    then show thesis by (rule that) (use inv fin finished_started in auto)
  qed
qed

end
