(* ===== verification/Trigger_Repository.thy ===== *)
theory Trigger_Repository
  imports Database "HOL-Library.Product_Lexorder"
begin

text \<open>
  Scheduling state of chronological triggers (\<open>persistence/chronological_triggers/\<close>): one row
  per trigger with the next occurrence, created with the trigger, advanced or deleted when an
  occurrence has been processed. \<open>get_next_due\<close> chooses the earliest due row of an enabled
  trigger and skips the rows other schedulers have locked.
\<close>

record due_trigger =
  due_trigger_definition_id :: uuid
  due_workflow_definition_id :: uuid
  due_plugin_type :: string
  due_configuration :: json_object
  due_next_run_at :: datetime

definition create_trigger_state :: "uuid \<Rightarrow> datetime \<Rightarrow> (database, unit) op" where
  "create_trigger_state trigger_definition_id next_run_at db =
     (if trigger_definition_id \<in> cts_trigger_definition_id ` set (chronological_trigger_state db)
         \<or> trigger_definition_id \<notin> trr_id ` set (trigger_definitions db)
      then raise IntegrityError db
      else ret () (db\<lparr>chronological_trigger_state := chronological_trigger_state db
             @ [\<lparr>cts_trigger_definition_id = trigger_definition_id, cts_next_run_at = next_run_at\<rparr>]\<rparr>))"

definition delete_trigger_state :: "uuid \<Rightarrow> (database, unit) op" where
  "delete_trigger_state trigger_definition_id db =
     ret () (db\<lparr>chronological_trigger_state :=
       delete_where (\<lambda>s. cts_trigger_definition_id s = trigger_definition_id)
         (chronological_trigger_state db)\<rparr>)"

text \<open>The join of the state with its trigger definition, row by row.\<close>

definition join_triggers :: "database \<Rightarrow> (trigger_state_row \<times> trigger_definition_row) list" where
  "join_triggers db =
     concat (map (\<lambda>s. map (Pair s)
         (filter (\<lambda>t. trr_id t = cts_trigger_definition_id s) (trigger_definitions db)))
       (chronological_trigger_state db))"

definition get_next_due ::
  "(uuid \<Rightarrow> bool) \<Rightarrow> datetime \<Rightarrow> (database, due_trigger option) op" where
  "get_next_due locked now db =
     (case first_by (\<lambda>(s, t). (cts_next_run_at s, cts_trigger_definition_id s))
             (select_where (\<lambda>(s, t). cts_next_run_at s \<le> now \<and> trr_enabled t
                              \<and> \<not> locked (cts_trigger_definition_id s)) (join_triggers db)) of
        None \<Rightarrow> ret None db
      | Some (s, t) \<Rightarrow>
          ret (Some \<lparr>due_trigger_definition_id = cts_trigger_definition_id s,
                     due_workflow_definition_id = trr_workflow_definition_id t,
                     due_plugin_type = trr_plugin_type t,
                     due_configuration = trr_configuration t,
                     due_next_run_at = cts_next_run_at s\<rparr>) db)"

definition update_next_run :: "uuid \<Rightarrow> datetime \<Rightarrow> (database, unit) op" where
  "update_next_run trigger_definition_id next_run_at db =
     (case lookup_row cts_trigger_definition_id trigger_definition_id
             (chronological_trigger_state db) of
        None \<Rightarrow> raise ValueError db
      | Some _ \<Rightarrow>
          ret () (db\<lparr>chronological_trigger_state :=
            update_where (\<lambda>s. cts_trigger_definition_id s = trigger_definition_id)
              (\<lambda>s. s\<lparr>cts_next_run_at := next_run_at\<rparr>) (chronological_trigger_state db)\<rparr>))"

section \<open>What the queries find\<close>

text \<open>A row that is due: its trigger is enabled, its occurrence has come, nobody has it locked.\<close>

definition due :: "(uuid \<Rightarrow> bool) \<Rightarrow> datetime \<Rightarrow> database \<Rightarrow> trigger_state_row \<Rightarrow> trigger_definition_row \<Rightarrow> bool" where
  "due locked now db s t \<longleftrightarrow>
     s \<in> set (chronological_trigger_state db) \<and> t \<in> set (trigger_definitions db)
     \<and> trr_id t = cts_trigger_definition_id s \<and> trr_enabled t
     \<and> cts_next_run_at s \<le> now \<and> \<not> locked (cts_trigger_definition_id s)"

lemma join_triggers_iff:
  "(s, t) \<in> set (join_triggers db) \<longleftrightarrow>
     s \<in> set (chronological_trigger_state db) \<and> t \<in> set (trigger_definitions db)
     \<and> trr_id t = cts_trigger_definition_id s"
  by (auto simp: join_triggers_def)

lemma get_next_due_db [simp]: "fst (get_next_due locked now db) = db"
  by (simp add: get_next_due_def split: option.splits prod.splits)

lemma get_next_due_total: "\<exists>r. get_next_due locked now db = (db, Inr r)"
  by (simp add: get_next_due_def split: option.splits prod.splits)

lemma get_next_due_None_iff:
  "get_next_due locked now db = (db, Inr None) \<longleftrightarrow> (\<forall>s t. \<not> due locked now db s t)"
proof -
  let ?rows = "select_where (\<lambda>(s, t). cts_next_run_at s \<le> now \<and> trr_enabled t
                              \<and> \<not> locked (cts_trigger_definition_id s)) (join_triggers db)"
  have "get_next_due locked now db = (db, Inr None) \<longleftrightarrow>
      first_by (\<lambda>(s, t). (cts_next_run_at s, cts_trigger_definition_id s)) ?rows = None"
    by (simp add: get_next_due_def split: option.splits prod.splits)
  also have "\<dots> \<longleftrightarrow> ?rows = []" by (rule first_by_None)
  also have "?rows = [] \<longleftrightarrow> (\<forall>s t. (s, t) \<in> set (join_triggers db) \<longrightarrow>
      \<not> (cts_next_run_at s \<le> now \<and> trr_enabled t \<and> \<not> locked (cts_trigger_definition_id s)))"
    unfolding select_where_def filter_empty_conv by fast
  also have "\<dots> \<longleftrightarrow> (\<forall>s t. \<not> due locked now db s t)"
    unfolding join_triggers_iff due_def by blast
  finally show ?thesis .
qed

lemma get_next_due_SomeD:
  assumes "get_next_due locked now db = (db', Inr (Some d))"
  obtains s t where "due locked now db s t"
    "\<And>s' t'. due locked now db s' t' \<Longrightarrow>
       (cts_next_run_at s, cts_trigger_definition_id s) \<le> (cts_next_run_at s', cts_trigger_definition_id s')"
    "d = \<lparr>due_trigger_definition_id = cts_trigger_definition_id s,
          due_workflow_definition_id = trr_workflow_definition_id t,
          due_plugin_type = trr_plugin_type t,
          due_configuration = trr_configuration t,
          due_next_run_at = cts_next_run_at s\<rparr>"
    "db' = db"
proof -
  let ?rows = "select_where (\<lambda>(s, t). cts_next_run_at s \<le> now \<and> trr_enabled t
                              \<and> \<not> locked (cts_trigger_definition_id s)) (join_triggers db)"
  let ?key = "\<lambda>(s, t :: trigger_definition_row). (cts_next_run_at s, cts_trigger_definition_id s)"
  obtain s t where first: "first_by ?key ?rows = Some (s, t)"
    using assms by (cases "first_by ?key ?rows") (auto simp: get_next_due_def)
  have rows: "(s', t') \<in> set ?rows \<longleftrightarrow> due locked now db s' t'" for s' t'
    by (auto simp: join_triggers_iff due_def)
  show thesis
  proof (rule that)
    show "due locked now db s t" using first_by_Some [OF first] rows by blast
    show "(cts_next_run_at s, cts_trigger_definition_id s) \<le> (cts_next_run_at s', cts_trigger_definition_id s')"
      if "due locked now db s' t'" for s' t'
      using first_by_Some [OF first] rows [of s' t'] that by (metis (mono_tags, lifting) case_prod_conv)
    show "d = \<lparr>due_trigger_definition_id = cts_trigger_definition_id s,
          due_workflow_definition_id = trr_workflow_definition_id t,
          due_plugin_type = trr_plugin_type t,
          due_configuration = trr_configuration t,
          due_next_run_at = cts_next_run_at s\<rparr>" "db' = db"
      using assms first by (simp_all add: get_next_due_def)
  qed
qed

end
