(* ===== verification/Dependency_Graph.thy ===== *)
theory Dependency_Graph
  imports Prelude
begin

text \<open>
  The cycle check of \<open>WorkflowDefinitionService._has_dependency_cycle\<close>: Kahn's algorithm over
  dictionaries. The loop is total for every input, as the number of ready keys plus the number
  of positive counters falls in every round. On a graph whose edges stay inside the key set, the
  keys it processes form a topological order, and it processes all of them exactly when the
  dependency relation is acyclic.
\<close>

section \<open>The algorithm\<close>

text \<open>
  The inner loop over \<open>children[key]\<close>: decrement the child's counter, append the child to
  \<open>ready\<close> when it reaches 0.
\<close>

fun release_children :: "'k list \<Rightarrow> ('k \<times> int) list \<Rightarrow> 'k list \<Rightarrow> (('k \<times> int) list \<times> 'k list) result" where
  "release_children [] remaining ready = Inr (remaining, ready)"
| "release_children (child # children) remaining ready =
     (case map_of remaining child of
        None \<Rightarrow> Inl KeyError
      | Some n \<Rightarrow>
          release_children children (AList.update child (n - 1) remaining)
            (if n - 1 = 0 then ready @ [child] else ready))"

definition positive_counters :: "('k \<times> int) list \<Rightarrow> nat" where
  "positive_counters remaining = length (filter (\<lambda>(k, n). n > 0) remaining)"

lemma positive_counters_update:
  "map_of remaining k = Some n \<Longrightarrow>
   positive_counters (AList.update k m remaining) + (if n > 0 then 1 else 0)
   = positive_counters remaining + (if m > 0 then 1 else 0)"
  by (induction remaining) (auto simp: positive_counters_def)

lemma release_children_measure:
  "release_children children remaining ready = Inr (remaining', ready') \<Longrightarrow>
   length ready' + positive_counters remaining' \<le> length ready + positive_counters remaining"
proof (induction children arbitrary: remaining ready)
  case Nil
  then show ?case by simp
next
  case (Cons child children)
  then obtain n where n: "map_of remaining child = Some n" by (auto split: option.splits)
  let ?ready = "if n - 1 = 0 then ready @ [child] else ready"
  have "release_children children (AList.update child (n - 1) remaining) ?ready
      = Inr (remaining', ready')"
    using Cons.prems n by simp
  from Cons.IH [OF this] positive_counters_update [OF n, of "n - 1"]
  show ?case by (auto split: if_splits)
qed

text \<open>The outer loop \<open>while ready: key = ready.pop() ...\<close>, counting the processed keys.\<close>

function kahn_loop :: "('k \<times> 'k list) list \<Rightarrow> ('k \<times> int) list \<Rightarrow> 'k list \<Rightarrow> int \<Rightarrow> int result" where
  "kahn_loop children remaining ready processed =
     (if ready = [] then Inr processed
      else
        let key = last ready; ready1 = butlast ready in
        case map_of children key of
          None \<Rightarrow> Inl KeyError
        | Some child_keys \<Rightarrow>
            (case release_children child_keys remaining ready1 of
               Inl e \<Rightarrow> Inl e
             | Inr (remaining', ready') \<Rightarrow> kahn_loop children remaining' ready' (processed + 1)))"
  by pat_completeness auto
termination
proof (relation "measure (\<lambda>(children, remaining, ready, processed).
    length ready + positive_counters remaining)", goal_cases)
  case 1
  show ?case by simp
next
  case (2 children remaining ready processed key ready1 child_keys p remaining' ready')
  have "release_children child_keys remaining ready1 = Inr (remaining', ready')" using 2 by simp
  from release_children_measure [OF this] have "length ready' + positive_counters remaining'
      \<le> length (butlast ready) + positive_counters remaining" using 2 by simp
  moreover have "length (butlast ready) < length ready" using 2(1) by simp
  ultimately show ?case by simp
qed

declare kahn_loop.simps [simp del]

section \<open>Topological orders\<close>

inductive topo_order :: "('k \<Rightarrow> 'k list) \<Rightarrow> 'k list \<Rightarrow> bool" for deps where
  topo_Nil: "topo_order deps []"
| topo_snoc: "topo_order deps os \<Longrightarrow> k \<notin> set os \<Longrightarrow> set (deps k) \<subseteq> set os \<Longrightarrow>
     topo_order deps (os @ [k])"

lemma topo_order_distinct: "topo_order deps os \<Longrightarrow> distinct os"
  by (induction rule: topo_order.induct) auto

lemma topo_order_closed:
  "topo_order deps os \<Longrightarrow> k \<in> set os \<Longrightarrow> set (deps k) \<subseteq> set os"
  by (induction rule: topo_order.induct) auto

lemma topo_order_rank:
  "topo_order deps os \<Longrightarrow>
   \<exists>rank :: 'k \<Rightarrow> nat. \<forall>k \<in> set os. rank k < length os \<and> (\<forall>d \<in> set (deps k). rank d < rank k)"
proof (induction rule: topo_order.induct)
  case topo_Nil
  then show ?case by simp
next
  case (topo_snoc os k)
  then obtain rank :: "'k \<Rightarrow> nat" where rank:
    "\<forall>i \<in> set os. rank i < length os \<and> (\<forall>d \<in> set (deps i). rank d < rank i)" by blast
  have "\<forall>i \<in> set (os @ [k]). (rank(k := length os)) i < length (os @ [k])
      \<and> (\<forall>d \<in> set (deps i). (rank(k := length os)) d < (rank(k := length os)) i)"
  proof
    fix i assume i: "i \<in> set (os @ [k])"
    have le: "set (deps i) \<subseteq> set os"
      using i topo_snoc.hyps(3) topo_order_closed [OF topo_snoc.hyps(1)] by auto
    then have "k \<notin> set (deps i)" using topo_snoc.hyps(2) by blast
    with rank i le topo_snoc.hyps(2)
    show "(rank(k := length os)) i < length (os @ [k])
      \<and> (\<forall>d \<in> set (deps i). (rank(k := length os)) d < (rank(k := length os)) i)"
      by (cases "i = k") (auto simp: less_Suc_eq)
  qed
  then show ?case by blast
qed

definition edges :: "'k set \<Rightarrow> ('k \<Rightarrow> 'k list) \<Rightarrow> ('k \<times> 'k) set" where
  "edges K deps = {(d, k). k \<in> K \<and> d \<in> set (deps k)}"

lemma rank_acyclic:
  assumes "\<And>d k. (d, k) \<in> r \<Longrightarrow> (f :: 'k \<Rightarrow> nat) d < f k"
  shows "acyclic r"
proof -
  have "f a < f b" if "(a, b) \<in> r\<^sup>+" for a b
    using that by (induction rule: trancl_induct) (auto dest: assms intro: less_trans)
  then show ?thesis by (auto simp: acyclic_def)
qed

lemma acyclic_rank:
  assumes "finite r" "acyclic r"
  shows "\<exists>f :: 'k \<Rightarrow> nat. \<forall>(a, b) \<in> r. f a < f b"
proof (intro exI ballI)
  fix e assume "e \<in> r"
  obtain a b where e: "e = (a, b)" by (cases e)
  have fin: "finite {y. (y, x) \<in> r\<^sup>+}" for x
  proof (rule finite_subset)
    show "{y. (y, x) \<in> r\<^sup>+} \<subseteq> fst ` (r\<^sup>+)" by force
    show "finite (fst ` (r\<^sup>+))" using assms(1) by simp
  qed
  have ab: "(a, b) \<in> r\<^sup>+" using \<open>e \<in> r\<close> e by auto
  have "a \<notin> {y. (y, a) \<in> r\<^sup>+}" using assms(2) by (simp add: acyclic_def)
  moreover have "a \<in> {y. (y, b) \<in> r\<^sup>+}" using ab by simp
  moreover have "{y. (y, a) \<in> r\<^sup>+} \<subseteq> {y. (y, b) \<in> r\<^sup>+}" using ab by (auto intro: trancl_trans)
  ultimately have "{y. (y, a) \<in> r\<^sup>+} \<subset> {y. (y, b) \<in> r\<^sup>+}" by blast
  then have "card {y. (y, a) \<in> r\<^sup>+} < card {y. (y, b) \<in> r\<^sup>+}" by (rule psubset_card_mono [OF fin])
  then show "case e of (a, b) \<Rightarrow> card {y. (y, a) \<in> r\<^sup>+} < card {y. (y, b) \<in> r\<^sup>+}" by (simp add: e)
qed

lemma finite_edges: "finite K \<Longrightarrow> finite (edges K deps)"
proof -
  assume "finite K"
  have "edges K deps = (\<Union>k \<in> K. (\<lambda>d. (d, k)) ` set (deps k))" by (auto simp: edges_def)
  with \<open>finite K\<close> show ?thesis by simp
qed

section \<open>Correctness\<close>

definition graph_input :: "'k list \<Rightarrow> ('k \<Rightarrow> 'k list) \<Rightarrow> ('k \<times> 'k list) list \<Rightarrow> bool" where
  "graph_input K deps children \<longleftrightarrow>
     distinct K \<and> (\<forall>k \<in> set K. distinct (deps k) \<and> set (deps k) \<subseteq> set K)
     \<and> (\<forall>k \<in> set K. \<exists>cs. map_of children k = Some cs \<and> distinct cs
           \<and> set cs = {c \<in> set K. k \<in> set (deps c)})"

text \<open>
  The loop invariant: \<open>os\<close> is the list of keys processed so far. Counters count the
  unprocessed dependencies, and the ready keys are those with none left.
\<close>

definition kahn_inv :: "'k list \<Rightarrow> ('k \<Rightarrow> 'k list) \<Rightarrow> ('k \<times> int) list \<Rightarrow> 'k list \<Rightarrow> 'k list \<Rightarrow> bool" where
  "kahn_inv K deps remaining ready os \<longleftrightarrow>
     topo_order deps os \<and> set os \<subseteq> set K
     \<and> (\<forall>k \<in> set K. map_of remaining k = Some (int (card (set (deps k) - set os))))
     \<and> distinct ready \<and> set ready = {k \<in> set K. k \<notin> set os \<and> set (deps k) \<subseteq> set os}"

lemma release_children_eq:
  assumes "distinct cs" "\<forall>c \<in> set cs. map_of remaining c \<noteq> None"
  shows "\<exists>remaining'. release_children cs remaining ready =
      Inr (remaining', ready @ filter (\<lambda>c. map_of remaining c = Some 1) cs)
      \<and> map_of remaining' = (\<lambda>k. if k \<in> set cs then map_option (\<lambda>n. n - 1) (map_of remaining k)
                                  else map_of remaining k)"
  using assms
proof (induction cs arbitrary: remaining ready)
  case Nil
  then show ?case by simp
next
  case (Cons c cs)
  obtain n where n: "map_of remaining c = Some n" using Cons.prems(2) by auto
  let ?rem = "AList.update c (n - 1) remaining"
  have map: "map_of ?rem = (map_of remaining)(c \<mapsto> n - 1)" by (rule update_conv')
  have c: "c \<notin> set cs" "distinct cs" using Cons.prems(1) by simp_all
  have same: "filter (\<lambda>d. map_of ?rem d = Some 1) cs = filter (\<lambda>d. map_of remaining d = Some 1) cs"
    using c by (intro filter_cong) (auto simp: map)
  have ex: "\<forall>d \<in> set cs. map_of ?rem d \<noteq> None" using Cons.prems(2) by (simp add: map)
  obtain remaining' where r: "release_children cs ?rem (if n - 1 = 0 then ready @ [c] else ready) =
      Inr (remaining', (if n - 1 = 0 then ready @ [c] else ready)
             @ filter (\<lambda>d. map_of ?rem d = Some 1) cs)"
    and m: "map_of remaining' = (\<lambda>k. if k \<in> set cs then map_option (\<lambda>n. n - 1) (map_of ?rem k)
                                     else map_of ?rem k)"
    using Cons.IH [OF c(2) ex, of "if n - 1 = 0 then ready @ [c] else ready"] by blast
  have "map_of remaining' = (\<lambda>k. if k \<in> set (c # cs) then map_option (\<lambda>n. n - 1) (map_of remaining k)
      else map_of remaining k)"
    using c n by (auto simp: m map fun_eq_iff)
  moreover have "release_children (c # cs) remaining ready =
      Inr (remaining', ready @ filter (\<lambda>d. map_of remaining d = Some 1) (c # cs))"
    using r n same by simp
  ultimately show ?case by blast
qed

lemma butlast_mem:
  assumes "xs \<noteq> []" "distinct xs"
  shows "x \<in> set (butlast xs) \<longleftrightarrow> x \<in> set xs \<and> x \<noteq> last xs"
proof -
  obtain ys y where "xs = ys @ [y]" using assms(1) by (cases xs rule: rev_cases) auto
  with assms(2) show ?thesis by auto
qed

lemma unprocessed_step:
  assumes "k \<notin> set os"
  shows "k \<in> set ds \<Longrightarrow> card (set ds - set os) = Suc (card (set ds - set (os @ [k])))"
    and "k \<notin> set ds \<Longrightarrow> set ds - set (os @ [k]) = set ds - set os"
proof -
  assume "k \<in> set ds"
  then have "set ds - set os = insert k (set ds - set (os @ [k]))" using assms by auto
  moreover have "k \<notin> set ds - set (os @ [k])" by simp
  ultimately show "card (set ds - set os) = Suc (card (set ds - set (os @ [k])))"
    by (metis card_insert_disjoint finite_Diff finite_set)
qed auto

text \<open>Releasing the children of \<open>k\<close>: the counters and the newly ready keys.\<close>

lemma kahn_release:
  assumes cs: "distinct cs" "set cs = {c \<in> set K. k \<in> set (deps c)}"
    and counts: "\<forall>c \<in> set K. map_of remaining c = Some (int (card (set (deps c) - set os)))"
    and k: "k \<notin> set os"
  shows "\<exists>remaining' new. release_children cs remaining ready = Inr (remaining', ready @ new)
     \<and> distinct new
     \<and> (\<forall>c. c \<in> set new \<longleftrightarrow> c \<in> set K \<and> k \<in> set (deps c) \<and> set (deps c) \<subseteq> set (os @ [k]))
     \<and> (\<forall>c \<in> set K. map_of remaining' c = Some (int (card (set (deps c) - set (os @ [k])))))"
proof -
  have "\<forall>c \<in> set cs. map_of remaining c \<noteq> None" using cs(2) counts by simp
  from release_children_eq [OF cs(1) this, of ready] obtain remaining' where
    rel: "release_children cs remaining ready =
        Inr (remaining', ready @ filter (\<lambda>c. map_of remaining c = Some 1) cs)"
    and map': "map_of remaining' = (\<lambda>k. if k \<in> set cs then map_option (\<lambda>n. n - 1) (map_of remaining k)
                                  else map_of remaining k)"
    by blast
  have counts': "map_of remaining' c = Some (int (card (set (deps c) - set (os @ [k]))))"
    if c: "c \<in> set K" for c
  proof (cases "k \<in> set (deps c)")
    case True
    then have "c \<in> set cs" using cs(2) c by blast
    moreover have "map_of remaining c = Some (int (Suc (card (set (deps c) - set (os @ [k])))))"
      using counts c unprocessed_step(1) [OF k True] by metis
    ultimately show ?thesis unfolding map' by simp
  next
    case False
    then have "c \<notin> set cs" using cs(2) by blast
    then show ?thesis using counts c unfolding map' unprocessed_step(2) [OF k False] by simp
  qed
  have new: "c \<in> set (filter (\<lambda>c. map_of remaining c = Some 1) cs) \<longleftrightarrow>
      c \<in> set K \<and> k \<in> set (deps c) \<and> set (deps c) \<subseteq> set (os @ [k])" for c
  proof (cases "c \<in> set K \<and> k \<in> set (deps c)")
    case True
    then have "map_of remaining c = Some (int (Suc (card (set (deps c) - set (os @ [k])))))"
      using counts unprocessed_step(1) [OF k] by metis
    then have "map_of remaining c = Some 1 \<longleftrightarrow> card (set (deps c) - set (os @ [k])) = 0" by simp
    also have "\<dots> \<longleftrightarrow> set (deps c) \<subseteq> set (os @ [k])"
      by (simp only: card_eq_0_iff finite_set finite_Diff Diff_eq_empty_iff simp_thms)
    finally show ?thesis using True cs(2) by simp
  next
    case False
    then show ?thesis using cs(2) by auto
  qed
  show ?thesis
    by (rule exI [of _ remaining'], rule exI [of _ "filter (\<lambda>c. map_of remaining c = Some 1) cs"])
      (use rel cs(1) new counts' in \<open>intro conjI; blast intro: distinct_filter\<close>)
qed

lemma kahn_step:
  assumes G: "graph_input K deps children" and I: "kahn_inv K deps remaining ready os"
    and "ready \<noteq> []"
  shows "\<exists>cs remaining' ready'. map_of children (last ready) = Some cs
     \<and> release_children cs remaining (butlast ready) = Inr (remaining', ready')
     \<and> kahn_inv K deps remaining' ready' (os @ [last ready])"
proof -
  obtain k where last: "last ready = k" by blast
  have inv: "topo_order deps os" "set os \<subseteq> set K" "distinct ready"
    "\<And>c. c \<in> set ready \<longleftrightarrow> c \<in> set K \<and> c \<notin> set os \<and> set (deps c) \<subseteq> set os"
    "\<forall>c \<in> set K. map_of remaining c = Some (int (card (set (deps c) - set os)))"
    using I by (simp_all add: kahn_inv_def)
  have k: "k \<in> set K" "k \<notin> set os" "set (deps k) \<subseteq> set os"
    using inv(4) [of k] last_in_set [OF assms(3)] last by simp_all
  obtain cs where cs: "map_of children k = Some cs" "distinct cs"
    "set cs = {c \<in> set K. k \<in> set (deps c)}"
    using G k(1) unfolding graph_input_def by blast
  obtain remaining' new where rel: "release_children cs remaining (butlast ready)
        = Inr (remaining', butlast ready @ new)" "distinct new"
    and new: "\<And>c. c \<in> set new \<longleftrightarrow> c \<in> set K \<and> k \<in> set (deps c) \<and> set (deps c) \<subseteq> set (os @ [k])"
    and counts': "\<forall>c \<in> set K. map_of remaining' c = Some (int (card (set (deps c) - set (os @ [k]))))"
    using kahn_release [where deps = deps, OF cs(2,3) inv(5) k(2), of "butlast ready"] by blast
  have not_os: "c \<notin> set os" if "k \<in> set (deps c)" for c
    using topo_order_closed [OF inv(1)] k(2) that by blast
  have split_ready: "c \<in> set (butlast ready) \<longleftrightarrow> c \<in> set ready \<and> c \<noteq> k" for c
    by (rule butlast_mem [OF assms(3) inv(3), unfolded last])
  have "set (butlast ready) \<inter> set new = {}"
    using inv(4) new split_ready k(2) by blast
  then have dist: "distinct (butlast ready @ new)"
    using inv(3) rel(2) by (simp add: distinct_butlast)
  have no_self: "k \<notin> set (deps k)" using k by blast
  have set_eq: "c \<in> set (butlast ready @ new) \<longleftrightarrow>
      c \<in> set K \<and> c \<notin> set (os @ [k]) \<and> set (deps c) \<subseteq> set (os @ [k])" for c
  proof (cases "k \<in> set (deps c)")
    case True
    then have "c \<notin> set ready" "c \<notin> set os" "c \<noteq> k" using inv(4) k(2) not_os no_self by blast+
    with True show ?thesis using split_ready [of c] new [of c] by simp
  next
    case False
    then have "set (deps c) \<subseteq> set (os @ [k]) \<longleftrightarrow> set (deps c) \<subseteq> set os" by auto
    with False show ?thesis using split_ready [of c] new [of c] inv(4) [of c] by auto
  qed
  have "kahn_inv K deps remaining' (butlast ready @ new) (os @ [k])"
    unfolding kahn_inv_def
  proof (intro conjI)
    show "topo_order deps (os @ [k])" using inv(1) k(2,3) by (rule topo_snoc)
    show "set (os @ [k]) \<subseteq> set K" using inv(2) k(1) by simp
    show "\<forall>c \<in> set K. map_of remaining' c = Some (int (card (set (deps c) - set (os @ [k]))))"
      by (rule counts')
    show "distinct (butlast ready @ new)" by (rule dist)
    show "set (butlast ready @ new) =
        {c \<in> set K. c \<notin> set (os @ [k]) \<and> set (deps c) \<subseteq> set (os @ [k])}"
      using set_eq by blast
  qed
  with cs(1) rel(1) last show ?thesis by blast
qed

lemma kahn_loop_result:
  assumes "graph_input K deps children" "kahn_inv K deps remaining ready os"
  shows "\<exists>os'. kahn_loop children remaining ready (int (length os)) = Inr (int (length os'))
     \<and> topo_order deps os' \<and> set os' \<subseteq> set K
     \<and> (\<forall>k \<in> set K. k \<notin> set os' \<longrightarrow> \<not> set (deps k) \<subseteq> set os')"
  using assms(2)
proof (induction "length ready + positive_counters remaining" arbitrary: remaining ready os
    rule: less_induct)
  case less
  show ?case
  proof (cases "ready = []")
    case True
    with less.prems show ?thesis by (auto simp: kahn_loop.simps kahn_inv_def)
  next
    case False
    obtain cs remaining' ready' where step: "map_of children (last ready) = Some cs"
      "release_children cs remaining (butlast ready) = Inr (remaining', ready')"
      "kahn_inv K deps remaining' ready' (os @ [last ready])"
      using kahn_step [OF assms(1) less.prems False] by blast
    have "length ready' + positive_counters remaining' < length ready + positive_counters remaining"
    proof -
      have "length (butlast ready) < length ready" using False by simp
      with release_children_measure [OF step(2)] show ?thesis by linarith
    qed
    from less.hyps [OF this step(3)] show ?thesis
      using False step(1,2) kahn_loop.simps [of children remaining ready "int (length os)"]
      by (simp add: add.commute)
  qed
qed

text \<open>
  Started with the in-degrees and the keys of in-degree 0, the loop processes all keys exactly
  when the graph has no cycle.
\<close>

lemma kahn_correct:
  assumes G: "graph_input K deps children"
    and rem: "\<forall>k \<in> set K. map_of remaining k = Some (int (length (deps k)))"
    and ready: "distinct ready" "set ready = {k \<in> set K. deps k = []}"
  shows "\<exists>n. kahn_loop children remaining ready 0 = Inr n
     \<and> (n = int (length K) \<longleftrightarrow> acyclic (edges (set K) deps))"
proof -
  have "kahn_inv K deps remaining ready []"
    using G rem ready by (auto simp: kahn_inv_def graph_input_def distinct_card topo_Nil)
  from kahn_loop_result [OF G this] obtain os where
    os: "kahn_loop children remaining ready 0 = Inr (int (length os))" "topo_order deps os"
      "set os \<subseteq> set K" "\<forall>k \<in> set K. k \<notin> set os \<longrightarrow> \<not> set (deps k) \<subseteq> set os"
    by auto
  have len: "length os = card (set os)" "length K = card (set K)"
    using topo_order_distinct [OF os(2)] G by (simp_all add: distinct_card graph_input_def)
  have "length os = length K \<longleftrightarrow> acyclic (edges (set K) deps)"
  proof
    assume "length os = length K"
    then have "set os = set K" using os(3) len by (simp add: card_subset_eq)
    then obtain rank :: "'a \<Rightarrow> nat" where "\<forall>k \<in> set K. \<forall>d \<in> set (deps k). rank d < rank k"
      using topo_order_rank [OF os(2)] by auto
    then show "acyclic (edges (set K) deps)"
      by (intro rank_acyclic [of _ rank]) (auto simp: edges_def)
  next
    assume "acyclic (edges (set K) deps)"
    then have wf: "wf (edges (set K) deps)"
      by (intro finite_acyclic_wf finite_edges) simp_all
    have "set K - set os = {}"
    proof (rule ccontr)
      assume "set K - set os \<noteq> {}"
      then obtain k where k: "k \<in> set K - set os"
        and min: "\<And>d. (d, k) \<in> edges (set K) deps \<Longrightarrow> d \<notin> set K - set os"
        using wf by (metis wf_eq_minimal ex_in_conv)
      then obtain d where "d \<in> set (deps k)" "d \<notin> set os" using os(4) by auto
      moreover then have "d \<in> set K" using G k by (auto simp: graph_input_def)
      ultimately show False using min [of d] k by (auto simp: edges_def)
    qed
    then show "length os = length K" using os(3) len by (metis Diff_eq_empty_iff subset_antisym)
  qed
  with os(1) show ?thesis by auto
qed

end
