(* ===== verification/Definition_Validation.thy ===== *)
theory Definition_Validation
  imports Dependency_Graph Plugins
begin

text \<open>
  Validation of a workflow definition request and creation of its domain definitions
  (\<open>application/workflow_definitions/\<close>: \<open>models.py\<close> and the private helpers of
  \<open>services.py\<close>). The validator is characterised as a decision procedure: it accepts exactly
  the requests whose tasks form a non-empty acyclic graph over unique keys with usable plugins,
  and what it accepts is turned into definitions that carry the same graph over identifiers.
\<close>

section \<open>Requests\<close>

record create_task_definition =
  ct_plugin_type :: string
  ct_key :: string
  ct_configuration :: json_object
  ct_dependencies :: "string list"
  ct_max_tries :: int

record create_trigger_definition =
  cg_plugin_type :: string
  cg_configuration :: json_object
  cg_enabled :: bool

record create_workflow_definition =
  cw_name :: string
  cw_description :: string
  cw_tasks :: "create_task_definition list"
  cw_triggers :: "create_trigger_definition list"
  cw_enabled :: bool

section \<open>Validation\<close>

definition invalid :: "invalid_definition \<Rightarrow> 'a result" where
  "invalid reason = Inl (InvalidWorkflowDefinitionError reason)"

text \<open>
  \<open>try: plugin = registry.get(...); plugin.validate_configuration(...)\<close> with its \<open>except\<close>
  clause, which turns a rejected configuration, and no other exception, into an invalid definition.
\<close>

definition resolve_plugin ::
  "(string \<Rightarrow> invalid_definition) \<Rightarrow> 'p registry \<Rightarrow> string \<Rightarrow> json_object \<Rightarrow> 'p plugin_scheme result" where
  "resolve_plugin reason reg ty configuration =
     (case bind_result (registry_get reg ty) (\<lambda>p.
           bind_result (pl_validate p configuration) (\<lambda>_. Inr p)) of
        Inl (InvalidPluginConfigurationError message) \<Rightarrow> invalid (reason message)
      | r \<Rightarrow> r)"

definition validate_task :: "'p registry \<Rightarrow> string set \<Rightarrow> create_task_definition \<Rightarrow> unit result" where
  "validate_task reg seen_keys task =
     (if ct_max_tries task < 1 then invalid (NoMaxTries (ct_key task) (ct_max_tries task))
      else if \<not> registry_contains reg (ct_plugin_type task)
      then invalid (UnknownTaskPlugin (ct_plugin_type task))
      else bind_result (resolve_plugin (InvalidTaskConfiguration (ct_key task)) reg
                          (ct_plugin_type task) (ct_configuration task)) (\<lambda>_.
        if ct_key task \<in> set (ct_dependencies task) then invalid (SelfDependency (ct_key task))
        else if length (ct_dependencies task) \<noteq> card (set (ct_dependencies task))
        then invalid (DuplicateDependencies (ct_key task))
        else case find (\<lambda>dependency. dependency \<notin> seen_keys) (ct_dependencies task) of
               Some dependency \<Rightarrow> invalid (UnknownDependency (ct_key task) dependency)
             | None \<Rightarrow> Inr ()))"

text \<open>The two nested loops \<open>children[dependency].append(task.key)\<close>.\<close>

fun append_child :: "'v \<Rightarrow> 'k list \<Rightarrow> ('k \<times> 'v list) list \<Rightarrow> ('k \<times> 'v list) list result" where
  "append_child key [] children = Inr children"
| "append_child key (dependency # dependencies) children =
     bind_result (dict_get children dependency) (\<lambda>ks.
       append_child key dependencies (AList.update dependency (ks @ [key]) children))"

fun build_children :: "create_task_definition list \<Rightarrow> (string \<times> string list) list \<Rightarrow> (string \<times> string list) list result" where
  "build_children [] children = Inr children"
| "build_children (task # tasks) children =
     bind_result (append_child (ct_key task) (ct_dependencies task) children) (build_children tasks)"

definition has_dependency_cycle :: "create_task_definition list \<Rightarrow> bool result" where
  "has_dependency_cycle tasks =
     (let remaining_dependencies =
            dict_of (map (\<lambda>task. (ct_key task, int (length (ct_dependencies task)))) tasks)
      in bind_result (build_children tasks (dict_of (map (\<lambda>task. (ct_key task, [])) tasks)))
         (\<lambda>children.
            let ready = map fst (filter (\<lambda>(key, dependency_count). dependency_count = 0)
                                   remaining_dependencies)
            in bind_result (kahn_loop children remaining_dependencies ready 0)
                 (\<lambda>processed. Inr (processed \<noteq> int (length tasks)))))"

definition validate_tasks :: "'p registry \<Rightarrow> create_task_definition list \<Rightarrow> unit result" where
  "validate_tasks reg tasks =
     (if tasks = [] then invalid NoTasks
      else
        let seen_keys = ct_key ` set tasks in
        if card seen_keys \<noteq> length tasks then invalid DuplicateTaskKeys
        else bind_result (map_result (validate_task reg seen_keys) tasks) (\<lambda>_.
             bind_result (has_dependency_cycle tasks) (\<lambda>cyclic.
               if cyclic then invalid DependencyCycle else Inr ())))"

section \<open>Definitions from requests\<close>

text \<open>
  \<open>uuid4\<close> is drawn once per task by the dictionary comprehension, once per trigger by the loop
  over the triggers, and once for the workflow; \<open>fresh n\<close> is the \<open>n\<close>-th draw of the call.
\<close>

definition task_ids_of :: "(nat \<Rightarrow> uuid) \<Rightarrow> create_task_definition list \<Rightarrow> (string \<times> uuid) list" where
  "task_ids_of fresh tasks = dict_of (map (\<lambda>(i, task). (ct_key task, fresh i)) (enumerate 0 tasks))"

definition create_task_definitions ::
  "(nat \<Rightarrow> uuid) \<Rightarrow> create_task_definition list \<Rightarrow> task_definition list result" where
  "create_task_definitions fresh tasks =
     (let task_ids = task_ids_of fresh tasks
      in map_result (\<lambda>task.
           bind_result (dict_get task_ids (ct_key task)) (\<lambda>tid.
           bind_result (map_result (dict_get task_ids) (ct_dependencies task)) (\<lambda>dependencies.
             Inr \<lparr>td_id = tid, td_plugin_type = ct_plugin_type task, td_key = ct_key task,
                  td_configuration = ct_configuration task, td_dependencies = dependencies,
                  td_max_tries = ct_max_tries task\<rparr>))) tasks)"

fun create_trigger_definitions ::
  "'p registry \<Rightarrow> (nat \<Rightarrow> uuid) \<Rightarrow> create_trigger_definition list
   \<Rightarrow> (trigger_definition \<times> 'p plugin_scheme) list result" where
  "create_trigger_definitions reg fresh [] = Inr []"
| "create_trigger_definitions reg fresh (trigger # triggers) =
     (if \<not> registry_contains reg (cg_plugin_type trigger)
      then invalid (UnknownTriggerPlugin (cg_plugin_type trigger))
      else bind_result (resolve_plugin (InvalidTriggerConfiguration (cg_plugin_type trigger)) reg
                          (cg_plugin_type trigger) (cg_configuration trigger)) (\<lambda>plugin.
           bind_result (create_trigger_definitions reg (\<lambda>i. fresh (Suc i)) triggers) (\<lambda>rest.
             Inr ((\<lparr>tr_id = fresh 0, tr_plugin_type = cg_plugin_type trigger,
                    tr_configuration = cg_configuration trigger,
                    tr_enabled = cg_enabled trigger\<rparr>, plugin) # rest))))"

text \<open>
  \<open>_validate_triggers\<close> resolves the same plugins and raises the same errors; \<open>create\<close> uses
  \<open>_create_trigger_definitions\<close> instead.
\<close>

definition validate_triggers ::
  "'p registry \<Rightarrow> create_trigger_definition list \<Rightarrow> 'p plugin_scheme list result" where
  "validate_triggers reg triggers =
     map_result (\<lambda>trigger.
         if \<not> registry_contains reg (cg_plugin_type trigger)
         then invalid (UnknownTriggerPlugin (cg_plugin_type trigger))
         else resolve_plugin (InvalidTriggerConfiguration (cg_plugin_type trigger)) reg
                (cg_plugin_type trigger) (cg_configuration trigger)) triggers"

section \<open>The cycle check\<close>

definition dependency_edges :: "create_task_definition list \<Rightarrow> (string \<times> string) set" where
  "dependency_edges tasks = {(d, ct_key t) | d t. t \<in> set tasks \<and> d \<in> set (ct_dependencies t)}"

definition deps_of :: "create_task_definition list \<Rightarrow> string \<Rightarrow> string list" where
  "deps_of tasks k = (case map_of (map (\<lambda>t. (ct_key t, ct_dependencies t)) tasks) k of
                        None \<Rightarrow> [] | Some ds \<Rightarrow> ds)"

definition edges_declared :: "create_task_definition list \<Rightarrow> bool" where
  "edges_declared tasks \<longleftrightarrow>
     distinct (map ct_key tasks)
     \<and> (\<forall>t \<in> set tasks. distinct (ct_dependencies t) \<and> set (ct_dependencies t) \<subseteq> ct_key ` set tasks)"

lemma deps_of_task:
  "distinct (map ct_key tasks) \<Longrightarrow> t \<in> set tasks \<Longrightarrow> deps_of tasks (ct_key t) = ct_dependencies t"
proof -
  assume "distinct (map ct_key tasks)" "t \<in> set tasks"
  then have "map_of (map (\<lambda>t. (ct_key t, ct_dependencies t)) tasks) (ct_key t) = Some (ct_dependencies t)"
    by (intro map_of_is_SomeI) (auto simp: comp_def)
  then show ?thesis by (simp add: deps_of_def)
qed

lemma edges_deps_of:
  "distinct (map ct_key tasks) \<Longrightarrow> edges (set (map ct_key tasks)) (deps_of tasks) = dependency_edges tasks"
  by (auto simp: edges_def dependency_edges_def deps_of_task)

lemma append_child_eq:
  "distinct ds \<Longrightarrow> \<forall>d \<in> set ds. map_of children d \<noteq> None \<Longrightarrow>
   \<exists>children'. append_child key ds children = Inr children'
     \<and> (\<forall>k. map_of children' k = (if k \<in> set ds then map_option (\<lambda>ks. ks @ [key]) (map_of children k)
                                  else map_of children k))"
proof (induction ds arbitrary: children)
  case Nil
  then show ?case by simp
next
  case (Cons d ds)
  obtain ks where ks: "map_of children d = Some ks" using Cons.prems(2) by auto
  let ?children = "AList.update d (ks @ [key]) children"
  have upd: "map_of ?children = (map_of children)(d \<mapsto> ks @ [key])" by (rule update_conv')
  have "distinct ds" "\<forall>e \<in> set ds. map_of ?children e \<noteq> None"
    using Cons.prems by (simp_all add: upd)
  from Cons.IH [OF this] obtain children' where c: "append_child key ds ?children = Inr children'"
    "\<forall>k. map_of children' k = (if k \<in> set ds then map_option (\<lambda>ks. ks @ [key]) (map_of ?children k)
                              else map_of ?children k)"
    by blast
  then have "append_child key (d # ds) children = Inr children'" using ks by simp
  moreover have "\<forall>k. map_of children' k =
      (if k \<in> set (d # ds) then map_option (\<lambda>ks. ks @ [key]) (map_of children k) else map_of children k)"
    using c(2) ks Cons.prems(1) by (simp add: upd)
  ultimately show ?case by blast
qed

lemma build_children_eq:
  "\<forall>t \<in> set tasks. distinct (ct_dependencies t) \<and> (\<forall>d \<in> set (ct_dependencies t). map_of children d \<noteq> None) \<Longrightarrow>
   \<exists>children'. build_children tasks children = Inr children'
     \<and> (\<forall>k. map_of children' k = map_option
            (\<lambda>ks. ks @ map ct_key (filter (\<lambda>t. k \<in> set (ct_dependencies t)) tasks)) (map_of children k))"
proof (induction tasks arbitrary: children)
  case Nil
  then show ?case by (simp add: option.map_ident)
next
  case (Cons t tasks)
  obtain mid where mid: "append_child (ct_key t) (ct_dependencies t) children = Inr mid"
    and mid_map: "\<forall>k. map_of mid k = (if k \<in> set (ct_dependencies t)
         then map_option (\<lambda>ks. ks @ [ct_key t]) (map_of children k) else map_of children k)"
    using append_child_eq [of "ct_dependencies t" children "ct_key t"] Cons.prems by auto
  have dom: "map_of mid d \<noteq> None \<longleftrightarrow> map_of children d \<noteq> None" for d using mid_map by auto
  have "\<forall>u \<in> set tasks. distinct (ct_dependencies u) \<and> (\<forall>d \<in> set (ct_dependencies u). map_of mid d \<noteq> None)"
    unfolding dom using Cons.prems by simp
  from Cons.IH [OF this] obtain children' where c: "build_children tasks mid = Inr children'"
    "\<forall>k. map_of children' k = map_option
        (\<lambda>ks. ks @ map ct_key (filter (\<lambda>t. k \<in> set (ct_dependencies t)) tasks)) (map_of mid k)"
    by blast
  have "build_children (t # tasks) children = Inr children'" using mid c(1) by simp
  moreover have "\<forall>k. map_of children' k = map_option
        (\<lambda>ks. ks @ map ct_key (filter (\<lambda>t. k \<in> set (ct_dependencies t)) (t # tasks))) (map_of children k)"
    using c(2) mid_map by (simp add: option.map_comp comp_def)
  ultimately show ?case by blast
qed

lemma map_of_keys: "map_of (map (\<lambda>t. (f t, g)) ts) k = (if k \<in> f ` set ts then Some g else None)"
  by (induction ts) auto

lemma graph_input_tasks:
  assumes "edges_declared tasks"
    and ch: "\<And>k. k \<in> ct_key ` set tasks \<Longrightarrow>
      map_of children k = Some (map ct_key (filter (\<lambda>t. k \<in> set (ct_dependencies t)) tasks))"
  shows "graph_input (map ct_key tasks) (deps_of tasks) children"
  unfolding graph_input_def
proof (intro conjI ballI)
  show dist: "distinct (map ct_key tasks)" using assms(1) by (simp add: edges_declared_def)
  fix k assume "k \<in> set (map ct_key tasks)"
  then obtain t where t: "t \<in> set tasks" "k = ct_key t" by auto
  then have "deps_of tasks k = ct_dependencies t" using dist by (simp add: deps_of_task)
  then show "distinct (deps_of tasks k)" "set (deps_of tasks k) \<subseteq> set (map ct_key tasks)"
    using assms(1) t(1) by (simp_all add: edges_declared_def)
  let ?cs = "map ct_key (filter (\<lambda>t. k \<in> set (ct_dependencies t)) tasks)"
  have "c \<in> set ?cs \<longleftrightarrow> c \<in> set (map ct_key tasks) \<and> k \<in> set (deps_of tasks c)" for c
  proof
    assume "c \<in> set ?cs"
    then obtain u where "u \<in> set tasks" "c = ct_key u" "k \<in> set (ct_dependencies u)" by auto
    then show "c \<in> set (map ct_key tasks) \<and> k \<in> set (deps_of tasks c)"
      using deps_of_task [OF dist] by simp
  next
    assume "c \<in> set (map ct_key tasks) \<and> k \<in> set (deps_of tasks c)"
    then obtain u where "u \<in> set tasks" "c = ct_key u" "k \<in> set (deps_of tasks c)" by auto
    then show "c \<in> set ?cs" using deps_of_task [OF dist, of u] by simp
  qed
  then have "set ?cs = {c \<in> set (map ct_key tasks). k \<in> set (deps_of tasks c)}" by blast
  moreover have "distinct ?cs" using dist by (rule distinct_map_filter)
  moreover have "map_of children k = Some ?cs" by (rule ch) (simp add: t)
  ultimately show "\<exists>cs. map_of children k = Some cs \<and> distinct cs
      \<and> set cs = {c \<in> set (map ct_key tasks). k \<in> set (deps_of tasks c)}"
    by blast
qed

lemma ready_keys:
  assumes "distinct (map ct_key tasks)"
  shows "set (map fst (filter (\<lambda>(key, n). n = 0)
           (map (\<lambda>t. (ct_key t, int (length (ct_dependencies t)))) tasks)))
       = {k \<in> set (map ct_key tasks). deps_of tasks k = []}"
proof -
  have "set (map fst (filter (\<lambda>(key, n). n = 0)
           (map (\<lambda>t. (ct_key t, int (length (ct_dependencies t)))) tasks)))
       = ct_key ` {t \<in> set tasks. ct_dependencies t = []}"
    by (force simp: image_iff)
  also have "\<dots> = ct_key ` {t \<in> set tasks. deps_of tasks (ct_key t) = []}"
    using deps_of_task [OF assms] by (intro arg_cong [of _ _ "image ct_key"] Collect_cong) auto
  also have "\<dots> = {k \<in> set (map ct_key tasks). deps_of tasks k = []}" by auto
  finally show ?thesis .
qed

lemma cycle_check_correct:
  assumes "edges_declared tasks"
  shows "has_dependency_cycle tasks = Inr (\<not> acyclic (dependency_edges tasks))"
proof -
  let ?K = "map ct_key tasks" and ?c0 = "map (\<lambda>t. (ct_key t, [] :: string list)) tasks"
  let ?rem = "map (\<lambda>t. (ct_key t, int (length (ct_dependencies t)))) tasks"
  have dist: "distinct ?K" and deps: "\<forall>t \<in> set tasks. distinct (ct_dependencies t)
      \<and> set (ct_dependencies t) \<subseteq> ct_key ` set tasks"
    using assms by (simp_all add: edges_declared_def)
  have d0: "dict_of ?c0 = ?c0" "dict_of ?rem = ?rem"
    using dist by (simp_all add: comp_def)
  have "\<forall>t \<in> set tasks. distinct (ct_dependencies t) \<and> (\<forall>d \<in> set (ct_dependencies t). map_of ?c0 d \<noteq> None)"
    using deps by (auto simp: map_of_keys)
  from build_children_eq [OF this] obtain children where
    build: "build_children tasks ?c0 = Inr children"
    and ch: "\<forall>k. map_of children k = map_option
        (\<lambda>ks. ks @ map ct_key (filter (\<lambda>t. k \<in> set (ct_dependencies t)) tasks)) (map_of ?c0 k)"
    by blast
  have G: "graph_input ?K (deps_of tasks) children"
    by (rule graph_input_tasks [OF assms]) (use ch in \<open>simp add: map_of_keys\<close>)
  have rem: "\<forall>k \<in> set ?K. map_of ?rem k = Some (int (length (deps_of tasks k)))"
  proof
    fix k assume "k \<in> set ?K"
    then obtain t where t: "t \<in> set tasks" "k = ct_key t" by auto
    then have "map_of ?rem k = Some (int (length (ct_dependencies t)))"
      using dist by (intro map_of_is_SomeI) (auto simp: comp_def)
    then show "map_of ?rem k = Some (int (length (deps_of tasks k)))"
      using t dist by (simp add: deps_of_task)
  qed
  let ?ready = "map fst (filter (\<lambda>(key, n). n = 0) ?rem)"
  have "distinct (map fst ?rem)" using dist by (simp add: comp_def)
  then have "distinct ?ready" by (rule distinct_map_filter)
  moreover have "set ?ready = {k \<in> set ?K. deps_of tasks k = []}"
    by (rule ready_keys [OF dist])
  ultimately obtain n where "kahn_loop children ?rem ?ready 0 = Inr n"
    "n = int (length ?K) \<longleftrightarrow> acyclic (edges (set ?K) (deps_of tasks))"
    using kahn_correct [OF G rem] by blast
  then have "(n \<noteq> int (length tasks)) = (\<not> acyclic (dependency_edges tasks))"
    unfolding edges_deps_of [OF dist] length_map by blast
  with build \<open>kahn_loop children ?rem ?ready 0 = Inr n\<close> show ?thesis
    by (simp only: has_dependency_cycle_def Let_def d0 bind_result_simps)
qed

section \<open>The validator decides validity\<close>

lemma invalid_neq [simp]: "invalid r \<noteq> Inr x"
  by (simp add: invalid_def)

lemma resolve_plugin_Inr_iff:
  "resolve_plugin reason reg ty conf = Inr p \<longleftrightarrow>
     registry_get reg ty = Inr p \<and> pl_validate p conf = Inr ()"
  by (auto simp: resolve_plugin_def bind_result_eq_Inr_iff bind_result_def split: sum.splits exn.splits)

lemma map_result_ok_iff: "(\<exists>ys. map_result f xs = Inr ys) \<longleftrightarrow> (\<forall>x \<in> set xs. \<exists>y. f x = Inr y)"
proof (induction xs)
  case Nil
  then show ?case by simp
next
  case (Cons x xs)
  then show ?case by (cases "f x") (auto simp: bind_result_eq_Inr_iff)
qed

lemma map_result_Inl: "map_result f xs = Inl e \<Longrightarrow> \<exists>x \<in> set xs. f x = Inl e"
  by (induction xs) (auto simp: bind_result_def split: sum.splits)

lemma map_result_length: "map_result f xs = Inr ys \<Longrightarrow> length ys = length xs"
  by (induction xs arbitrary: ys) (auto simp: bind_result_eq_Inr_iff)

definition task_acceptable :: "'p registry \<Rightarrow> string set \<Rightarrow> create_task_definition \<Rightarrow> bool" where
  "task_acceptable reg keys task \<longleftrightarrow>
     1 \<le> ct_max_tries task
     \<and> (\<exists>p. registry_get reg (ct_plugin_type task) = Inr p \<and> pl_validate p (ct_configuration task) = Inr ())
     \<and> ct_key task \<notin> set (ct_dependencies task)
     \<and> distinct (ct_dependencies task) \<and> set (ct_dependencies task) \<subseteq> keys"

lemma card_distinct_iff: "length xs = card (set xs) \<longleftrightarrow> distinct xs"
  by (metis card_distinct distinct_card)

lemma validate_task_iff: "validate_task reg keys task = Inr () \<longleftrightarrow> task_acceptable reg keys task"
proof -
  have known: "set ds \<subseteq> keys \<longleftrightarrow> find (\<lambda>d. d \<notin> keys) ds = None" for ds
    by (auto simp: find_None_iff)
  show ?thesis
    unfolding validate_task_def task_acceptable_def known card_distinct_iff [symmetric]
      registry_get_iff_contains [symmetric]
    by (auto simp: bind_result_eq_Inr_iff resolve_plugin_Inr_iff split: option.splits)
qed

text \<open>What a request must satisfy: the specification of the validator, free of its algorithms.\<close>

definition tasks_acceptable :: "'p registry \<Rightarrow> create_task_definition list \<Rightarrow> bool" where
  "tasks_acceptable reg tasks \<longleftrightarrow>
     tasks \<noteq> [] \<and> distinct (map ct_key tasks)
     \<and> (\<forall>t \<in> set tasks. task_acceptable reg (ct_key ` set tasks) t)
     \<and> acyclic (dependency_edges tasks)"

lemma acceptable_edges_declared:
  "distinct (map ct_key tasks) \<Longrightarrow> \<forall>t \<in> set tasks. task_acceptable reg (ct_key ` set tasks) t \<Longrightarrow>
   edges_declared tasks"
  by (simp add: edges_declared_def task_acceptable_def)

lemma validate_tasks_unfold:
  "validate_tasks reg tasks = Inr () \<longleftrightarrow>
     tasks \<noteq> [] \<and> distinct (map ct_key tasks)
     \<and> (\<forall>t \<in> set tasks. task_acceptable reg (ct_key ` set tasks) t)
     \<and> has_dependency_cycle tasks = Inr False"
proof -
  have "card (ct_key ` set tasks) = length tasks \<longleftrightarrow> distinct (map ct_key tasks)"
    using card_distinct_iff [of "map ct_key tasks"] by auto
  moreover have "(\<exists>us. map_result (validate_task reg (ct_key ` set tasks)) tasks = Inr us) \<longleftrightarrow>
      (\<forall>t \<in> set tasks. task_acceptable reg (ct_key ` set tasks) t)"
    by (simp add: map_result_ok_iff validate_task_iff [symmetric])
  ultimately show ?thesis
    by (auto simp: validate_tasks_def Let_def bind_result_eq_Inr_iff split: if_splits)
qed

lemma validate_tasks_acceptable:
  "validate_tasks reg tasks = Inr () \<longleftrightarrow> tasks_acceptable reg tasks"
  using cycle_check_correct [OF acceptable_edges_declared [of tasks reg]]
  by (auto simp: validate_tasks_unfold tasks_acceptable_def)

definition rejects_only :: "'p registry \<Rightarrow> bool" where
  "rejects_only reg \<longleftrightarrow>
     (\<forall>(ty, p) \<in> set reg. \<forall>conf e. pl_validate p conf = Inl e \<longrightarrow>
        (\<exists>m. e = InvalidPluginConfigurationError m))"

lemma registry_get_in: "registry_get reg ty = Inr p \<Longrightarrow> (ty, p) \<in> set reg"
  by (auto simp: registry_get_def dest: map_of_SomeD split: option.splits)

lemma resolve_plugin_Inl:
  assumes "rejects_only reg" "registry_contains reg ty" "resolve_plugin reason reg ty conf = Inl e"
  shows "\<exists>r. e = InvalidWorkflowDefinitionError r"
proof -
  obtain p where p: "registry_get reg ty = Inr p"
    using assms(2) by (auto simp: registry_get_iff_contains [symmetric])
  show ?thesis
  proof (cases "pl_validate p conf")
    case (Inl e')
    then obtain m where "e' = InvalidPluginConfigurationError m"
      using assms(1) registry_get_in [OF p] unfolding rejects_only_def by blast
    with Inl p assms(3) show ?thesis by (auto simp: resolve_plugin_def invalid_def)
  next
    case (Inr u)
    with p assms(3) show ?thesis by (simp add: resolve_plugin_def)
  qed
qed

lemma validate_task_Inl:
  assumes "rejects_only reg" "validate_task reg keys task = Inl e"
  shows "\<exists>r. e = InvalidWorkflowDefinitionError r"
  using assms(2) resolve_plugin_Inl [OF assms(1), of "ct_plugin_type task"]
  by (auto simp: validate_task_def invalid_def bind_result_def
      split: if_splits sum.splits option.splits)

lemma validate_tasks_Inl:
  assumes "rejects_only reg" "validate_tasks reg tasks = Inl e"
  shows "\<exists>r. e = InvalidWorkflowDefinitionError r"
proof (cases "tasks = [] \<or> card (ct_key ` set tasks) \<noteq> length tasks")
  case True
  then show ?thesis using assms(2) by (auto simp: validate_tasks_def invalid_def split: if_splits)
next
  case False
  let ?checks = "map_result (validate_task reg (ct_key ` set tasks)) tasks"
  show ?thesis
  proof (cases ?checks)
    case (Inl e')
    then have "e' = e" using False assms(2) by (simp add: validate_tasks_def Let_def)
    then show ?thesis using map_result_Inl [OF Inl] validate_task_Inl [OF assms(1)] by blast
  next
    case (Inr us)
    then have "\<forall>t \<in> set tasks. task_acceptable reg (ct_key ` set tasks) t"
      using map_result_ok_iff [of "validate_task reg (ct_key ` set tasks)" tasks]
      by (simp add: validate_task_iff [symmetric])
    moreover have "distinct (map ct_key tasks)"
      using False card_distinct_iff [of "map ct_key tasks"] by simp
    ultimately have "has_dependency_cycle tasks = Inr (\<not> acyclic (dependency_edges tasks))"
      by (intro cycle_check_correct acceptable_edges_declared)
    then show ?thesis using False Inr assms(2)
      by (auto simp: validate_tasks_def Let_def invalid_def split: if_splits)
  qed
qed

section \<open>The definitions carry the requested graph\<close>

definition id_of_key :: "(nat \<Rightarrow> uuid) \<Rightarrow> create_task_definition list \<Rightarrow> string \<Rightarrow> uuid" where
  "id_of_key fresh tasks k =
     (case map_of (task_ids_of fresh tasks) k of None \<Rightarrow> fresh 0 | Some i \<Rightarrow> i)"

definition definition_of :: "(nat \<Rightarrow> uuid) \<Rightarrow> create_task_definition list \<Rightarrow> create_task_definition \<Rightarrow> task_definition" where
  "definition_of fresh tasks t =
     \<lparr>td_id = id_of_key fresh tasks (ct_key t), td_plugin_type = ct_plugin_type t,
      td_key = ct_key t, td_configuration = ct_configuration t,
      td_dependencies = map (id_of_key fresh tasks) (ct_dependencies t),
      td_max_tries = ct_max_tries t\<rparr>"

lemma map_key_enumerate:
  "map fst (map (\<lambda>(i, t). (ct_key t, fresh i)) (enumerate n tasks)) = map ct_key tasks"
  by (induction tasks arbitrary: n) simp_all

lemma task_ids_of_distinct:
  "distinct (map ct_key tasks) \<Longrightarrow>
   task_ids_of fresh tasks = map (\<lambda>(i, t). (ct_key t, fresh i)) (enumerate 0 tasks)"
  unfolding task_ids_of_def by (rule dict_of_distinct) (simp only: map_key_enumerate)

lemma id_of_key_nth:
  assumes "distinct (map ct_key tasks)" "i < length tasks"
  shows "map_of (task_ids_of fresh tasks) (ct_key (tasks ! i)) = Some (fresh i)"
  unfolding task_ids_of_distinct [OF assms(1)]
proof (rule map_of_is_SomeI)
  show "distinct (map fst (map (\<lambda>(i, t). (ct_key t, fresh i)) (enumerate 0 tasks)))"
    using assms(1) by (simp only: map_key_enumerate)
  have "(i, tasks ! i) \<in> set (enumerate 0 tasks)"
    using assms(2) by (simp add: in_set_enumerate_eq)
  then show "(ct_key (tasks ! i), fresh i) \<in> set (map (\<lambda>(i, t). (ct_key t, fresh i)) (enumerate 0 tasks))"
    by force
qed

lemma id_of_key_known:
  assumes "distinct (map ct_key tasks)" "k \<in> ct_key ` set tasks"
  shows "map_of (task_ids_of fresh tasks) k = Some (id_of_key fresh tasks k)"
proof -
  obtain i where "i < length tasks" "k = ct_key (tasks ! i)"
    using assms(2) by (auto simp: in_set_conv_nth)
  with id_of_key_nth [OF assms(1), of i fresh] show ?thesis by (simp add: id_of_key_def)
qed

lemma id_of_key_inj:
  assumes "distinct (map ct_key tasks)" "inj_on fresh {..<length tasks}"
  shows "inj_on (id_of_key fresh tasks) (ct_key ` set tasks)"
proof (rule inj_onI)
  fix k l assume "k \<in> ct_key ` set tasks" "l \<in> ct_key ` set tasks"
    and eq: "id_of_key fresh tasks k = id_of_key fresh tasks l"
  then obtain i j where ij: "i < length tasks" "k = ct_key (tasks ! i)"
    "j < length tasks" "l = ct_key (tasks ! j)"
    by (auto simp: in_set_conv_nth)
  then have "fresh i = fresh j"
    using eq id_of_key_nth [OF assms(1), of i fresh] id_of_key_nth [OF assms(1), of j fresh]
    by (simp add: id_of_key_def)
  then have "i = j" using assms(2) ij by (auto dest: inj_onD)
  then show "k = l" using ij by simp
qed

lemma create_task_definitions_eq:
  assumes "edges_declared tasks"
  shows "create_task_definitions fresh tasks = Inr (map (definition_of fresh tasks) tasks)"
  unfolding create_task_definitions_def Let_def
proof (rule map_result_Inr)
  fix t assume t: "t \<in> set tasks"
  have dist: "distinct (map ct_key tasks)" and sub: "set (ct_dependencies t) \<subseteq> ct_key ` set tasks"
    using assms t by (simp_all add: edges_declared_def)
  have key: "dict_get (task_ids_of fresh tasks) k = Inr (id_of_key fresh tasks k)"
    if "k \<in> ct_key ` set tasks" for k
    by (rule dict_get_Some [OF id_of_key_known [OF dist that]])
  have "map_result (dict_get (task_ids_of fresh tasks)) (ct_dependencies t)
      = Inr (map (id_of_key fresh tasks) (ct_dependencies t))"
    by (rule map_result_Inr) (use key sub in blast)
  then show "bind_result (dict_get (task_ids_of fresh tasks) (ct_key t)) (\<lambda>tid.
       bind_result (map_result (dict_get (task_ids_of fresh tasks)) (ct_dependencies t)) (\<lambda>dependencies.
         Inr \<lparr>td_id = tid, td_plugin_type = ct_plugin_type t, td_key = ct_key t,
              td_configuration = ct_configuration t, td_dependencies = dependencies,
              td_max_tries = ct_max_tries t\<rparr>)) = Inr (definition_of fresh tasks t)"
    using key [of "ct_key t"] t by (simp add: definition_of_def)
qed

text \<open>
  A well-formed list of task definitions: what every later component relies on. The graph is
  over identifiers, closed and acyclic, and every task may be tried at least once.
\<close>

definition definition_edges :: "task_definition list \<Rightarrow> (uuid \<times> uuid) set" where
  "definition_edges tds = {(d, td_id t) | d t. t \<in> set tds \<and> d \<in> set (td_dependencies t)}"

definition definition_ok :: "task_definition list \<Rightarrow> bool" where
  "definition_ok tds \<longleftrightarrow>
     tds \<noteq> [] \<and> distinct (map td_id tds) \<and> distinct (map td_key tds)
     \<and> (\<forall>t \<in> set tds. distinct (td_dependencies t) \<and> set (td_dependencies t) \<subseteq> td_id ` set tds
                      \<and> 1 \<le> td_max_tries t)
     \<and> acyclic (definition_edges tds)"

lemma finite_dependency_edges: "finite (dependency_edges tasks)"
proof -
  have "dependency_edges tasks = (\<Union>t \<in> set tasks. (\<lambda>d. (d, ct_key t)) ` set (ct_dependencies t))"
    by (auto simp: dependency_edges_def)
  then show ?thesis by simp
qed

lemma acyclic_renamed:
  assumes "finite r" "acyclic r" "inj_on f K" "r \<subseteq> K \<times> K"
  shows "acyclic ((\<lambda>(a, b). (f a, f b)) ` r)"
proof -
  have "wf (inv_image r (the_inv_into K f))"
    using assms(1,2) by (intro wf_inv_image finite_acyclic_wf)
  moreover have "(\<lambda>(a, b). (f a, f b)) ` r \<subseteq> inv_image r (the_inv_into K f)"
    using assms(3,4) by (auto simp: inv_image_def the_inv_into_f_f)
  ultimately show ?thesis by (meson wf_acyclic wf_subset)
qed

lemma definition_edges_renamed:
  "definition_edges (map (definition_of fresh tasks) tasks) =
     (\<lambda>(a, b). (id_of_key fresh tasks a, id_of_key fresh tasks b)) ` dependency_edges tasks"
  (is "?l = ?r")
proof (rule set_eqI)
  fix e
  show "e \<in> ?l \<longleftrightarrow> e \<in> ?r"
  proof
    assume "e \<in> ?l"
    then obtain t d where t: "t \<in> set tasks" "d \<in> set (ct_dependencies t)"
      "e = (id_of_key fresh tasks d, id_of_key fresh tasks (ct_key t))"
      by (auto simp: definition_edges_def definition_of_def)
    then have "(d, ct_key t) \<in> dependency_edges tasks" unfolding dependency_edges_def by blast
    then show "e \<in> ?r" using t(3) by (auto intro: rev_image_eqI)
  next
    assume "e \<in> ?r"
    then obtain t d where "t \<in> set tasks" "d \<in> set (ct_dependencies t)"
      "e = (id_of_key fresh tasks d, id_of_key fresh tasks (ct_key t))"
      by (auto simp: dependency_edges_def)
    then have "e = (id_of_key fresh tasks d, td_id (definition_of fresh tasks t))
        \<and> definition_of fresh tasks t \<in> set (map (definition_of fresh tasks) tasks)
        \<and> id_of_key fresh tasks d \<in> set (td_dependencies (definition_of fresh tasks t))"
      by (simp add: definition_of_def)
    then show "e \<in> ?l" unfolding definition_edges_def by blast
  qed
qed

lemma definitions_ok:
  assumes "tasks_acceptable reg tasks" "inj_on fresh {..<length tasks}"
  shows "definition_ok (map (definition_of fresh tasks) tasks)"
proof -
  have dist: "distinct (map ct_key tasks)" and ne: "tasks \<noteq> []"
    and acc: "\<forall>t \<in> set tasks. task_acceptable reg (ct_key ` set tasks) t"
    and acyc: "acyclic (dependency_edges tasks)"
    using assms(1) by (simp_all add: tasks_acceptable_def)
  let ?id = "id_of_key fresh tasks"
  note inj = id_of_key_inj [OF dist assms(2)]
  have ids: "map td_id (map (definition_of fresh tasks) tasks) = map ?id (map ct_key tasks)"
    by (simp add: definition_of_def comp_def)
  have "distinct (map td_id (map (definition_of fresh tasks) tasks))"
    unfolding ids using dist inj by (simp add: distinct_map comp_inj_on)
  moreover have "distinct (map td_key (map (definition_of fresh tasks) tasks))"
    using dist by (simp add: definition_of_def comp_def)
  moreover have "distinct (td_dependencies (definition_of fresh tasks t))
      \<and> set (td_dependencies (definition_of fresh tasks t)) \<subseteq> td_id ` set (map (definition_of fresh tasks) tasks)
      \<and> 1 \<le> td_max_tries (definition_of fresh tasks t)" if "t \<in> set tasks" for t
  proof -
    have t: "distinct (ct_dependencies t)" "set (ct_dependencies t) \<subseteq> ct_key ` set tasks"
      "1 \<le> ct_max_tries t"
      using acc that by (simp_all add: task_acceptable_def)
    have ids_set: "td_id ` set (map (definition_of fresh tasks) tasks) = ?id ` ct_key ` set tasks"
      by (simp add: image_image definition_of_def)
    have deps: "td_dependencies (definition_of fresh tasks t) = map ?id (ct_dependencies t)"
      "td_max_tries (definition_of fresh tasks t) = ct_max_tries t"
      by (simp_all add: definition_of_def)
    have "distinct (map ?id (ct_dependencies t))"
      using t(1) inj_on_subset [OF inj t(2)] by (simp add: distinct_map)
    moreover have "set (map ?id (ct_dependencies t)) \<subseteq> ?id ` ct_key ` set tasks"
      using image_mono [OF t(2), of ?id] by simp
    ultimately show ?thesis unfolding ids_set deps using t(3) by blast
  qed
  moreover
  have "dependency_edges tasks \<subseteq> (ct_key ` set tasks) \<times> (ct_key ` set tasks)"
    using acc by (auto simp: dependency_edges_def task_acceptable_def)
  then have acyc': "acyclic (definition_edges (map (definition_of fresh tasks) tasks))"
    unfolding definition_edges_renamed by (rule acyclic_renamed [OF finite_dependency_edges acyc inj])
  ultimately show ?thesis
    using ne acyc' unfolding definition_ok_def by auto
qed

lemma create_triggers_resolved:
  "create_trigger_definitions reg fresh triggers = Inr rs \<Longrightarrow>
   validate_triggers reg triggers = Inr (map snd rs)"
  by (induction triggers arbitrary: fresh rs)
    (auto simp: validate_triggers_def bind_result_eq_Inr_iff split: if_splits)

lemma create_triggers_Inl:
  assumes "rejects_only reg"
  shows "create_trigger_definitions reg fresh triggers = Inl e \<Longrightarrow> \<exists>r. e = InvalidWorkflowDefinitionError r"
proof (induction triggers arbitrary: fresh)
  case Nil
  then show ?case by simp
next
  case (Cons g gs)
  let ?r = "resolve_plugin (InvalidTriggerConfiguration (cg_plugin_type g)) reg
              (cg_plugin_type g) (cg_configuration g)"
  show ?case
  proof (cases "registry_contains reg (cg_plugin_type g)")
    case False
    then show ?thesis using Cons.prems by (auto simp: invalid_def)
  next
    case True
    show ?thesis
    proof (cases ?r)
      case (Inl e')
      with True Cons.prems have "e' = e" by simp
      with resolve_plugin_Inl [OF assms True Inl] show ?thesis by simp
    next
      case (Inr p)
      with True Cons.prems Cons.IH [of "\<lambda>i. fresh (Suc i)"] show ?thesis
        by (cases "create_trigger_definitions reg (\<lambda>i. fresh (Suc i)) gs") auto
    qed
  qed
qed

lemma create_triggers_ids:
  "create_trigger_definitions reg fresh triggers = Inr rs \<Longrightarrow>
   map (\<lambda>r. tr_id (fst r)) rs = map fresh [0..<length triggers]"
proof (induction triggers arbitrary: fresh rs)
  case Nil
  then show ?case by simp
next
  case (Cons g gs)
  then obtain p rest where rest: "create_trigger_definitions reg (\<lambda>i. fresh (Suc i)) gs = Inr rest"
    and rs: "map (\<lambda>r. tr_id (fst r)) rs = fresh 0 # map (\<lambda>r. tr_id (fst r)) rest"
    by (auto simp: bind_result_eq_Inr_iff split: if_splits)
  have "[0..<length (g # gs)] = 0 # map Suc [0..<length gs]"
    by (simp add: map_Suc_upt upt_conv_Cons del: upt_Suc)
  then have "map fresh [0..<length (g # gs)] = fresh 0 # map (\<lambda>i. fresh (Suc i)) [0..<length gs]"
    by (simp only: list.map map_map comp_def)
  with Cons.IH [OF rest] rs show ?case by simp
qed

end
