(* ===== verification/Repository_Interface.thy ===== *)
theory Repository_Interface
  imports Prelude
begin

text \<open>
  The contract of an aggregate repository as its clients rely on it: an aggregate that is stored
  under a new key is loaded back as it was, other aggregates are untouched, and removing one
  forgets exactly that one. The laws for sequences of calls follow once for all repositories.
\<close>

locale repository =
  fixes inv :: "'s \<Rightarrow> bool"
    and key :: "'d \<Rightarrow> 'k"
    and storable :: "'s \<Rightarrow> 'd \<Rightarrow> bool"
    and store :: "'d \<Rightarrow> 's \<Rightarrow> 's"
    and load :: "'k \<Rightarrow> 's \<Rightarrow> 'd option"
  assumes inv_store: "inv s \<Longrightarrow> storable s d \<Longrightarrow> inv (store d s)"
    and load_store: "inv s \<Longrightarrow> storable s d \<Longrightarrow> load k (store d s) = (if k = key d then Some d else load k s)"
    and storable_new: "inv s \<Longrightarrow> storable s d \<Longrightarrow> load (key d) s = None"
begin

fun storable_all :: "'s \<Rightarrow> 'd list \<Rightarrow> bool" where
  "storable_all s [] = True"
| "storable_all s (d # ds) = (storable s d \<and> storable_all (store d s) ds)"

lemma inv_store_all: "inv s \<Longrightarrow> storable_all s ds \<Longrightarrow> inv (fold store ds s)"
  by (induction ds arbitrary: s) (simp_all add: inv_store)

text \<open>What is stored stays stored, whatever is stored after it.\<close>

lemma load_kept:
  "inv s \<Longrightarrow> storable_all s ds \<Longrightarrow> load k s = Some d \<Longrightarrow> load k (fold store ds s) = Some d"
proof (induction ds arbitrary: s)
  case (Cons e es)
  have "k \<noteq> key e" using storable_new [of s e] Cons.prems by auto
  then have "load k (store e s) = Some d" using Cons.prems by (simp add: load_store)
  then show ?case using Cons by (simp add: inv_store)
qed simp

lemma load_stored:
  "inv s \<Longrightarrow> storable_all s ds \<Longrightarrow> d \<in> set ds \<Longrightarrow> load (key d) (fold store ds s) = Some d"
proof (induction ds arbitrary: s)
  case (Cons e es)
  show ?case
  proof (cases "d = e")
    case True
    then have "load (key d) (store e s) = Some d" using Cons.prems by (simp add: load_store)
    then show ?thesis using Cons.prems by (simp add: load_kept inv_store)
  next
    case False
    then show ?thesis using Cons by (simp add: inv_store)
  qed
qed simp

lemma load_unstored:
  "inv s \<Longrightarrow> storable_all s ds \<Longrightarrow> k \<notin> key ` set ds \<Longrightarrow> load k (fold store ds s) = load k s"
  by (induction ds arbitrary: s) (auto simp: inv_store load_store)

end

locale removable_repository = repository +
  fixes removable :: "'a \<Rightarrow> 'c \<Rightarrow> bool"
    and remove :: "'c \<Rightarrow> 'a \<Rightarrow> 'a"
  assumes inv_remove: "inv s \<Longrightarrow> removable s k \<Longrightarrow> inv (remove k s)"
    and load_remove: "inv s \<Longrightarrow> removable s k \<Longrightarrow> load j (remove k s) = (if j = k then None else load j s)"
begin

text \<open>Storing an aggregate and removing it again is not visible to any load.\<close>

lemma load_store_remove:
  assumes "inv s" "storable s d" "removable (store d s) (key d)"
  shows "load k (remove (key d) (store d s)) = load k s"
  using assms storable_new [OF assms(1,2)] by (simp add: load_remove inv_store load_store)

end

end
