(* ===== verification/Definition_Repository.thy ===== *)
theory Definition_Repository
  imports Database Definition_Validation Repository_Interface
begin

text \<open>
  The repository of workflow definitions (\<open>persistence/workflow_definitions/\<close>): the mapper
  between domain objects and rows, \<open>load\<close>, \<open>save\<close> and \<open>delete\<close>. A session flushes what is
  pending before every query, merge or bulk DELETE (SQLAlchemy's autoflush), so the constraints of
  PostgreSQL are checked statement by statement in the order of the code.
\<close>

section \<open>The mapper\<close>

definition definition_to_model :: "workflow_definition \<Rightarrow> workflow_definition_row" where
  "definition_to_model workflow =
     \<lparr>wdr_id = wd_id workflow, wdr_name = wd_name workflow,
      wdr_description = wd_description workflow, wdr_enabled = wd_enabled workflow\<rparr>"

definition definition_to_domain ::
  "workflow_definition_row \<Rightarrow> task_definition list \<Rightarrow> trigger_definition list \<Rightarrow> workflow_definition" where
  "definition_to_domain model tds trs =
     \<lparr>wd_id = wdr_id model, wd_name = wdr_name model, wd_description = wdr_description model,
      wd_task_definitions = tds, wd_trigger_definitions = trs, wd_enabled = wdr_enabled model\<rparr>"

definition task_definition_to_model :: "uuid \<Rightarrow> task_definition \<Rightarrow> task_definition_row" where
  "task_definition_to_model workflow_definition_id task =
     \<lparr>tdr_id = td_id task, tdr_workflow_definition_id = workflow_definition_id,
      tdr_key = td_key task, tdr_plugin_type = td_plugin_type task,
      tdr_configuration = td_configuration task, tdr_max_tries = td_max_tries task\<rparr>"

definition task_definition_to_domain :: "task_definition_row \<Rightarrow> uuid list \<Rightarrow> task_definition" where
  "task_definition_to_domain model dependency_ids =
     \<lparr>td_id = tdr_id model, td_plugin_type = tdr_plugin_type model, td_key = tdr_key model,
      td_configuration = tdr_configuration model, td_dependencies = dependency_ids,
      td_max_tries = tdr_max_tries model\<rparr>"

definition trigger_to_model :: "uuid \<Rightarrow> trigger_definition \<Rightarrow> trigger_definition_row" where
  "trigger_to_model workflow_definition_id trigger =
     \<lparr>trr_id = tr_id trigger, trr_workflow_definition_id = workflow_definition_id,
      trr_plugin_type = tr_plugin_type trigger, trr_configuration = tr_configuration trigger,
      trr_enabled = tr_enabled trigger\<rparr>"

definition trigger_to_domain :: "trigger_definition_row \<Rightarrow> trigger_definition" where
  "trigger_to_domain model =
     \<lparr>tr_id = trr_id model, tr_plugin_type = trr_plugin_type model,
      tr_configuration = trr_configuration model, tr_enabled = trr_enabled model\<rparr>"

definition dependency_to_model :: "uuid \<Rightarrow> uuid \<Rightarrow> dependency_row" where
  "dependency_to_model task_definition_id depends_on =
     \<lparr>dep_task_definition_id = task_definition_id, dep_depends_on = depends_on\<rparr>"

definition dependencies_to_models :: "task_definition \<Rightarrow> dependency_row list" where
  "dependencies_to_models task = map (dependency_to_model (td_id task)) (td_dependencies task)"

section \<open>Loading\<close>

text \<open>
  The dependency rows of the workflow's tasks, collected in a \<open>defaultdict(list)\<close>.
\<close>

definition add_dependency :: "dependency_row \<Rightarrow> (uuid \<times> uuid list) list \<Rightarrow> (uuid \<times> uuid list) list" where
  "add_dependency row lookup =
     AList.update (dep_task_definition_id row)
       ((case map_of lookup (dep_task_definition_id row) of None \<Rightarrow> [] | Some ids \<Rightarrow> ids)
         @ [dep_depends_on row]) lookup"

definition load_dependency_lookup :: "uuid \<Rightarrow> database \<Rightarrow> (uuid \<times> uuid list) list" where
  "load_dependency_lookup workflow_definition_id db =
     fold add_dependency
       (select_where (\<lambda>d. \<exists>t \<in> set (task_definitions db).
             tdr_id t = dep_task_definition_id d
             \<and> tdr_workflow_definition_id t = workflow_definition_id)
          (task_definition_dependencies db)) []"

definition load_definition :: "uuid \<Rightarrow> (database, workflow_definition option) op" where
  "load_definition workflow_definition_id db =
     (case lookup_row wdr_id workflow_definition_id (workflow_definitions db) of
        None \<Rightarrow> ret None db
      | Some workflow_model \<Rightarrow>
          (let dependency_lookup = load_dependency_lookup (wdr_id workflow_model) db;
               tds = map (\<lambda>m. task_definition_to_domain m
                           (case map_of dependency_lookup (tdr_id m) of None \<Rightarrow> [] | Some ids \<Rightarrow> ids))
                       (select_where (\<lambda>m. tdr_workflow_definition_id m = wdr_id workflow_model)
                         (task_definitions db));
               trs = map trigger_to_domain
                       (select_where (\<lambda>m. trr_workflow_definition_id m = wdr_id workflow_model)
                         (trigger_definitions db))
           in ret (Some (definition_to_domain workflow_model tds trs)) db))"

section \<open>Saving\<close>

text \<open>\<open>Session.merge\<close>: overwrite the row with the same primary key, or insert a new one.\<close>

definition merge_row :: "('r \<Rightarrow> 'k) \<Rightarrow> 'r \<Rightarrow> 'r list \<Rightarrow> 'r list" where
  "merge_row key r rows =
     (if key r \<in> key ` set rows then update_where (\<lambda>q. key q = key r) (\<lambda>_. r) rows
      else rows @ [r])"

definition merge_workflow :: "workflow_definition_row \<Rightarrow> (database, unit) op" where
  "merge_workflow w db =
     ret () (db\<lparr>workflow_definitions := merge_row wdr_id w (workflow_definitions db)\<rparr>)"

definition merge_task :: "task_definition_row \<Rightarrow> (database, unit) op" where
  "merge_task t db =
     (if \<not> int4 (tdr_max_tries t) then raise DataError db
      else if tdr_workflow_definition_id t \<notin> wdr_id ` set (workflow_definitions db)
         \<or> (\<exists>q \<in> set (task_definitions db). tdr_id q \<noteq> tdr_id t
              \<and> tdr_workflow_definition_id q = tdr_workflow_definition_id t \<and> tdr_key q = tdr_key t)
      then raise IntegrityError db
      else ret () (db\<lparr>task_definitions := merge_row tdr_id t (task_definitions db)\<rparr>))"

definition merge_dependency :: "dependency_row \<Rightarrow> (database, unit) op" where
  "merge_dependency d db =
     (if d \<in> set (task_definition_dependencies db) then ret () db
      else if dep_task_definition_id d \<notin> tdr_id ` set (task_definitions db)
         \<or> dep_depends_on d \<notin> tdr_id ` set (task_definitions db)
      then raise IntegrityError db
      else ret () (db\<lparr>task_definition_dependencies := task_definition_dependencies db @ [d]\<rparr>))"

definition merge_trigger :: "trigger_definition_row \<Rightarrow> (database, unit) op" where
  "merge_trigger t db =
     (if trr_workflow_definition_id t \<notin> wdr_id ` set (workflow_definitions db)
      then raise IntegrityError db
      else ret () (db\<lparr>trigger_definitions := merge_row trr_id t (trigger_definitions db)\<rparr>))"

text \<open>
  DELETE on \<open>task_definitions\<close>: refused while a dependency or a task execution refers to a
  deleted row. DELETE on \<open>trigger_definitions\<close> takes the scheduling state with it
  (\<open>ON DELETE CASCADE\<close>).
\<close>

definition delete_task_rows :: "(task_definition_row \<Rightarrow> bool) \<Rightarrow> (database, unit) op" where
  "delete_task_rows P db =
     (let gone = tdr_id ` {t \<in> set (task_definitions db). P t} in
      if (\<exists>d \<in> set (task_definition_dependencies db).
            dep_task_definition_id d \<in> gone \<or> dep_depends_on d \<in> gone)
         \<or> (\<exists>t \<in> set (task_executions db). t_task_definition_id t \<in> gone)
      then raise IntegrityError db
      else ret () (db\<lparr>task_definitions := delete_where P (task_definitions db)\<rparr>))"

definition delete_trigger_rows :: "(trigger_definition_row \<Rightarrow> bool) \<Rightarrow> (database, unit) op" where
  "delete_trigger_rows P db =
     (let gone = trr_id ` {t \<in> set (trigger_definitions db). P t} in
      ret () (db\<lparr>trigger_definitions := delete_where P (trigger_definitions db),
                 chronological_trigger_state :=
                   delete_where (\<lambda>s. cts_trigger_definition_id s \<in> gone)
                     (chronological_trigger_state db)\<rparr>))"

definition delete_dependencies_of :: "uuid \<Rightarrow> (database, unit) op" where
  "delete_dependencies_of task_id db =
     ret () (db\<lparr>task_definition_dependencies :=
        delete_where (\<lambda>d. dep_task_definition_id d = task_id) (task_definition_dependencies db)\<rparr>)"

definition synchronize_task :: "uuid \<Rightarrow> task_definition \<Rightarrow> (database, unit) op" where
  "synchronize_task workflow_definition_id task =
     andThen (merge_task (task_definition_to_model workflow_definition_id task)) (\<lambda>_.
     andThen (delete_dependencies_of (td_id task)) (\<lambda>_.
       for_each merge_dependency (dependencies_to_models task)))"

definition synchronize_tasks :: "workflow_definition \<Rightarrow> (database, unit) op" where
  "synchronize_tasks wd =
     (let current_task_ids = td_id ` set (wd_task_definitions wd) in
      andThen (delete_task_rows (\<lambda>t. tdr_workflow_definition_id t = wd_id wd
                                     \<and> tdr_id t \<notin> current_task_ids)) (\<lambda>_.
        for_each (synchronize_task (wd_id wd)) (wd_task_definitions wd)))"

definition synchronize_triggers :: "workflow_definition \<Rightarrow> (database, unit) op" where
  "synchronize_triggers wd =
     (let current_trigger_ids = tr_id ` set (wd_trigger_definitions wd) in
      andThen (delete_trigger_rows (\<lambda>t. trr_workflow_definition_id t = wd_id wd
                                        \<and> trr_id t \<notin> current_trigger_ids)) (\<lambda>_.
        for_each (\<lambda>t. merge_trigger (trigger_to_model (wd_id wd) t)) (wd_trigger_definitions wd)))"

definition save_definition :: "workflow_definition \<Rightarrow> (database, unit) op" where
  "save_definition wd =
     andThen (merge_workflow (definition_to_model wd)) (\<lambda>_.
     andThen (synchronize_tasks wd) (\<lambda>_. synchronize_triggers wd))"

section \<open>Deleting\<close>

text \<open>
  \<open>session.delete\<close> with the cascade \<open>all, delete-orphan\<close> on tasks and triggers. Dependencies
  have no relationship, so they stay, and an execution of the workflow refers to its row.
\<close>

definition delete_workflow_row :: "uuid \<Rightarrow> (database, unit) op" where
  "delete_workflow_row wid db =
     (if (\<exists>t \<in> set (task_definitions db). tdr_workflow_definition_id t = wid)
         \<or> (\<exists>t \<in> set (trigger_definitions db). trr_workflow_definition_id t = wid)
         \<or> (\<exists>w \<in> set (workflow_executions db). w_workflow_definition_id w = wid)
      then raise IntegrityError db
      else ret () (db\<lparr>workflow_definitions :=
                        delete_where (\<lambda>w. wdr_id w = wid) (workflow_definitions db)\<rparr>))"

definition delete_definition :: "uuid \<Rightarrow> (database, unit) op" where
  "delete_definition workflow_definition_id db =
     (case lookup_row wdr_id workflow_definition_id (workflow_definitions db) of
        None \<Rightarrow> ret () db
      | Some model \<Rightarrow>
          andThen (delete_task_rows (\<lambda>t. tdr_workflow_definition_id t = wdr_id model)) (\<lambda>_.
          andThen (delete_trigger_rows (\<lambda>t. trr_workflow_definition_id t = wdr_id model)) (\<lambda>_.
            delete_workflow_row (wdr_id model))) db)"

section \<open>The mapper is lossless\<close>

lemma task_definition_model_roundtrip [simp]:
  "task_definition_to_domain (task_definition_to_model wid task) (td_dependencies task) = task"
  by (simp add: task_definition_to_domain_def task_definition_to_model_def)

lemma trigger_model_roundtrip [simp]: "trigger_to_domain (trigger_to_model wid trigger) = trigger"
  by (simp add: trigger_to_domain_def trigger_to_model_def)

lemma definition_model_roundtrip [simp]:
  "definition_to_domain (definition_to_model wd) (wd_task_definitions wd) (wd_trigger_definitions wd) = wd"
  by (simp add: definition_to_domain_def definition_to_model_def)

lemma model_ids [simp]:
  "wdr_id (definition_to_model wd) = wd_id wd"
  "tdr_id (task_definition_to_model wid td) = td_id td"
  "tdr_workflow_definition_id (task_definition_to_model wid td) = wid"
  "tdr_key (task_definition_to_model wid td) = td_key td"
  "tdr_max_tries (task_definition_to_model wid td) = td_max_tries td"
  "trr_id (trigger_to_model wid tr) = tr_id tr"
  "trr_workflow_definition_id (trigger_to_model wid tr) = wid"
  "dep_task_definition_id (dependency_to_model a b) = a"
  "dep_depends_on (dependency_to_model a b) = b"
  by (simp_all add: definition_to_model_def task_definition_to_model_def trigger_to_model_def
      dependency_to_model_def)

section \<open>What is stored, and loading it\<close>

definition stored_dependencies :: "database \<Rightarrow> uuid \<Rightarrow> uuid list" where
  "stored_dependencies db i =
     map dep_depends_on (filter (\<lambda>d. dep_task_definition_id d = i) (task_definition_dependencies db))"

definition stored_tasks :: "database \<Rightarrow> uuid \<Rightarrow> task_definition list" where
  "stored_tasks db wid =
     map (\<lambda>m. task_definition_to_domain m (stored_dependencies db (tdr_id m)))
       (filter (\<lambda>m. tdr_workflow_definition_id m = wid) (task_definitions db))"

definition stored_triggers :: "database \<Rightarrow> uuid \<Rightarrow> trigger_definition list" where
  "stored_triggers db wid =
     map trigger_to_domain (filter (\<lambda>m. trr_workflow_definition_id m = wid) (trigger_definitions db))"

lemma lookup_fold_dependency:
  "(case map_of (fold add_dependency rows lookup) k of None \<Rightarrow> [] | Some ids \<Rightarrow> ids) =
   (case map_of lookup k of None \<Rightarrow> [] | Some ids \<Rightarrow> ids)
     @ map dep_depends_on (filter (\<lambda>d. dep_task_definition_id d = k) rows)"
  by (induction rows arbitrary: lookup)
    (simp_all add: add_dependency_def update_conv' split: option.splits)

lemma lookup_of_task:
  assumes "m \<in> set (task_definitions db)" "tdr_workflow_definition_id m = wid"
  shows "(case map_of (load_dependency_lookup wid db) (tdr_id m) of None \<Rightarrow> [] | Some ids \<Rightarrow> ids)
       = stored_dependencies db (tdr_id m)"
proof -
  have "filter (\<lambda>d. dep_task_definition_id d = tdr_id m)
      (select_where (\<lambda>d. \<exists>t \<in> set (task_definitions db).
             tdr_id t = dep_task_definition_id d \<and> tdr_workflow_definition_id t = wid)
          (task_definition_dependencies db)) =
      filter (\<lambda>d. dep_task_definition_id d = tdr_id m) (task_definition_dependencies db)"
    unfolding select_where_def filter_filter by (intro filter_cong refl) (use assms in metis)
  then show ?thesis
    by (simp add: load_dependency_lookup_def lookup_fold_dependency stored_dependencies_def)
qed

lemma load_definition_eq:
  "load_definition wid db =
     (db, Inr (map_option (\<lambda>w. definition_to_domain w (stored_tasks db wid) (stored_triggers db wid))
                 (lookup_row wdr_id wid (workflow_definitions db))))"
proof (cases "lookup_row wdr_id wid (workflow_definitions db)")
  case None
  then show ?thesis by (simp add: load_definition_def)
next
  case (Some w)
  then have id: "wdr_id w = wid" by (auto dest: lookup_row_SomeD)
  have "map (\<lambda>m. task_definition_to_domain m
        (case map_of (load_dependency_lookup wid db) (tdr_id m) of None \<Rightarrow> [] | Some ids \<Rightarrow> ids))
      (select_where (\<lambda>m. tdr_workflow_definition_id m = wid) (task_definitions db))
      = stored_tasks db wid"
    unfolding stored_tasks_def select_where_def
    by (intro map_cong refl) (auto simp: lookup_of_task)
  with Some id show ?thesis
    by (simp add: load_definition_def Let_def stored_triggers_def select_where_def)
qed

section \<open>Saving a new definition\<close>

text \<open>The constraints of the schema on the definition tables.\<close>

definition schema_ok :: "database \<Rightarrow> bool" where
  "schema_ok db \<longleftrightarrow>
     distinct (map wdr_id (workflow_definitions db))
     \<and> distinct (map tdr_id (task_definitions db))
     \<and> distinct (map (\<lambda>t. (tdr_workflow_definition_id t, tdr_key t)) (task_definitions db))
     \<and> distinct (task_definition_dependencies db)
     \<and> distinct (map trr_id (trigger_definitions db))
     \<and> distinct (map cts_trigger_definition_id (chronological_trigger_state db))
     \<and> tdr_workflow_definition_id ` set (task_definitions db) \<subseteq> wdr_id ` set (workflow_definitions db)
     \<and> trr_workflow_definition_id ` set (trigger_definitions db) \<subseteq> wdr_id ` set (workflow_definitions db)
     \<and> dep_task_definition_id ` set (task_definition_dependencies db) \<subseteq> tdr_id ` set (task_definitions db)
     \<and> dep_depends_on ` set (task_definition_dependencies db) \<subseteq> tdr_id ` set (task_definitions db)
     \<and> cts_trigger_definition_id ` set (chronological_trigger_state db) \<subseteq> trr_id ` set (trigger_definitions db)"

text \<open>Every dependency refers to a task listed before.\<close>

fun dependency_ordered :: "uuid set \<Rightarrow> task_definition list \<Rightarrow> bool" where
  "dependency_ordered known [] = True"
| "dependency_ordered known (t # ts) \<longleftrightarrow>
     set (td_dependencies t) \<subseteq> known \<and> dependency_ordered (insert (td_id t) known) ts"

definition deps_insertable :: "database \<Rightarrow> dependency_row list \<Rightarrow> bool" where
  "deps_insertable db ds \<longleftrightarrow>
     (\<forall>d \<in> set ds. dep_task_definition_id d \<in> tdr_id ` set (task_definitions db))
     \<and> distinct ds \<and> set ds \<inter> set (task_definition_dependencies db) = {}"

lemma deps_insertable_Cons:
  assumes "deps_insertable db (d # ds)"
  shows "merge_dependency d db =
      (if dep_depends_on d \<in> tdr_id ` set (task_definitions db)
       then (db\<lparr>task_definition_dependencies := task_definition_dependencies db @ [d]\<rparr>, Inr ())
       else (db, Inl IntegrityError))"
    and "deps_insertable (db\<lparr>task_definition_dependencies := task_definition_dependencies db @ [d]\<rparr>) ds"
  using assms by (auto simp: deps_insertable_def merge_dependency_def)

lemma merge_dependencies_ok:
  "deps_insertable db ds \<Longrightarrow> dep_depends_on ` set ds \<subseteq> tdr_id ` set (task_definitions db) \<Longrightarrow>
   for_each merge_dependency ds db =
     (db\<lparr>task_definition_dependencies := task_definition_dependencies db @ ds\<rparr>, Inr ())"
proof (induction ds arbitrary: db)
  case Nil
  then show ?case by simp
next
  case (Cons d ds)
  note step = deps_insertable_Cons [OF Cons.prems(1)]
  have "dep_depends_on d \<in> tdr_id ` set (task_definitions db)" using Cons.prems(2) by simp
  with Cons.IH [OF step(2)] Cons.prems(2) step(1) show ?case by (simp add: andThen_Inr)
qed

lemma merge_dependencies_fail:
  "deps_insertable db ds \<Longrightarrow> \<not> dep_depends_on ` set ds \<subseteq> tdr_id ` set (task_definitions db) \<Longrightarrow>
   snd (for_each merge_dependency ds db) = Inl IntegrityError"
proof (induction ds arbitrary: db)
  case Nil
  then show ?case by simp
next
  case (Cons d ds)
  note step = deps_insertable_Cons [OF Cons.prems(1)]
  show ?case
  proof (cases "dep_depends_on d \<in> tdr_id ` set (task_definitions db)")
    case True
    with Cons.prems(2) have "\<not> dep_depends_on ` set ds \<subseteq> tdr_id ` set (task_definitions db)" by simp
    with Cons.IH [OF step(2)] True step(1) show ?thesis by (simp add: andThen_Inr)
  next
    case False
    with step(1) show ?thesis by (simp add: andThen_Inl)
  qed
qed

text \<open>One task of a new definition, and then all of them.\<close>

definition task_insertable :: "database \<Rightarrow> uuid \<Rightarrow> task_definition \<Rightarrow> bool" where
  "task_insertable db wid t \<longleftrightarrow>
     wid \<in> wdr_id ` set (workflow_definitions db)
     \<and> td_id t \<notin> tdr_id ` set (task_definitions db)
     \<and> (\<forall>q \<in> set (task_definitions db). tdr_workflow_definition_id q = wid \<longrightarrow> tdr_key q \<noteq> td_key t)
     \<and> td_id t \<notin> dep_task_definition_id ` set (task_definition_dependencies db)
     \<and> int4 (td_max_tries t) \<and> distinct (td_dependencies t)"

definition with_task :: "uuid \<Rightarrow> task_definition \<Rightarrow> database \<Rightarrow> database" where
  "with_task wid t db =
     db\<lparr>task_definitions := task_definitions db @ [task_definition_to_model wid t],
        task_definition_dependencies := task_definition_dependencies db @ dependencies_to_models t\<rparr>"

lemma synchronize_task_new:
  assumes "task_insertable db wid t"
  shows "set (td_dependencies t) \<subseteq> insert (td_id t) (tdr_id ` set (task_definitions db)) \<Longrightarrow>
      synchronize_task wid t db = (with_task wid t db, Inr ())" (is "?sub \<Longrightarrow> _")
    and "\<not> set (td_dependencies t) \<subseteq> insert (td_id t) (tdr_id ` set (task_definitions db)) \<Longrightarrow>
      snd (synchronize_task wid t db) = Inl IntegrityError"
proof -
  let ?db = "db\<lparr>task_definitions := task_definitions db @ [task_definition_to_model wid t]\<rparr>"
  have merge: "merge_task (task_definition_to_model wid t) db = (?db, Inr ())"
    using assms by (auto simp: merge_task_def task_insertable_def merge_row_def)
  have "delete_where (\<lambda>d. dep_task_definition_id d = td_id t) (task_definition_dependencies ?db)
      = task_definition_dependencies db"
  proof -
    have "td_id t \<notin> dep_task_definition_id ` set (task_definition_dependencies db)"
      using assms by (simp add: task_insertable_def)
    then show ?thesis by (auto simp: delete_where_def filter_id_conv dest: not_image)
  qed
  then have del: "delete_dependencies_of (td_id t) ?db = (?db, Inr ())"
    by (simp add: delete_dependencies_of_def)
  have "inj_on (dependency_to_model (td_id t)) (set (td_dependencies t))"
    by (auto simp: inj_on_def dependency_to_model_def)
  moreover have "d \<notin> set (task_definition_dependencies db)"
    if "dep_task_definition_id d = td_id t" for d
    using assms that by (auto simp: task_insertable_def dest: not_image)
  ultimately have ins: "deps_insertable ?db (dependencies_to_models t)"
    using assms
    by (auto simp: deps_insertable_def dependencies_to_models_def distinct_map task_insertable_def)
  have ids: "tdr_id ` set (task_definitions ?db) = insert (td_id t) (tdr_id ` set (task_definitions db))"
    "dep_depends_on ` set (dependencies_to_models t) = set (td_dependencies t)"
    by (auto simp: dependencies_to_models_def image_image)
  have run: "synchronize_task wid t db = for_each merge_dependency (dependencies_to_models t) ?db"
    using merge del by (simp add: synchronize_task_def andThen_def)
  show "?sub \<Longrightarrow> synchronize_task wid t db = (with_task wid t db, Inr ())"
    unfolding run with_task_def
    using merge_dependencies_ok [OF ins, unfolded ids] by simp
  show "\<not> ?sub \<Longrightarrow> snd (synchronize_task wid t db) = Inl IntegrityError"
    unfolding run by (rule merge_dependencies_fail [OF ins, unfolded ids])
qed

definition tasks_insertable :: "database \<Rightarrow> uuid \<Rightarrow> task_definition list \<Rightarrow> bool" where
  "tasks_insertable db wid ts \<longleftrightarrow>
     (\<forall>t \<in> set ts. task_insertable db wid t \<and> td_id t \<notin> set (td_dependencies t))
     \<and> distinct (map td_id ts) \<and> distinct (map td_key ts)"

lemma with_task_sel [simp]:
  "workflow_definitions (with_task wid t db) = workflow_definitions db"
  "task_definitions (with_task wid t db) = task_definitions db @ [task_definition_to_model wid t]"
  "task_definition_dependencies (with_task wid t db) =
     task_definition_dependencies db @ dependencies_to_models t"
  by (simp_all add: with_task_def)

lemma tasks_insertable_Cons:
  assumes "tasks_insertable db wid (t # ts)"
  shows "task_insertable db wid t" "td_id t \<notin> set (td_dependencies t)"
    "tasks_insertable (with_task wid t db) wid ts"
proof -
  show "task_insertable db wid t" "td_id t \<notin> set (td_dependencies t)"
    using assms by (simp_all add: tasks_insertable_def)
  have "task_insertable (with_task wid t db) wid u" if "u \<in> set ts" for u
  proof -
    have "task_insertable db wid u" "td_id u \<noteq> td_id t" "td_key u \<noteq> td_key t"
      using assms that by (auto simp: tasks_insertable_def dest: not_image)
    then show ?thesis by (auto simp: task_insertable_def dependencies_to_models_def)
  qed
  with assms show "tasks_insertable (with_task wid t db) wid ts"
    by (simp add: tasks_insertable_def)
qed

lemma synchronize_tasks_new:
  "tasks_insertable db wid ts \<Longrightarrow> known = tdr_id ` set (task_definitions db) \<Longrightarrow>
   if dependency_ordered known ts
   then for_each (synchronize_task wid) ts db = (fold (with_task wid) ts db, Inr ())
   else snd (for_each (synchronize_task wid) ts db) = Inl IntegrityError"
proof (induction ts arbitrary: db known)
  case Nil
  then show ?case by simp
next
  case (Cons t ts)
  note ins = tasks_insertable_Cons [OF Cons.prems(1)]
  have sub: "set (td_dependencies t) \<subseteq> insert (td_id t) (tdr_id ` set (task_definitions db))
      \<longleftrightarrow> set (td_dependencies t) \<subseteq> known"
    using ins(2) Cons.prems(2) by auto
  have known': "insert (td_id t) known = tdr_id ` set (task_definitions (with_task wid t db))"
    using Cons.prems(2) by auto
  show ?case
  proof (cases "set (td_dependencies t) \<subseteq> known")
    case True
    then have step: "synchronize_task wid t db = (with_task wid t db, Inr ())"
      using synchronize_task_new(1) [OF ins(1)] sub by blast
    from Cons.IH [OF ins(3) known'] True show ?thesis by (simp add: andThen_def step)
  next
    case False
    then have "snd (synchronize_task wid t db) = Inl IntegrityError"
      using synchronize_task_new(2) [OF ins(1)] sub by blast
    then obtain db' where "synchronize_task wid t db = (db', Inl IntegrityError)"
      by (cases "synchronize_task wid t db") auto
    with False show ?thesis by (simp add: andThen_Inl)
  qed
qed

lemma fold_with_task:
  "fold (with_task wid) ts db =
     db\<lparr>task_definitions := task_definitions db @ map (task_definition_to_model wid) ts,
        task_definition_dependencies :=
          task_definition_dependencies db @ concat (map dependencies_to_models ts)\<rparr>"
  by (induction ts arbitrary: db) (simp_all add: with_task_def)

lemma merge_triggers_new:
  "wid \<in> wdr_id ` set (workflow_definitions db) \<Longrightarrow> distinct (map tr_id ts) \<Longrightarrow>
   tr_id ` set ts \<inter> trr_id ` set (trigger_definitions db) = {} \<Longrightarrow>
   for_each (\<lambda>t. merge_trigger (trigger_to_model wid t)) ts db =
     (db\<lparr>trigger_definitions := trigger_definitions db @ map (trigger_to_model wid) ts\<rparr>, Inr ())"
proof (induction ts arbitrary: db)
  case Nil
  then show ?case by simp
next
  case (Cons t ts)
  let ?db = "db\<lparr>trigger_definitions := trigger_definitions db @ [trigger_to_model wid t]\<rparr>"
  have step: "merge_trigger (trigger_to_model wid t) db = (?db, Inr ())"
    using Cons.prems by (simp add: merge_trigger_def merge_row_def)
  have "wid \<in> wdr_id ` set (workflow_definitions ?db)" "distinct (map tr_id ts)"
    "tr_id ` set ts \<inter> trr_id ` set (trigger_definitions ?db) = {}"
    using Cons.prems by auto
  from Cons.IH [OF this] show ?case by (simp add: andThen_def step)
qed

text \<open>A definition none of whose identifiers is in use, with storable integers.\<close>

definition new_definition :: "database \<Rightarrow> workflow_definition \<Rightarrow> bool" where
  "new_definition db wd \<longleftrightarrow>
     wd_id wd \<notin> wdr_id ` set (workflow_definitions db)
     \<and> td_id ` set (wd_task_definitions wd) \<inter> tdr_id ` set (task_definitions db) = {}
     \<and> tr_id ` set (wd_trigger_definitions wd) \<inter> trr_id ` set (trigger_definitions db) = {}
     \<and> distinct (map tr_id (wd_trigger_definitions wd))
     \<and> (\<forall>t \<in> set (wd_task_definitions wd). int4 (td_max_tries t))
     \<and> definition_ok (wd_task_definitions wd)"

definition with_definition :: "workflow_definition \<Rightarrow> database \<Rightarrow> database" where
  "with_definition wd db =
     db\<lparr>workflow_definitions := workflow_definitions db @ [definition_to_model wd],
        task_definitions :=
          task_definitions db @ map (task_definition_to_model (wd_id wd)) (wd_task_definitions wd),
        task_definition_dependencies :=
          task_definition_dependencies db @ concat (map dependencies_to_models (wd_task_definitions wd)),
        trigger_definitions :=
          trigger_definitions db @ map (trigger_to_model (wd_id wd)) (wd_trigger_definitions wd)\<rparr>"

lemma definition_ok_no_self:
  "definition_ok tds \<Longrightarrow> t \<in> set tds \<Longrightarrow> td_id t \<notin> set (td_dependencies t)"
  unfolding definition_ok_def definition_edges_def acyclic_def by blast

lemma new_definition_no_rows:
  assumes "schema_ok db" "new_definition db wd"
  shows "q \<in> set (task_definitions db) \<Longrightarrow> tdr_workflow_definition_id q \<noteq> wd_id wd"
    and "r \<in> set (trigger_definitions db) \<Longrightarrow> trr_workflow_definition_id r \<noteq> wd_id wd"
proof -
  have new: "wd_id wd \<notin> wdr_id ` set (workflow_definitions db)"
    using assms(2) by (simp add: new_definition_def)
  have fk: "tdr_workflow_definition_id ` set (task_definitions db) \<subseteq> wdr_id ` set (workflow_definitions db)"
    "trr_workflow_definition_id ` set (trigger_definitions db) \<subseteq> wdr_id ` set (workflow_definitions db)"
    using assms(1) by (simp_all add: schema_ok_def)
  show "q \<in> set (task_definitions db) \<Longrightarrow> tdr_workflow_definition_id q \<noteq> wd_id wd"
    by (rule fk_new [OF fk(1) new])
  show "r \<in> set (trigger_definitions db) \<Longrightarrow> trr_workflow_definition_id r \<noteq> wd_id wd"
    by (rule fk_new [OF fk(2) new])
qed

lemma new_definition_insertable:
  assumes "schema_ok db" "new_definition db wd"
  shows "tasks_insertable (db\<lparr>workflow_definitions := workflow_definitions db @ [definition_to_model wd]\<rparr>)
           (wd_id wd) (wd_task_definitions wd)"
proof -
  have no_rows: "tdr_workflow_definition_id q \<noteq> wd_id wd" if "q \<in> set (task_definitions db)" for q
    by (rule new_definition_no_rows(1) [OF assms that])
  have no_deps: "td_id t \<notin> dep_task_definition_id ` set (task_definition_dependencies db)"
    if "t \<in> set (wd_task_definitions wd)" for t
  proof -
    have "td_id t \<notin> tdr_id ` set (task_definitions db)"
      using assms(2) that unfolding new_definition_def by blast
    then show ?thesis using assms(1) unfolding schema_ok_def by blast
  qed
  have ok: "definition_ok (wd_task_definitions wd)" using assms(2) by (simp add: new_definition_def)
  have "task_insertable (db\<lparr>workflow_definitions := workflow_definitions db @ [definition_to_model wd]\<rparr>)
      (wd_id wd) t" if t: "t \<in> set (wd_task_definitions wd)" for t
  proof -
    have "td_id t \<notin> tdr_id ` set (task_definitions db)" "int4 (td_max_tries t)"
      using assms(2) t unfolding new_definition_def by blast+
    moreover have "distinct (td_dependencies t)" using ok t by (simp add: definition_ok_def)
    ultimately show ?thesis using no_rows no_deps [OF t] by (simp add: task_insertable_def)
  qed
  with ok definition_ok_no_self [OF ok] show ?thesis
    by (simp add: tasks_insertable_def definition_ok_def)
qed

lemma delete_rows_nothing:
  "(\<And>t. t \<in> set (task_definitions db) \<Longrightarrow> \<not> P t) \<Longrightarrow> delete_task_rows P db = (db, Inr ())"
  "(\<And>t. t \<in> set (trigger_definitions db) \<Longrightarrow> \<not> Q t) \<Longrightarrow> delete_trigger_rows Q db = (db, Inr ())"
  by (simp_all add: delete_task_rows_def delete_trigger_rows_def delete_where_def filter_id_conv
      cong: conj_cong)

lemma dependency_ordered_cong:
  "(\<forall>t \<in> set ts. set (td_dependencies t) \<inter> known = set (td_dependencies t) \<inter> known') \<Longrightarrow>
   dependency_ordered known ts = dependency_ordered known' ts"
proof (induction ts arbitrary: known known')
  case Nil
  then show ?case by simp
next
  case (Cons t ts)
  have "dependency_ordered (insert (td_id t) known) ts = dependency_ordered (insert (td_id t) known') ts"
    by (rule Cons.IH) (use Cons.prems in auto)
  moreover have "set (td_dependencies t) \<subseteq> known \<longleftrightarrow> set (td_dependencies t) \<subseteq> known'"
    using Cons.prems by auto
  ultimately show ?case by simp
qed

text \<open>
  Saving a new definition succeeds exactly when its tasks are listed in dependency order, and
  then adds precisely its rows.
\<close>

lemma save_new_definition:
  assumes "schema_ok db" "new_definition db wd"
  shows "dependency_ordered {} (wd_task_definitions wd) \<Longrightarrow>
           save_definition wd db = (with_definition wd db, Inr ())"
    and "\<not> dependency_ordered {} (wd_task_definitions wd) \<Longrightarrow>
           snd (save_definition wd db) = Inl IntegrityError"
proof -
  let ?tds = "wd_task_definitions wd" and ?wid = "wd_id wd"
  let ?db1 = "db\<lparr>workflow_definitions := workflow_definitions db @ [definition_to_model wd]\<rparr>"
  have merge: "merge_workflow (definition_to_model wd) db = (?db1, Inr ())"
    using assms(2) by (simp add: merge_workflow_def merge_row_def new_definition_def)
  note no_rows = new_definition_no_rows(1) [OF assms]
  note no_trs = new_definition_no_rows(2) [OF assms]
  have run: "save_definition wd db =
      andThen (for_each (synchronize_task ?wid) ?tds) (\<lambda>_. synchronize_triggers wd) ?db1"
    using delete_rows_nothing(1) [of ?db1] no_rows
    by (simp add: save_definition_def synchronize_tasks_def Let_def andThen_def merge)
  have ord: "dependency_ordered (tdr_id ` set (task_definitions ?db1)) ?tds = dependency_ordered {} ?tds"
  proof (rule dependency_ordered_cong, rule ballI)
    fix t assume "t \<in> set ?tds"
    then have "set (td_dependencies t) \<subseteq> td_id ` set ?tds"
      using assms(2) by (simp add: new_definition_def definition_ok_def)
    then show "set (td_dependencies t) \<inter> tdr_id ` set (task_definitions ?db1)
        = set (td_dependencies t) \<inter> {}"
      using assms(2) by (auto simp: new_definition_def)
  qed
  note tasks = synchronize_tasks_new [OF new_definition_insertable [OF assms] refl, unfolded ord]
  show "save_definition wd db = (with_definition wd db, Inr ())" if "dependency_ordered {} ?tds"
  proof -
    let ?db2 = "fold (with_task ?wid) ?tds ?db1"
    have tasks': "for_each (synchronize_task ?wid) ?tds ?db1 = (?db2, Inr ())" using tasks that by simp
    have del: "delete_trigger_rows (\<lambda>t. trr_workflow_definition_id t = ?wid
        \<and> trr_id t \<notin> tr_id ` set (wd_trigger_definitions wd)) ?db2 = (?db2, Inr ())"
      by (rule delete_rows_nothing(2)) (use no_trs in \<open>auto simp: fold_with_task\<close>)
    have "for_each (\<lambda>t. merge_trigger (trigger_to_model ?wid t)) (wd_trigger_definitions wd) ?db2 =
        (?db2\<lparr>trigger_definitions := trigger_definitions ?db2
             @ map (trigger_to_model ?wid) (wd_trigger_definitions wd)\<rparr>, Inr ())"
      by (rule merge_triggers_new) (use assms(2) in \<open>auto simp: fold_with_task new_definition_def\<close>)
    then show ?thesis
      using tasks' del
      by (simp add: run andThen_def synchronize_triggers_def Let_def fold_with_task with_definition_def)
  qed
  show "snd (save_definition wd db) = Inl IntegrityError" if "\<not> dependency_ordered {} ?tds"
  proof -
    have "snd (for_each (synchronize_task ?wid) ?tds ?db1) = Inl IntegrityError" using tasks that by simp
    then obtain db' where "for_each (synchronize_task ?wid) ?tds ?db1 = (db', Inl IntegrityError)"
      by (cases "for_each (synchronize_task ?wid) ?tds ?db1") auto
    then show ?thesis by (simp add: run andThen_def)
  qed
qed

section \<open>Stored definitions stay well-formed\<close>

text \<open>Every stored workflow definition is well-formed and its dependencies are its own tasks.\<close>

definition definitions_inv :: "database \<Rightarrow> bool" where
  "definitions_inv db \<longleftrightarrow>
     schema_ok db
     \<and> (\<forall>w \<in> set (workflow_definitions db). definition_ok (stored_tasks db (wdr_id w)))
     \<and> (\<forall>t \<in> set (task_definitions db). int4 (tdr_max_tries t))"

lemma filter_new_dependencies:
  "i \<notin> td_id ` set ts \<Longrightarrow>
   filter (\<lambda>d. dep_task_definition_id d = i) (concat (map dependencies_to_models ts)) = []"
  by (auto simp: filter_empty_conv dependencies_to_models_def)

lemma new_dependencies_of:
  "distinct (map td_id ts) \<Longrightarrow> t \<in> set ts \<Longrightarrow>
   map dep_depends_on (filter (\<lambda>d. dep_task_definition_id d = td_id t)
     (concat (map dependencies_to_models ts))) = td_dependencies t"
proof (induction ts)
  case Nil
  then show ?case by simp
next
  case (Cons u us)
  have other: "filter (\<lambda>d. dep_task_definition_id d = td_id v) (dependencies_to_models u) =
      (if td_id v = td_id u then dependencies_to_models u else [])" for v
    by (auto simp: dependencies_to_models_def filter_empty_conv filter_id_conv)
  show ?case
  proof (cases "t = u")
    case True
    then have "td_id t \<notin> td_id ` set us" using Cons.prems(1) by simp
    with True show ?thesis
      by (simp add: other filter_new_dependencies) (simp add: dependencies_to_models_def comp_def)
  next
    case False
    then have "t \<in> set us" using Cons.prems(2) by simp
    moreover from this have "td_id t \<noteq> td_id u" using Cons.prems(1) by (auto dest: not_image)
    ultimately show ?thesis using Cons by (simp add: other)
  qed
qed

lemma with_definition_sel [simp]:
  "workflow_definitions (with_definition wd db) = workflow_definitions db @ [definition_to_model wd]"
  "task_definitions (with_definition wd db) =
     task_definitions db @ map (task_definition_to_model (wd_id wd)) (wd_task_definitions wd)"
  "task_definition_dependencies (with_definition wd db) =
     task_definition_dependencies db @ concat (map dependencies_to_models (wd_task_definitions wd))"
  "trigger_definitions (with_definition wd db) =
     trigger_definitions db @ map (trigger_to_model (wd_id wd)) (wd_trigger_definitions wd)"
  "chronological_trigger_state (with_definition wd db) = chronological_trigger_state db"
  "workflow_executions (with_definition wd db) = workflow_executions db"
  "task_executions (with_definition wd db) = task_executions db"
  by (simp_all add: with_definition_def)

lemma new_definition_no_deps:
  assumes "schema_ok db" "new_definition db wd" "t \<in> set (wd_task_definitions wd)"
  shows "filter (\<lambda>d. dep_task_definition_id d = td_id t) (task_definition_dependencies db) = []"
proof -
  have "td_id t \<notin> tdr_id ` set (task_definitions db)"
    using assms(2,3) unfolding new_definition_def by blast
  then have "td_id t \<notin> dep_task_definition_id ` set (task_definition_dependencies db)"
    using assms(1) unfolding schema_ok_def by blast
  then show ?thesis by (simp add: filter_empty_conv not_image)
qed

lemma stored_tasks_new:
  assumes "schema_ok db" "new_definition db wd"
  shows "stored_tasks (with_definition wd db) (wd_id wd) = wd_task_definitions wd"
proof -
  let ?tds = "wd_task_definitions wd"
  have dist: "distinct (map td_id ?tds)"
    using assms(2) by (simp add: new_definition_def definition_ok_def)
  have "filter (\<lambda>m. tdr_workflow_definition_id m = wd_id wd) (task_definitions db) = []"
    using new_definition_no_rows(1) [OF assms] by (simp add: filter_empty_conv)
  then have rows: "filter (\<lambda>m. tdr_workflow_definition_id m = wd_id wd) (task_definitions (with_definition wd db))
      = map (task_definition_to_model (wd_id wd)) ?tds"
    by (simp add: filter_id_conv)
  have "stored_dependencies (with_definition wd db) (td_id t) = td_dependencies t" if "t \<in> set ?tds" for t
  proof -
    from new_definition_no_deps [OF assms that] new_dependencies_of [OF dist that]
    show ?thesis by (simp add: stored_dependencies_def)
  qed
  then have "map (\<lambda>t. task_definition_to_domain (task_definition_to_model (wd_id wd) t)
      (stored_dependencies (with_definition wd db) (td_id t))) ?tds = map (\<lambda>t. t) ?tds"
    by (intro map_cong refl) simp
  then show ?thesis unfolding stored_tasks_def rows map_map comp_def model_ids by simp
qed

lemma stored_tasks_old:
  assumes "schema_ok db" "new_definition db wd" "wid \<noteq> wd_id wd"
  shows "stored_tasks (with_definition wd db) wid = stored_tasks db wid"
proof -
  have "filter (\<lambda>m. tdr_workflow_definition_id m = wid) (task_definitions (with_definition wd db))
      = filter (\<lambda>m. tdr_workflow_definition_id m = wid) (task_definitions db)"
    using assms(3) by (simp add: filter_empty_conv)
  moreover have "stored_dependencies (with_definition wd db) (tdr_id m) = stored_dependencies db (tdr_id m)"
    if "m \<in> set (task_definitions db)" for m
  proof -
    have "tdr_id m \<notin> td_id ` set (wd_task_definitions wd)"
      using assms(2) that unfolding new_definition_def by blast
    then show ?thesis by (simp add: stored_dependencies_def filter_new_dependencies)
  qed
  ultimately show ?thesis unfolding stored_tasks_def by (simp add: comp_def)
qed

lemma stored_triggers_new:
  assumes "schema_ok db" "new_definition db wd"
  shows "stored_triggers (with_definition wd db) (wd_id wd) = wd_trigger_definitions wd"
proof -
  have "filter (\<lambda>m. trr_workflow_definition_id m = wd_id wd) (trigger_definitions db) = []"
    using new_definition_no_rows(2) [OF assms] by (simp add: filter_empty_conv)
  then show ?thesis by (simp add: stored_triggers_def filter_id_conv comp_def)
qed

lemma load_new_definition:
  assumes "schema_ok db" "new_definition db wd"
  shows "load_definition (wd_id wd) (with_definition wd db) = (with_definition wd db, Inr (Some wd))"
proof -
  have "lookup_row wdr_id (wd_id wd) (workflow_definitions (with_definition wd db)) = Some (definition_to_model wd)"
  proof -
    have "lookup_row wdr_id (wd_id wd) (workflow_definitions db) = None"
      using assms(2) by (simp add: lookup_row_None_iff new_definition_def)
    then show ?thesis by (simp add: lookup_row_append) (simp add: lookup_row_def)
  qed
  then show ?thesis
    by (simp add: load_definition_eq stored_tasks_new [OF assms] stored_triggers_new [OF assms])
qed

lemma distinct_new_dependencies:
  "distinct (map td_id ts) \<Longrightarrow> \<forall>t \<in> set ts. distinct (td_dependencies t) \<Longrightarrow>
   distinct (concat (map dependencies_to_models ts))"
proof (induction ts)
  case Nil
  then show ?case by simp
next
  case (Cons t ts)
  have "distinct (dependencies_to_models t)"
    using Cons.prems by (auto simp: dependencies_to_models_def distinct_map inj_on_def dependency_to_model_def)
  moreover have "set (dependencies_to_models t) \<inter> set (concat (map dependencies_to_models ts)) = {}"
  proof -
    have "filter (\<lambda>d. dep_task_definition_id d = td_id t) (concat (map dependencies_to_models ts)) = []"
      using Cons.prems(1) by (intro filter_new_dependencies) simp
    moreover have "dep_task_definition_id d = td_id t" if "d \<in> set (dependencies_to_models t)" for d
      using that by (auto simp: dependencies_to_models_def)
    ultimately show ?thesis unfolding filter_empty_conv by blast
  qed
  ultimately show ?case using Cons by simp
qed

lemma new_dependency_rows:
  "d \<in> set (concat (map dependencies_to_models ts)) \<longleftrightarrow>
     (\<exists>t \<in> set ts. dep_task_definition_id d = td_id t \<and> dep_depends_on d \<in> set (td_dependencies t))"
proof -
  have "d \<in> set (dependencies_to_models t) \<longleftrightarrow>
      dep_task_definition_id d = td_id t \<and> dep_depends_on d \<in> set (td_dependencies t)" for t
    by (cases d) (auto simp: dependencies_to_models_def dependency_to_model_def)
  then show ?thesis by auto
qed

lemma schema_ok_with_definition:
  assumes "schema_ok db" "new_definition db wd"
  shows "schema_ok (with_definition wd db)"
proof -
  let ?tds = "wd_task_definitions wd" and ?trs = "wd_trigger_definitions wd"
  have ok: "definition_ok ?tds" and ids: "td_id ` set ?tds \<inter> tdr_id ` set (task_definitions db) = {}"
    and trs: "distinct (map tr_id ?trs)" "tr_id ` set ?trs \<inter> trr_id ` set (trigger_definitions db) = {}"
    and wid: "wd_id wd \<notin> wdr_id ` set (workflow_definitions db)"
    using assms(2) by (simp_all add: new_definition_def)
  have keys: "distinct (map (\<lambda>t. (tdr_workflow_definition_id t, tdr_key t)) (task_definitions (with_definition wd db)))"
  proof -
    have "distinct (map (\<lambda>t. (wd_id wd, td_key t)) ?tds)"
      using ok by (simp add: definition_ok_def distinct_map inj_on_def)
    moreover have "set (map (\<lambda>t. (tdr_workflow_definition_id t, tdr_key t)) (task_definitions db))
        \<inter> set (map (\<lambda>t. (wd_id wd, td_key t)) ?tds) = {}"
      using new_definition_no_rows(1) [OF assms] by auto
    ultimately show ?thesis using assms(1) by (simp add: schema_ok_def comp_def)
  qed
  have deps: "distinct (task_definition_dependencies (with_definition wd db))"
  proof -
    have "set (task_definition_dependencies db) \<inter> set (concat (map dependencies_to_models ?tds)) = {}"
      using new_definition_no_deps [OF assms] unfolding filter_empty_conv new_dependency_rows
      by (metis disjoint_iff new_dependency_rows)
    moreover have "distinct (concat (map dependencies_to_models ?tds))"
      by (rule distinct_new_dependencies) (use ok in \<open>simp_all add: definition_ok_def\<close>)
    ultimately show ?thesis using assms(1) by (simp add: schema_ok_def)
  qed
  have fk: "dep_task_definition_id d \<in> td_id ` set ?tds \<and> dep_depends_on d \<in> td_id ` set ?tds"
    if "d \<in> set (concat (map dependencies_to_models ?tds))" for d
    using that ok unfolding new_dependency_rows definition_ok_def by blast
  have dep_fk: "dep_task_definition_id ` set (task_definition_dependencies (with_definition wd db))
        \<subseteq> tdr_id ` set (task_definitions (with_definition wd db))"
    "dep_depends_on ` set (task_definition_dependencies (with_definition wd db))
        \<subseteq> tdr_id ` set (task_definitions (with_definition wd db))"
  proof -
    have all: "tdr_id ` set (task_definitions db @ map (task_definition_to_model (wd_id wd)) ?tds) =
        tdr_id ` set (task_definitions db) \<union> td_id ` set ?tds"
      by (simp add: image_Un image_image)
    have new: "dep_task_definition_id ` set (concat (map dependencies_to_models ?tds)) \<subseteq> td_id ` set ?tds"
      "dep_depends_on ` set (concat (map dependencies_to_models ?tds)) \<subseteq> td_id ` set ?tds"
      using fk by blast+
    have old: "dep_task_definition_id ` set (task_definition_dependencies db) \<subseteq> tdr_id ` set (task_definitions db)"
      "dep_depends_on ` set (task_definition_dependencies db) \<subseteq> tdr_id ` set (task_definitions db)"
      using assms(1) by (simp_all add: schema_ok_def)
    show "dep_task_definition_id ` set (task_definition_dependencies (with_definition wd db))
        \<subseteq> tdr_id ` set (task_definitions (with_definition wd db))"
      unfolding with_definition_sel all unfolding set_append image_Un
      by (rule Un_mono [OF old(1) new(1)])
    show "dep_depends_on ` set (task_definition_dependencies (with_definition wd db))
        \<subseteq> tdr_id ` set (task_definitions (with_definition wd db))"
      unfolding with_definition_sel all unfolding set_append image_Un
      by (rule Un_mono [OF old(2) new(2)])
  qed
  have "distinct (map tdr_id (task_definitions (with_definition wd db)))"
    using assms(1) ok ids by (auto simp: schema_ok_def definition_ok_def comp_def image_image)
  moreover have "distinct (map trr_id (trigger_definitions (with_definition wd db)))"
    using assms(1) trs by (auto simp: schema_ok_def comp_def image_image)
  moreover have "tdr_workflow_definition_id ` set (task_definitions (with_definition wd db))
      \<subseteq> wdr_id ` set (workflow_definitions (with_definition wd db))"
    using assms(1) by (auto simp: schema_ok_def)
  moreover have "trr_workflow_definition_id ` set (trigger_definitions (with_definition wd db))
      \<subseteq> wdr_id ` set (workflow_definitions (with_definition wd db))"
    using assms(1) by (auto simp: schema_ok_def)
  moreover have "cts_trigger_definition_id ` set (chronological_trigger_state (with_definition wd db))
      \<subseteq> trr_id ` set (trigger_definitions (with_definition wd db))"
    using assms(1) by (auto simp: schema_ok_def)
  ultimately show ?thesis
    using keys deps dep_fk assms(1) wid unfolding schema_ok_def with_definition_sel by simp
qed

lemma definitions_inv_save:
  assumes "definitions_inv db" "new_definition db wd"
  shows "definitions_inv (with_definition wd db)"
proof -
  have ok: "schema_ok db" using assms(1) by (simp add: definitions_inv_def)
  have wid: "wdr_id w \<noteq> wd_id wd" if "w \<in> set (workflow_definitions db)" for w
    by (rule not_image [OF _ that]) (use assms(2) in \<open>simp add: new_definition_def\<close>)
  have "definition_ok (stored_tasks (with_definition wd db) (wdr_id w))"
    if "w \<in> set (workflow_definitions db)" for w
    using stored_tasks_old [OF ok assms(2) wid [OF that]] assms(1) that by (simp add: definitions_inv_def)
  moreover have "definition_ok (stored_tasks (with_definition wd db) (wd_id wd))"
    using stored_tasks_new [OF ok assms(2)] assms(2) by (simp add: new_definition_def)
  ultimately show ?thesis
    using schema_ok_with_definition [OF ok assms(2)] assms
    by (auto simp: definitions_inv_def new_definition_def)
qed

lemma definitions_inv_empty: "definitions_inv empty_database"
  by (simp add: definitions_inv_def schema_ok_def empty_database_def)

lemma stored_task_row:
  assumes "t \<in> set (stored_tasks db wid)"
  shows "\<exists>m \<in> set (task_definitions db). td_id t = tdr_id m \<and> td_max_tries t = tdr_max_tries m"
proof -
  have "t \<in> (\<lambda>m. task_definition_to_domain m (stored_dependencies db (tdr_id m))) ` set (task_definitions db)"
    using assms unfolding stored_tasks_def set_map set_filter by blast
  then obtain m where "m \<in> set (task_definitions db)"
    "t = task_definition_to_domain m (stored_dependencies db (tdr_id m))" by blast
  then show ?thesis by (intro bexI [of _ m]) (simp_all add: task_definition_to_domain_def)
qed

lemma load_definition_SomeD:
  assumes "load_definition wid db = (db', Inr (Some wd))"
  shows "db' = db" "wd_id wd = wid" "wid \<in> wdr_id ` set (workflow_definitions db)"
    "wd_task_definitions wd = stored_tasks db wid"
    "\<exists>w \<in> set (workflow_definitions db). wdr_id w = wid \<and> wdr_enabled w = wd_enabled wd"
proof -
  show "db' = db" using assms unfolding load_definition_eq prod.inject by blast
  have "map_option (\<lambda>w. definition_to_domain w (stored_tasks db wid) (stored_triggers db wid))
      (lookup_row wdr_id wid (workflow_definitions db)) = Some wd"
    using assms unfolding load_definition_eq prod.inject sum.inject by blast
  then obtain w where w: "lookup_row wdr_id wid (workflow_definitions db) = Some w"
    and wd: "definition_to_domain w (stored_tasks db wid) (stored_triggers db wid) = wd"
    unfolding map_option_eq_Some by blast
  have w': "w \<in> set (workflow_definitions db)" "wdr_id w = wid" using lookup_row_SomeD [OF w] by simp_all
  then show "wid \<in> wdr_id ` set (workflow_definitions db)" by blast
  show "wd_id wd = wid" "wd_task_definitions wd = stored_tasks db wid"
    using w'(2) by (simp_all add: wd [symmetric] definition_to_domain_def)
  have "wdr_enabled w = wd_enabled wd" by (simp add: wd [symmetric] definition_to_domain_def)
  with w' show "\<exists>w \<in> set (workflow_definitions db). wdr_id w = wid \<and> wdr_enabled w = wd_enabled wd"
    by blast
qed

lemma load_definition_ok:
  assumes inv: "definitions_inv db" and load: "load_definition wid db = (db', Inr (Some wd))"
  shows "definition_ok (wd_task_definitions wd)"
    "td_id ` set (wd_task_definitions wd) \<subseteq> tdr_id ` set (task_definitions db)"
    "\<forall>t \<in> set (wd_task_definitions wd). int4 (td_max_tries t)"
proof -
  note wd = load_definition_SomeD [OF load]
  obtain w where "w \<in> set (workflow_definitions db)" "wdr_id w = wid" using wd(3) by blast
  then show "definition_ok (wd_task_definitions wd)"
    using inv unfolding wd(4) by (auto simp: definitions_inv_def)
  show "td_id ` set (wd_task_definitions wd) \<subseteq> tdr_id ` set (task_definitions db)"
    unfolding wd(4) using stored_task_row by blast
  show "\<forall>t \<in> set (wd_task_definitions wd). int4 (td_max_tries t)"
  proof
    fix t assume "t \<in> set (wd_task_definitions wd)"
    then obtain m where "m \<in> set (task_definitions db)" "td_max_tries t = tdr_max_tries m"
      using stored_task_row unfolding wd(4) by blast
    then show "int4 (td_max_tries t)" using inv by (simp add: definitions_inv_def)
  qed
qed

section \<open>Deleting a definition\<close>

text \<open>What refers to a stored definition: dependencies of its tasks, and its executions.\<close>

definition definition_referenced :: "uuid \<Rightarrow> database \<Rightarrow> bool" where
  "definition_referenced wid db \<longleftrightarrow>
     (\<exists>t \<in> set (task_definitions db). tdr_workflow_definition_id t = wid
        \<and> ((\<exists>d \<in> set (task_definition_dependencies db).
               dep_task_definition_id d = tdr_id t \<or> dep_depends_on d = tdr_id t)
           \<or> (\<exists>e \<in> set (task_executions db). t_task_definition_id e = tdr_id t)))
     \<or> (\<exists>e \<in> set (workflow_executions db). w_workflow_definition_id e = wid)"

definition without_definition :: "uuid \<Rightarrow> database \<Rightarrow> database" where
  "without_definition wid db =
     db\<lparr>workflow_definitions := delete_where (\<lambda>w. wdr_id w = wid) (workflow_definitions db),
        task_definitions := delete_where (\<lambda>t. tdr_workflow_definition_id t = wid) (task_definitions db),
        trigger_definitions :=
          delete_where (\<lambda>t. trr_workflow_definition_id t = wid) (trigger_definitions db),
        chronological_trigger_state :=
          delete_where (\<lambda>s. cts_trigger_definition_id s \<in>
              trr_id ` {t \<in> set (trigger_definitions db). trr_workflow_definition_id t = wid})
            (chronological_trigger_state db)\<rparr>"

lemma delete_missing_definition:
  "wid \<notin> wdr_id ` set (workflow_definitions db) \<Longrightarrow> delete_definition wid db = (db, Inr ())"
  by (simp add: delete_definition_def lookup_row_None_iff [symmetric])

lemma delete_existing_definition:
  assumes "wid \<in> wdr_id ` set (workflow_definitions db)"
  shows "\<not> definition_referenced wid db \<Longrightarrow> delete_definition wid db = (without_definition wid db, Inr ())"
    and "definition_referenced wid db \<Longrightarrow> snd (delete_definition wid db) = Inl IntegrityError"
proof -
  obtain w where w: "lookup_row wdr_id wid (workflow_definitions db) = Some w" "wdr_id w = wid"
    using assms lookup_row_None_iff [of wdr_id wid "workflow_definitions db"]
    by (cases "lookup_row wdr_id wid (workflow_definitions db)") (auto dest: lookup_row_SomeD)
  let ?T = "\<lambda>t. tdr_workflow_definition_id t = wid"
  let ?db1 = "db\<lparr>task_definitions := delete_where ?T (task_definitions db)\<rparr>"
  let ?refs = "\<exists>t \<in> set (task_definitions db). tdr_workflow_definition_id t = wid
        \<and> ((\<exists>d \<in> set (task_definition_dependencies db).
               dep_task_definition_id d = tdr_id t \<or> dep_depends_on d = tdr_id t)
           \<or> (\<exists>e \<in> set (task_executions db). t_task_definition_id e = tdr_id t))"
  have step1: "delete_task_rows ?T db = (if ?refs then (db, Inl IntegrityError) else (?db1, Inr ()))"
  proof -
    have "((\<exists>d \<in> set (task_definition_dependencies db).
            dep_task_definition_id d \<in> tdr_id ` {t \<in> set (task_definitions db). ?T t}
            \<or> dep_depends_on d \<in> tdr_id ` {t \<in> set (task_definitions db). ?T t})
         \<or> (\<exists>t \<in> set (task_executions db).
              t_task_definition_id t \<in> tdr_id ` {t \<in> set (task_definitions db). ?T t})) \<longleftrightarrow> ?refs"
      unfolding image_iff by fast
    then show ?thesis unfolding delete_task_rows_def Let_def by simp
  qed
  have run: "delete_definition wid db = andThen (delete_task_rows ?T) (\<lambda>_.
      andThen (delete_trigger_rows (\<lambda>t. trr_workflow_definition_id t = wid)) (\<lambda>_.
        delete_workflow_row wid)) db"
    by (simp add: delete_definition_def w)
  show "delete_definition wid db = (without_definition wid db, Inr ())" if "\<not> definition_referenced wid db"
  proof -
    have no: "\<not> ?refs" "\<forall>e \<in> set (workflow_executions db). w_workflow_definition_id e \<noteq> wid"
      using that unfolding definition_referenced_def by blast+
    have "delete_task_rows ?T db = (?db1, Inr ())" using step1 no(1) by (simp only: if_False)
    then show ?thesis
      using no(2)
      by (simp add: run andThen_def delete_trigger_rows_def delete_workflow_row_def Let_def
          without_definition_def)
  qed
  show "snd (delete_definition wid db) = Inl IntegrityError" if "definition_referenced wid db"
  proof (cases ?refs)
    case True
    then have "delete_task_rows ?T db = (db, Inl IntegrityError)" using step1 by (simp only: if_True)
    then show ?thesis by (simp add: run andThen_def)
  next
    case False
    then have "\<exists>e \<in> set (workflow_executions db). w_workflow_definition_id e = wid"
      using that unfolding definition_referenced_def by blast
    moreover have "delete_task_rows ?T db = (?db1, Inr ())" using step1 False by (simp only: if_False)
    ultimately show ?thesis
      by (simp add: run andThen_def delete_trigger_rows_def delete_workflow_row_def Let_def)
  qed
qed

text \<open>Deleting keeps what is stored of the other definitions.\<close>

lemma filter_other: "(\<And>x. x \<in> set xs \<Longrightarrow> Q x \<Longrightarrow> \<not> P x) \<Longrightarrow> filter Q (delete_where P xs) = filter Q xs"
  by (auto simp: delete_where_def filter_filter intro!: filter_cong)

lemma stored_tasks_delete:
  "wid' \<noteq> wid \<Longrightarrow> stored_tasks (without_definition wid db) wid' = stored_tasks db wid'"
  unfolding stored_tasks_def without_definition_def stored_dependencies_def
  by (simp add: filter_other)

lemma definitions_inv_delete:
  assumes inv: "definitions_inv db" and free: "\<not> definition_referenced wid db"
  shows "definitions_inv (without_definition wid db)"
proof -
  let ?db = "without_definition wid db"
  have schema: "schema_ok db" using inv by (simp add: definitions_inv_def)
  have keep: "t \<in> set (task_definitions ?db)" if "t \<in> set (task_definitions db)"
    "tdr_workflow_definition_id t \<noteq> wid" for t
    using that by (simp add: without_definition_def)
  have dep_fk: "f ` set (task_definition_dependencies ?db) \<subseteq> tdr_id ` set (task_definitions ?db)"
    if fk: "f ` set (task_definition_dependencies db) \<subseteq> tdr_id ` set (task_definitions db)"
      and f: "f = dep_task_definition_id \<or> f = dep_depends_on" for f
  proof
    fix i assume "i \<in> f ` set (task_definition_dependencies ?db)"
    then obtain d where d: "d \<in> set (task_definition_dependencies db)" "i = f d"
      by (auto simp: without_definition_def)
    then obtain t where t: "t \<in> set (task_definitions db)" "f d = tdr_id t" using fk by blast
    have "tdr_workflow_definition_id t \<noteq> wid"
      using free f d(1) t unfolding definition_referenced_def by metis
    with keep [OF t(1)] t(2) d(2) show "i \<in> tdr_id ` set (task_definitions ?db)" by auto
  qed
  have "schema_ok ?db"
    unfolding schema_ok_def
  proof (intro conjI)
    show "dep_task_definition_id ` set (task_definition_dependencies ?db) \<subseteq> tdr_id ` set (task_definitions ?db)"
      "dep_depends_on ` set (task_definition_dependencies ?db) \<subseteq> tdr_id ` set (task_definitions ?db)"
      using schema by (intro dep_fk; simp add: schema_ok_def)+
    show "cts_trigger_definition_id ` set (chronological_trigger_state ?db) \<subseteq> trr_id ` set (trigger_definitions ?db)"
    proof
      fix i assume "i \<in> cts_trigger_definition_id ` set (chronological_trigger_state ?db)"
      then obtain s where s: "s \<in> set (chronological_trigger_state db)" "i = cts_trigger_definition_id s"
        "i \<notin> trr_id ` {t \<in> set (trigger_definitions db). trr_workflow_definition_id t = wid}"
        by (auto simp: without_definition_def)
      have "cts_trigger_definition_id ` set (chronological_trigger_state db) \<subseteq> trr_id ` set (trigger_definitions db)"
        using schema by (simp add: schema_ok_def)
      then obtain t where t: "t \<in> set (trigger_definitions db)" "i = trr_id t" using s by blast
      then have "trr_workflow_definition_id t \<noteq> wid" using s(3) by blast
      with t show "i \<in> trr_id ` set (trigger_definitions ?db)" by (auto simp: without_definition_def)
    qed
    show "tdr_workflow_definition_id ` set (task_definitions ?db) \<subseteq> wdr_id ` set (workflow_definitions ?db)"
      using schema by (auto simp: schema_ok_def without_definition_def)
    show "trr_workflow_definition_id ` set (trigger_definitions ?db) \<subseteq> wdr_id ` set (workflow_definitions ?db)"
      using schema by (auto simp: schema_ok_def without_definition_def)
  qed (use schema in \<open>simp_all add: schema_ok_def without_definition_def delete_where_def distinct_map_filter\<close>)
  moreover have "definition_ok (stored_tasks ?db (wdr_id w))" if "w \<in> set (workflow_definitions ?db)" for w
  proof -
    have "wdr_id w \<noteq> wid" "w \<in> set (workflow_definitions db)"
      using that by (simp_all add: without_definition_def)
    then show ?thesis using inv by (simp add: stored_tasks_delete definitions_inv_def)
  qed
  moreover have "\<forall>t \<in> set (task_definitions ?db). int4 (tdr_max_tries t)"
    using inv by (simp add: definitions_inv_def without_definition_def)
  ultimately show ?thesis by (simp add: definitions_inv_def)
qed

section \<open>The repository keeps the contract of its interface\<close>

definition savable :: "database \<Rightarrow> workflow_definition \<Rightarrow> bool" where
  "savable db wd \<longleftrightarrow> new_definition db wd \<and> dependency_ordered {} (wd_task_definitions wd)"

definition saved :: "workflow_definition \<Rightarrow> database \<Rightarrow> database" where
  "saved wd db = fst (save_definition wd db)"

definition loaded :: "uuid \<Rightarrow> database \<Rightarrow> workflow_definition option" where
  "loaded wid db = (case snd (load_definition wid db) of Inl e \<Rightarrow> None | Inr found \<Rightarrow> found)"

definition deleted :: "uuid \<Rightarrow> database \<Rightarrow> database" where
  "deleted wid db = fst (delete_definition wid db)"

lemma loaded_eq:
  "loaded wid db = map_option (\<lambda>w. definition_to_domain w (stored_tasks db wid) (stored_triggers db wid))
     (lookup_row wdr_id wid (workflow_definitions db))"
  by (simp add: loaded_def load_definition_eq)

lemma load_definition_loaded: "load_definition wid db = (db, Inr (loaded wid db))"
  by (simp add: loaded_def load_definition_eq)

lemma saved_eq: "schema_ok db \<Longrightarrow> savable db wd \<Longrightarrow> saved wd db = with_definition wd db"
  using save_new_definition(1) by (simp add: savable_def saved_def)

lemma loaded_other:
  assumes "schema_ok db" "new_definition db wd" "wid \<noteq> wd_id wd"
  shows "loaded wid (with_definition wd db) = loaded wid db"
proof -
  have "stored_triggers (with_definition wd db) wid = stored_triggers db wid"
    using assms(3) by (simp add: stored_triggers_def filter_empty_conv)
  moreover have "lookup_row wdr_id wid [definition_to_model wd] = None"
    using assms(3) by (simp add: lookup_row_None_iff)
  ultimately show ?thesis
    by (simp add: loaded_eq stored_tasks_old [OF assms] lookup_row_append split: option.split)
qed

lemma deleted_eq:
  "\<not> definition_referenced wid db \<Longrightarrow>
   deleted wid db = (if wid \<in> wdr_id ` set (workflow_definitions db) then without_definition wid db else db)"
  using delete_existing_definition(1) delete_missing_definition by (simp add: deleted_def)

lemma lookup_delete_other:
  "k \<noteq> i \<Longrightarrow> lookup_row key k (delete_where (\<lambda>r. key r = i) rs) = lookup_row key k rs"
  by (induction rs) (auto simp: lookup_row_def delete_where_def)

lemma loaded_deleted:
  assumes "\<not> definition_referenced wid db"
  shows "loaded k (deleted wid db) = (if k = wid then None else loaded k db)"
proof (cases "wid \<in> wdr_id ` set (workflow_definitions db)")
  case True
  then have db': "deleted wid db = without_definition wid db" using deleted_eq [OF assms] by simp
  show ?thesis
  proof (cases "k = wid")
    case True
    have "wid \<notin> wdr_id ` set (workflow_definitions (without_definition wid db))"
      by (auto simp: without_definition_def)
    then have "lookup_row wdr_id wid (workflow_definitions (without_definition wid db)) = None"
      by (simp add: lookup_row_None_iff)
    then show ?thesis using True by (simp add: db' loaded_eq)
  next
    case False
    have "stored_triggers (without_definition wid db) k = stored_triggers db k"
      using False by (simp add: stored_triggers_def without_definition_def filter_other)
    then show ?thesis
      using False
      by (simp add: db' loaded_eq stored_tasks_delete) (simp add: without_definition_def lookup_delete_other)
  qed
next
  case False
  then have "lookup_row wdr_id wid (workflow_definitions db) = None" by (simp add: lookup_row_None_iff)
  then show ?thesis using deleted_eq [OF assms] False by (simp add: loaded_eq)
qed

interpretation definitions: removable_repository definitions_inv wd_id savable saved loaded
  "\<lambda>db wid. \<not> definition_referenced wid db" deleted
proof
  fix db wd k
  assume inv: "definitions_inv db" and new: "savable db wd"
  then have ok: "schema_ok db" "new_definition db wd" by (simp_all add: definitions_inv_def savable_def)
  note eq = saved_eq [OF ok(1) new]
  show "definitions_inv (saved wd db)" unfolding eq by (rule definitions_inv_save [OF inv ok(2)])
  show "loaded k (saved wd db) = (if k = wd_id wd then Some wd else loaded k db)"
    unfolding eq using load_new_definition [OF ok] loaded_other [OF ok] by (simp add: loaded_def)
  have "lookup_row wdr_id (wd_id wd) (workflow_definitions db) = None"
    using ok(2) by (simp add: lookup_row_None_iff new_definition_def)
  then show "loaded (wd_id wd) db = None" by (simp add: loaded_eq)
next
  fix db wid k
  assume inv: "definitions_inv db" and free: "\<not> definition_referenced wid db"
  show "definitions_inv (deleted wid db)"
    using deleted_eq [OF free] definitions_inv_delete [OF inv free] inv by simp
  show "loaded k (deleted wid db) = (if k = wid then None else loaded k db)" by (rule loaded_deleted [OF free])
qed

end
