(* ===== verification/Execution_Queue.thy ===== *)
theory Execution_Queue
  imports Database
begin

text \<open>
  The execution queue. The locale \<open>execution_queue\<close> is the technology-independent interface of
  \<open>execution_queue/interface.py\<close> with the laws its documentation promises, over the lease table
  \<open>leases q\<close>: which tasks are queued, and the token of the lease that currently holds each. The
  PostgreSQL implementation (\<open>execution_queue/postgres/queue.py\<close>) is modelled statement by
  statement and interprets the locale. Each operation is one transaction on the queue table; the
  rows a concurrent transaction has locked are a parameter of \<open>claim\<close>, which skips them.
\<close>

section \<open>Entries and claims\<close>

record queue_entry =
  qe_task_execution_id :: uuid
  qe_claim_token :: "uuid option"
  qe_claimed_by :: "uuid option"
  qe_queued_at :: datetime
  qe_claimed_at :: "datetime option"
  qe_last_heartbeat :: "datetime option"

record queue_claim =
  cl_task_execution_id :: uuid
  cl_claim_token :: uuid

section \<open>The interface\<close>

text \<open>
  Laws over \<open>leases\<close>: enqueueing adds what is missing and nothing else; claiming takes one queued
  task under the new token; a heartbeat reports ownership and changes no lease; releasing and
  finishing act only for the current owner.
\<close>

definition add_missing :: "uuid list \<Rightarrow> (uuid \<rightharpoonup> uuid option) \<Rightarrow> (uuid \<rightharpoonup> uuid option)" where
  "add_missing ids m = (\<lambda>i. case m i of Some l \<Rightarrow> Some l | None \<Rightarrow> if i \<in> set ids then Some None else None)"

lemma add_missing_Nil [simp]: "add_missing [] m = m"
  by (rule ext) (simp add: add_missing_def split: option.splits)

lemma add_missing_present: "m i = Some l \<Longrightarrow> add_missing ids m i = Some l"
  by (simp add: add_missing_def)

lemma dom_add_missing: "dom (add_missing ids m) = dom m \<union> set ids"
  by (auto simp: add_missing_def split: option.splits if_splits)

locale execution_queue =
  fixes inv :: "'q \<Rightarrow> bool"
    and leases :: "'q \<Rightarrow> uuid \<rightharpoonup> uuid option"
    and enqueue :: "uuid list \<Rightarrow> datetime \<Rightarrow> 'q \<Rightarrow> 'q"
    and claim :: "timedelta \<Rightarrow> (uuid \<Rightarrow> bool) \<Rightarrow> uuid \<Rightarrow> uuid \<Rightarrow> datetime \<Rightarrow> 'q \<Rightarrow> 'q \<times> queue_claim option"
    and heartbeat :: "queue_claim \<Rightarrow> datetime \<Rightarrow> 'q \<Rightarrow> 'q \<times> bool"
    and release :: "queue_claim \<Rightarrow> 'q \<Rightarrow> 'q"
    and finish :: "queue_claim \<Rightarrow> uuid list \<Rightarrow> datetime \<Rightarrow> 'q \<Rightarrow> 'q"
  assumes inv_enqueue: "inv q \<Longrightarrow> inv (enqueue ids now q)"
    and inv_claim: "inv q \<Longrightarrow> inv (fst (claim timeout locked worker token now q))"
    and inv_heartbeat: "inv q \<Longrightarrow> inv (fst (heartbeat c now q))"
    and inv_release: "inv q \<Longrightarrow> inv (release c q)"
    and inv_finish: "inv q \<Longrightarrow> inv (finish c ids now q)"
    and leases_enqueue: "inv q \<Longrightarrow> leases (enqueue ids now q) = add_missing ids (leases q)"
    and claim_None: "inv q \<Longrightarrow> claim timeout locked worker token now q = (q', None) \<Longrightarrow> q' = q"
    and claim_Some: "inv q \<Longrightarrow> claim timeout locked worker token now q = (q', Some c) \<Longrightarrow>
           cl_task_execution_id c \<in> dom (leases q) \<and> cl_claim_token c = token
           \<and> leases q' = (leases q)(cl_task_execution_id c \<mapsto> Some token)"
    and heartbeat_leases: "inv q \<Longrightarrow> leases (fst (heartbeat c now q)) = leases q"
    and heartbeat_result: "inv q \<Longrightarrow> snd (heartbeat c now q) \<longleftrightarrow>
           leases q (cl_task_execution_id c) = Some (Some (cl_claim_token c))"
    and leases_release: "inv q \<Longrightarrow> leases (release c q) =
           (if leases q (cl_task_execution_id c) = Some (Some (cl_claim_token c))
            then (leases q)(cl_task_execution_id c \<mapsto> None) else leases q)"
    and leases_finish: "inv q \<Longrightarrow> leases (finish c ids now q) =
           (if leases q (cl_task_execution_id c) = Some (Some (cl_claim_token c))
            then add_missing ids ((leases q)(cl_task_execution_id c := None)) else leases q)"
begin

text \<open>A claim is live while its token is the one of the current lease.\<close>

definition owns :: "'q \<Rightarrow> queue_claim \<Rightarrow> bool" where
  "owns q c \<longleftrightarrow> leases q (cl_task_execution_id c) = Some (Some (cl_claim_token c))"

lemma one_owner:
  assumes "owns q c" "owns q d" "cl_task_execution_id c = cl_task_execution_id d"
  shows "c = d"
  using assms by (simp add: owns_def)

lemma stale_claim_inert:
  assumes "inv q" "\<not> owns q c"
  shows "\<not> snd (heartbeat c now q)" "leases (release c q) = leases q"
    "leases (finish c ids now q) = leases q"
  using assms by (simp_all add: owns_def heartbeat_result leases_release leases_finish)

lemma claim_gives_ownership:
  assumes "inv q" "claim timeout locked worker token now q = (q', Some c)"
  shows "owns q' c"
  using claim_Some [OF assms] by (simp add: owns_def)

lemma reclaim_ends_ownership:
  assumes "inv q" "claim timeout locked worker token now q = (q', Some d)"
    and "cl_task_execution_id c = cl_task_execution_id d" "cl_claim_token c \<noteq> token"
  shows "\<not> owns q' c"
  using claim_Some [OF assms(1,2)] assms(3,4) by (simp add: owns_def)

lemma claim_other_tasks:
  assumes "inv q" "claim timeout locked worker token now q = (q', Some d)"
    and "i \<noteq> cl_task_execution_id d"
  shows "leases q' i = leases q i"
  using claim_Some [OF assms(1,2)] assms(3) by simp

lemma enqueue_keeps_ownership: "inv q \<Longrightarrow> owns q c \<Longrightarrow> owns (enqueue ids now q) c"
  by (simp add: owns_def leases_enqueue add_missing_present)

lemma enqueue_idempotent:
  "inv q \<Longrightarrow> leases (enqueue ids now' (enqueue ids now q)) = leases (enqueue ids now q)"
  by (rule ext) (simp add: leases_enqueue inv_enqueue add_missing_def split: option.splits)

lemma enqueue_present: "inv q \<Longrightarrow> set ids \<subseteq> dom (leases (enqueue ids now q))"
  by (simp add: leases_enqueue dom_add_missing)

lemma finish_owner:
  assumes "inv q" "owns q c"
  shows "dom (leases (finish c ids now q)) = dom (leases q) - {cl_task_execution_id c} \<union> set ids"
  using assms by (simp add: owns_def leases_finish dom_add_missing)

text \<open>Entries disappear only through the owner's \<open>finish\<close>.\<close>

lemma queued_unless_finished:
  assumes "inv q" "i \<in> dom (leases q)"
  shows "i \<in> dom (leases (enqueue ids now q))"
    and "i \<in> dom (leases (fst (claim timeout locked worker token now q)))"
    and "i \<in> dom (leases (fst (heartbeat c now q)))"
    and "i \<in> dom (leases (release c q))"
    and "i \<noteq> cl_task_execution_id c \<Longrightarrow> i \<in> dom (leases (finish c ids now q))"
proof -
  show "i \<in> dom (leases (fst (claim timeout locked worker token now q)))"
  proof (cases "claim timeout locked worker token now q")
    case (Pair q' r)
    then show ?thesis
      using assms claim_None [of q timeout locked worker token now q']
        claim_Some [of q timeout locked worker token now q'] by (cases r) auto
  qed
  show "i \<in> dom (leases (release c q))"
    using assms by (simp add: leases_release)
qed (use assms in \<open>auto simp: leases_enqueue dom_add_missing heartbeat_leases leases_finish\<close>)

end

text \<open>The operations as data, to speak of sequences of them.\<close>

datatype queue_call =
    EnqueueCall "uuid list" datetime
  | ClaimCall timedelta "uuid \<Rightarrow> bool" uuid uuid datetime
  | HeartbeatCall queue_claim datetime
  | ReleaseCall queue_claim
  | FinishCall queue_claim "uuid list" datetime

fun call_token :: "queue_call \<Rightarrow> uuid option" where
  "call_token (ClaimCall timeout locked worker token now) = Some token"
| "call_token _ = None"

context execution_queue
begin

fun run_call :: "queue_call \<Rightarrow> 'q \<Rightarrow> 'q" where
  "run_call (EnqueueCall ids now) q = enqueue ids now q"
| "run_call (ClaimCall timeout locked worker token now) q = fst (claim timeout locked worker token now q)"
| "run_call (HeartbeatCall c now) q = fst (heartbeat c now q)"
| "run_call (ReleaseCall c) q = release c q"
| "run_call (FinishCall c ids now) q = finish c ids now q"

lemma inv_run_call: "inv q \<Longrightarrow> inv (run_call call q)"
  by (cases call) (simp_all add: inv_enqueue inv_claim inv_heartbeat inv_release inv_finish)

text \<open>
  Fencing: as \<open>uuid4\<close> tokens are fresh, a claim that has been lost is never live again, whatever
  is called afterwards.
\<close>

lemma lost_claim_step:
  assumes "inv q" "\<not> owns q c" "call_token call \<noteq> Some (cl_claim_token c)"
  shows "\<not> owns (run_call call q) c"
proof (cases call)
  case (ClaimCall timeout locked worker token now)
  obtain q' r where q': "claim timeout locked worker token now q = (q', r)" by force
  show ?thesis
  proof (cases r)
    case None
    with q' have "q' = q" using claim_None [OF assms(1)] by blast
    then show ?thesis using q' assms(2) ClaimCall by simp
  next
    case (Some d)
    have "owns q' c \<Longrightarrow> owns q c"
      using claim_Some [OF assms(1)] q' Some assms(3) ClaimCall
      by (auto simp: owns_def split: if_splits)
    then show ?thesis using assms(2) q' ClaimCall by auto
  qed
qed (use assms in \<open>auto simp: owns_def leases_enqueue heartbeat_leases leases_release leases_finish
      add_missing_def split: option.splits if_splits\<close>)

lemma lost_claim_forever:
  "inv q \<Longrightarrow> \<not> owns q c \<Longrightarrow> (\<forall>call \<in> set calls. call_token call \<noteq> Some (cl_claim_token c)) \<Longrightarrow>
   \<not> owns (fold run_call calls q) c"
  by (induction calls arbitrary: q) (simp_all add: lost_claim_step inv_run_call)

end

section \<open>The PostgreSQL queue\<close>

type_synonym queue_table = "queue_entry list"

fun insert_on_conflict_do_nothing :: "datetime \<Rightarrow> uuid list \<Rightarrow> queue_table \<Rightarrow> queue_table" where
  "insert_on_conflict_do_nothing queued_at [] q = q"
| "insert_on_conflict_do_nothing queued_at (task_id # task_ids) q =
     insert_on_conflict_do_nothing queued_at task_ids
       (if task_id \<in> qe_task_execution_id ` set q then q
        else q @ [\<lparr>qe_task_execution_id = task_id, qe_claim_token = None, qe_claimed_by = None,
                   qe_queued_at = queued_at, qe_claimed_at = None, qe_last_heartbeat = None\<rparr>])"

definition insert_queue_entries :: "uuid list \<Rightarrow> datetime \<Rightarrow> queue_table \<Rightarrow> queue_table" where
  "insert_queue_entries task_execution_ids queued_at q =
     (if task_execution_ids = [] then q
      else insert_on_conflict_do_nothing queued_at task_execution_ids q)"

definition enqueue :: "uuid list \<Rightarrow> datetime \<Rightarrow> queue_table \<Rightarrow> queue_table" where
  "enqueue task_execution_ids now q = insert_queue_entries task_execution_ids now q"

definition claimable :: "datetime \<Rightarrow> queue_entry \<Rightarrow> bool" where
  "claimable expiration e \<longleftrightarrow>
     qe_claimed_by e = None
     \<or> (case qe_last_heartbeat e of None \<Rightarrow> False | Some hb \<Rightarrow> hb \<le> expiration)"

text \<open>
  \<open>token\<close> is the value \<open>uuid4()\<close> returns, \<open>locked\<close> the rows other transactions hold locked
  (\<open>SKIP LOCKED\<close>).
\<close>

definition claim :: "timedelta \<Rightarrow> (uuid \<Rightarrow> bool) \<Rightarrow> uuid \<Rightarrow> uuid \<Rightarrow> datetime \<Rightarrow> queue_table \<Rightarrow>
    queue_table \<times> queue_claim option" where
  "claim lease_timeout locked worker_id token now q =
     (let expiration = now - lease_timeout in
      case first_by qe_queued_at
             (select_where (\<lambda>e. claimable expiration e \<and> \<not> locked (qe_task_execution_id e)) q) of
        None \<Rightarrow> (q, None)
      | Some queue_entry \<Rightarrow>
          (update_where (\<lambda>e. qe_task_execution_id e = qe_task_execution_id queue_entry)
             (\<lambda>e. e\<lparr>qe_claimed_by := Some worker_id, qe_claim_token := Some token,
                    qe_claimed_at := Some now, qe_last_heartbeat := Some now\<rparr>) q,
           Some \<lparr>cl_task_execution_id = qe_task_execution_id queue_entry, cl_claim_token = token\<rparr>))"

definition held_by :: "queue_claim \<Rightarrow> queue_entry \<Rightarrow> bool" where
  "held_by c e \<longleftrightarrow>
     qe_task_execution_id e = cl_task_execution_id c \<and> qe_claim_token e = Some (cl_claim_token c)"

definition heartbeat :: "queue_claim \<Rightarrow> datetime \<Rightarrow> queue_table \<Rightarrow> queue_table \<times> bool" where
  "heartbeat c now q =
     (update_where (held_by c) (\<lambda>e. e\<lparr>qe_last_heartbeat := Some now\<rparr>) q, rowcount (held_by c) q = 1)"

definition release :: "queue_claim \<Rightarrow> queue_table \<Rightarrow> queue_table" where
  "release c q =
     update_where (held_by c)
       (\<lambda>e. e\<lparr>qe_claim_token := None, qe_claimed_by := None, qe_claimed_at := None,
              qe_last_heartbeat := None\<rparr>) q"

definition finish :: "queue_claim \<Rightarrow> uuid list \<Rightarrow> datetime \<Rightarrow> queue_table \<Rightarrow> queue_table" where
  "finish c runnable_task_ids now q =
     (let q1 = delete_where (held_by c) q
      in if rowcount (held_by c) q = 1 then insert_queue_entries runnable_task_ids now q1 else q1)"

section \<open>Its invariant and its leases\<close>

text \<open>
  \<open>task_execution_id\<close> is the primary key, and the lease columns are set and cleared together.
\<close>

definition entry_ok :: "queue_entry \<Rightarrow> bool" where
  "entry_ok e \<longleftrightarrow>
     (qe_claim_token e = None \<longleftrightarrow> qe_claimed_by e = None)
     \<and> (qe_claimed_at e = None \<longleftrightarrow> qe_claimed_by e = None)
     \<and> (qe_last_heartbeat e = None \<longleftrightarrow> qe_claimed_by e = None)"

definition queue_inv :: "queue_table \<Rightarrow> bool" where
  "queue_inv q \<longleftrightarrow> distinct (map qe_task_execution_id q) \<and> (\<forall>e \<in> set q. entry_ok e)"

definition queue_leases :: "queue_table \<Rightarrow> uuid \<rightharpoonup> uuid option" where
  "queue_leases q i = map_option qe_claim_token (lookup_row qe_task_execution_id i q)"

lemma dom_queue_leases: "dom (queue_leases q) = qe_task_execution_id ` set q"
  by (auto simp: queue_leases_def dom_def image_iff)
    (metis lookup_row_SomeD, metis lookup_row_None_iff imageI not_Some_eq)

lemma queue_leases_Some_iff:
  "queue_inv q \<Longrightarrow> queue_leases q i = Some l \<longleftrightarrow>
   (\<exists>e \<in> set q. qe_task_execution_id e = i \<and> qe_claim_token e = l)"
  by (auto simp: queue_leases_def queue_inv_def lookup_row_Some_iff)

lemma queue_leases_append:
  "queue_leases (q @ [e]) =
     (\<lambda>i. case queue_leases q i of Some l \<Rightarrow> Some l
          | None \<Rightarrow> if i = qe_task_execution_id e then Some (qe_claim_token e) else None)"
  by (induction q) (auto simp: queue_leases_def lookup_row_def fun_eq_iff)

lemma queue_leases_update:
  assumes "\<And>e. P e \<Longrightarrow> qe_task_execution_id (f e) = qe_task_execution_id e"
  shows "queue_leases (update_where P f q) i =
     map_option (\<lambda>e. qe_claim_token (if P e then f e else e)) (lookup_row qe_task_execution_id i q)"
  using lookup_row_update_where [of P qe_task_execution_id f i q] assms
  by (simp add: queue_leases_def option.map_comp comp_def)

lemma insert_on_conflict_inv:
  "queue_inv q \<Longrightarrow> queue_inv (insert_on_conflict_do_nothing queued_at ids q)"
proof (induction ids arbitrary: q)
  case Nil
  then show ?case by simp
next
  case (Cons i ids)
  show ?case
  proof (cases "i \<in> qe_task_execution_id ` set q")
    case True
    with Cons show ?thesis by simp
  next
    case False
    have "queue_inv (q @ [\<lparr>qe_task_execution_id = i, qe_claim_token = None, qe_claimed_by = None,
        qe_queued_at = queued_at, qe_claimed_at = None, qe_last_heartbeat = None\<rparr>])"
      using Cons.prems False unfolding queue_inv_def by (simp add: entry_ok_def ball_Un)
    then show ?thesis using Cons.IH False by simp
  qed
qed

lemma add_missing_Cons:
  "add_missing (i # ids) m = add_missing ids (case m i of None \<Rightarrow> m(i \<mapsto> None) | Some _ \<Rightarrow> m)"
proof
  fix j
  show "add_missing (i # ids) m j =
      add_missing ids (case m i of None \<Rightarrow> m(i \<mapsto> None) | Some _ \<Rightarrow> m) j"
    by (cases "m i"; cases "m j") (auto simp: add_missing_def)
qed

lemma queue_leases_insert:
  "queue_leases (insert_on_conflict_do_nothing queued_at ids q) = add_missing ids (queue_leases q)"
proof (induction ids arbitrary: q)
  case Nil
  then show ?case by simp
next
  case (Cons i ids)
  show ?case
  proof (cases "i \<in> qe_task_execution_id ` set q")
    case True
    then obtain l where "queue_leases q i = Some l" using dom_queue_leases [of q] by blast
    with True Cons show ?thesis by (simp add: add_missing_Cons)
  next
    case False
    then have none: "queue_leases q i = None" using dom_queue_leases [of q] by blast
    let ?e = "\<lparr>qe_task_execution_id = i, qe_claim_token = None, qe_claimed_by = None,
               qe_queued_at = queued_at, qe_claimed_at = None, qe_last_heartbeat = None\<rparr>"
    have "queue_leases (q @ [?e]) = (queue_leases q)(i \<mapsto> None)"
      using none by (auto simp: queue_leases_append fun_eq_iff split: option.splits)
    with False Cons none show ?thesis by (simp add: add_missing_Cons fun_upd_def)
  qed
qed

lemma queue_leases_entries: "queue_leases (insert_queue_entries ids at q) = add_missing ids (queue_leases q)"
  by (simp add: insert_queue_entries_def queue_leases_insert)

lemma insert_queue_entries_inv: "queue_inv q \<Longrightarrow> queue_inv (insert_queue_entries ids at q)"
  by (simp add: insert_queue_entries_def insert_on_conflict_inv)

lemma queue_inv_update:
  assumes "queue_inv q" "\<And>e. qe_task_execution_id (f e) = qe_task_execution_id e"
    and "\<And>e. P e \<Longrightarrow> entry_ok e \<Longrightarrow> entry_ok (f e)"
  shows "queue_inv (update_where P f q)"
  using assms by (auto simp: queue_inv_def map_update_where set_update_where)

lemma queue_inv_delete: "queue_inv q \<Longrightarrow> queue_inv (delete_where P q)"
  by (auto simp: queue_inv_def delete_where_def distinct_map_filter)

lemma queue_leases_delete:
  assumes "queue_inv q"
  shows "queue_leases (delete_where (held_by c) q) =
     (if queue_leases q (cl_task_execution_id c) = Some (Some (cl_claim_token c))
      then (queue_leases q)(cl_task_execution_id c := None) else queue_leases q)"
    (is "?l = ?r")
proof -
  have ids: "distinct (map qe_task_execution_id q)" using assms by (simp add: queue_inv_def)
  note iff = queue_leases_Some_iff [OF assms]
  have kept: "(\<exists>e \<in> set q. \<not> held_by c e \<and> qe_task_execution_id e = i \<and> qe_claim_token e = l)
      \<longleftrightarrow> ?r i = Some l" for i l
  proof (cases "i = cl_task_execution_id c")
    case False
    then show ?thesis using iff by (auto simp: held_by_def)
  next
    case i: True
    show ?thesis
    proof (cases "queue_leases q (cl_task_execution_id c) = Some (Some (cl_claim_token c))")
      case True
      then obtain e where e: "e \<in> set q" "held_by c e" using iff by (auto simp: held_by_def)
      have "e' = e" if "e' \<in> set q" "qe_task_execution_id e' = i" for e'
        by (rule distinct_key_eq [OF ids]) (use that e i in \<open>simp_all add: held_by_def\<close>)
      with e True i show ?thesis by auto
    next
      case False
      then have "\<not> held_by c e" if "e \<in> set q" for e using iff that by (auto simp: held_by_def)
      with False iff show ?thesis by auto
    qed
  qed
  have "?l i = Some l \<longleftrightarrow> ?r i = Some l" for i l
    unfolding kept [symmetric] queue_leases_Some_iff [OF queue_inv_delete [OF assms]]
    by (auto simp: set_delete_where)
  then show ?thesis by (intro ext option_eqI)
qed

lemma rowcount_held:
  assumes "queue_inv q"
  shows "rowcount (held_by c) q = 1 \<longleftrightarrow>
     queue_leases q (cl_task_execution_id c) = Some (Some (cl_claim_token c))"
  using rowcount_key_1_iff [of qe_task_execution_id q "cl_task_execution_id c"
      "\<lambda>e. qe_claim_token e = Some (cl_claim_token c)"] assms
  by (simp add: held_by_def [abs_def] queue_leases_Some_iff) (simp add: queue_inv_def)

text \<open>What \<open>claim\<close> chooses and writes.\<close>

lemma claim_SomeD:
  assumes "claim timeout locked worker token now q = (q', Some c)"
  obtains e where "e \<in> set q" "claimable (now - timeout) e" "\<not> locked (qe_task_execution_id e)"
    "\<forall>d \<in> set q. claimable (now - timeout) d \<and> \<not> locked (qe_task_execution_id d) \<longrightarrow>
       qe_queued_at e \<le> qe_queued_at d"
    "c = \<lparr>cl_task_execution_id = qe_task_execution_id e, cl_claim_token = token\<rparr>"
    "q' = update_where (\<lambda>d. qe_task_execution_id d = qe_task_execution_id e)
       (\<lambda>d. d\<lparr>qe_claimed_by := Some worker, qe_claim_token := Some token,
              qe_claimed_at := Some now, qe_last_heartbeat := Some now\<rparr>) q"
proof -
  let ?rows = "select_where (\<lambda>e. claimable (now - timeout) e \<and> \<not> locked (qe_task_execution_id e)) q"
  obtain e where e: "first_by qe_queued_at ?rows = Some e"
    using assms by (cases "first_by qe_queued_at ?rows") (simp_all add: claim_def)
  show thesis
  proof (rule that)
    show "e \<in> set q" "claimable (now - timeout) e" "\<not> locked (qe_task_execution_id e)"
      using first_by_Some [OF e] by simp_all
    show "\<forall>d \<in> set q. claimable (now - timeout) d \<and> \<not> locked (qe_task_execution_id d) \<longrightarrow>
       qe_queued_at e \<le> qe_queued_at d"
      using first_by_Some [OF e] by simp
    show "c = \<lparr>cl_task_execution_id = qe_task_execution_id e, cl_claim_token = token\<rparr>"
      "q' = update_where (\<lambda>d. qe_task_execution_id d = qe_task_execution_id e)
       (\<lambda>d. d\<lparr>qe_claimed_by := Some worker, qe_claim_token := Some token,
              qe_claimed_at := Some now, qe_last_heartbeat := Some now\<rparr>) q"
      using assms e by (simp_all add: claim_def)
  qed
qed

lemma claim_NoneD:
  assumes "claim timeout locked worker token now q = (q', None)"
  shows "q' = q \<and> (\<forall>e \<in> set q. claimable (now - timeout) e \<longrightarrow> locked (qe_task_execution_id e))"
proof -
  let ?rows = "select_where (\<lambda>e. claimable (now - timeout) e \<and> \<not> locked (qe_task_execution_id e)) q"
  have "first_by qe_queued_at ?rows = None"
    using assms by (cases "first_by qe_queued_at ?rows") (simp_all add: claim_def)
  moreover from this have "q' = q"
    using assms by (simp add: claim_def)
  ultimately have "?rows = []" and "q' = q" by (simp_all add: first_by_None)
  then show ?thesis by (auto simp: select_where_def filter_empty_conv)
qed

lemma queue_leases_relabel:
  assumes "queue_inv q" "e \<in> set q" "\<And>d. qe_task_execution_id (f d) = qe_task_execution_id d"
    and "\<And>d. qe_claim_token (f d) = t"
  shows "queue_leases (update_where (\<lambda>d. qe_task_execution_id d = qe_task_execution_id e) f q) =
     (queue_leases q)(qe_task_execution_id e \<mapsto> t)"
proof
  fix i
  have e: "lookup_row qe_task_execution_id (qe_task_execution_id e) q = Some e"
    using assms(1,2) by (simp add: queue_inv_def lookup_row_Some_iff)
  have upd: "queue_leases (update_where (\<lambda>d. qe_task_execution_id d = qe_task_execution_id e) f q) i =
      map_option (\<lambda>d. qe_claim_token (if qe_task_execution_id d = qe_task_execution_id e then f d else d))
        (lookup_row qe_task_execution_id i q)"
    by (rule queue_leases_update) (rule assms(3))
  show "queue_leases (update_where (\<lambda>d. qe_task_execution_id d = qe_task_execution_id e) f q) i =
      ((queue_leases q)(qe_task_execution_id e \<mapsto> t)) i"
  proof (cases "i = qe_task_execution_id e")
    case True
    then show ?thesis using upd e by (simp add: assms(4))
  next
    case False
    have "qe_task_execution_id d = i" if "lookup_row qe_task_execution_id i q = Some d" for d
      using lookup_row_SomeD [OF that] by simp
    then show ?thesis
      using False by (cases "lookup_row qe_task_execution_id i q") (simp_all add: upd, simp_all add: queue_leases_def)
  qed
qed

interpretation pg: execution_queue queue_inv queue_leases enqueue claim heartbeat release finish
proof unfold_locales
  fix q :: queue_table and ids now and c :: queue_claim
  assume inv: "queue_inv q"
  show "queue_inv (enqueue ids now q)" "queue_leases (enqueue ids now q) = add_missing ids (queue_leases q)"
    using inv by (simp_all add: enqueue_def insert_queue_entries_inv queue_leases_entries)
  show "queue_inv (fst (heartbeat c now q))"
    using inv by (auto simp: heartbeat_def held_by_def entry_ok_def intro!: queue_inv_update)
  show "queue_inv (release c q)"
    using inv by (auto simp: release_def entry_ok_def intro!: queue_inv_update)
  show "queue_inv (finish c ids now q)"
    using inv by (simp add: finish_def Let_def insert_queue_entries_inv queue_inv_delete)
  show "snd (heartbeat c now q) \<longleftrightarrow>
      queue_leases q (cl_task_execution_id c) = Some (Some (cl_claim_token c))"
    using rowcount_held [OF inv] by (simp add: heartbeat_def)
  show "queue_leases (finish c ids now q) =
      (if queue_leases q (cl_task_execution_id c) = Some (Some (cl_claim_token c))
       then add_missing ids ((queue_leases q)(cl_task_execution_id c := None)) else queue_leases q)"
    using rowcount_held [OF inv, of c] queue_leases_delete [OF inv, of c]
    by (simp add: finish_def Let_def queue_leases_entries)
  show "queue_leases (fst (heartbeat c now q)) = queue_leases q"
  proof
    fix i
    show "queue_leases (fst (heartbeat c now q)) i = queue_leases q i"
      unfolding heartbeat_def fst_conv
      by (subst queue_leases_update; cases "lookup_row qe_task_execution_id i q")
        (simp_all add: queue_leases_def)
  qed
  show "queue_leases (release c q) =
      (if queue_leases q (cl_task_execution_id c) = Some (Some (cl_claim_token c))
       then (queue_leases q)(cl_task_execution_id c \<mapsto> None) else queue_leases q)"
  proof
    fix i
    show "queue_leases (release c q) i =
        (if queue_leases q (cl_task_execution_id c) = Some (Some (cl_claim_token c))
         then (queue_leases q)(cl_task_execution_id c \<mapsto> None) else queue_leases q) i"
      using lookup_row_SomeD [of qe_task_execution_id i q]
      by (cases "lookup_row qe_task_execution_id i q")
        (auto simp: release_def queue_leases_def lookup_row_update_where held_by_def)
  qed
next
  fix timeout locked worker token now and q :: queue_table
  assume inv: "queue_inv q"
  show "queue_inv (fst (claim timeout locked worker token now q))"
    using inv by (auto simp: claim_def Let_def entry_ok_def intro!: queue_inv_update split: option.splits)
next
  fix timeout locked worker token now and q q' :: queue_table
  assume "queue_inv q" "claim timeout locked worker token now q = (q', None)"
  then show "q' = q" by (blast dest: claim_NoneD)
next
  fix timeout locked worker token now c and q q' :: queue_table
  assume inv: "queue_inv q" and "claim timeout locked worker token now q = (q', Some c)"
  then obtain e where e: "e \<in> set q"
    and c: "c = \<lparr>cl_task_execution_id = qe_task_execution_id e, cl_claim_token = token\<rparr>"
    and q': "q' = update_where (\<lambda>d. qe_task_execution_id d = qe_task_execution_id e)
       (\<lambda>d. d\<lparr>qe_claimed_by := Some worker, qe_claim_token := Some token,
              qe_claimed_at := Some now, qe_last_heartbeat := Some now\<rparr>) q"
    by (blast elim: claim_SomeD)
  show "cl_task_execution_id c \<in> dom (queue_leases q) \<and> cl_claim_token c = token
      \<and> queue_leases q' = (queue_leases q)(cl_task_execution_id c \<mapsto> Some token)"
    using e c q' inv by (simp add: dom_queue_leases queue_leases_relabel)
qed

end
