(* ===== verification/Workflow_Start.thy ===== *)
theory Workflow_Start
  imports Definition_Repository Execution_Invariants Execution_Queue
begin

text \<open>
  Starting a workflow (\<open>application/workflow_start/services.py\<close>): the definition is compiled into
  one pending task execution per task definition, dependencies become parent and child
  identifiers, the execution is inserted in one transaction, and after the commit the tasks
  without dependencies are enqueued.
\<close>

section \<open>Transactions followed by queue operations\<close>

text \<open>
  The service works on a unit of work and on the queue, which has transactions of its own.
\<close>

type_synonym platform = "database \<times> queue_table"

definition on_session :: "(session, 'a) op \<Rightarrow> (session \<times> queue_table, 'a) op" where
  "on_session m s = (case m (fst s) of (u, r) \<Rightarrow> ((u, snd s), r))"

definition on_queue :: "(queue_table \<Rightarrow> queue_table) \<Rightarrow> (session \<times> queue_table, unit) op" where
  "on_queue f s = ((fst s, f (snd s)), Inr ())"

text \<open>\<open>with uow_factory() as uow: body\<close>, where the body also calls the queue.\<close>

definition with_uow_and_queue :: "(session \<times> queue_table, 'a) op \<Rightarrow> (platform, 'a) op" where
  "with_uow_and_queue body p =
     (case body (uow_factory (fst p), snd p) of ((u, q), r) \<Rightarrow> ((uow_exit u r, q), r))"

section \<open>Compiling a definition\<close>

definition task_execution_ids :: "(nat \<Rightarrow> uuid) \<Rightarrow> task_definition list \<Rightarrow> (uuid \<times> uuid) list" where
  "task_execution_ids fresh tds = dict_of (map (\<lambda>(i, td). (td_id td, fresh i)) (enumerate 0 tds))"

text \<open>The loop \<open>children[parent_id].append(task_execution_id)\<close>, over a dictionary of empty lists.\<close>

fun link_children ::
  "(uuid \<times> uuid) list \<Rightarrow> task_definition list \<Rightarrow> (uuid \<times> uuid list) list \<Rightarrow> (uuid \<times> uuid list) list result" where
  "link_children ids [] children = Inr children"
| "link_children ids (td # tds) children =
     bind_result (dict_get ids (td_id td)) (\<lambda>task_execution_id.
     bind_result (append_child task_execution_id (td_dependencies td) children)
       (link_children ids tds))"

definition create_child_task_lookup ::
  "task_definition list \<Rightarrow> (uuid \<times> uuid) list \<Rightarrow> (uuid \<times> uuid list) list result" where
  "create_child_task_lookup tds ids =
     link_children ids tds (dict_of (map (\<lambda>td. (td_id td, [])) tds))"

definition create_task_execution ::
  "uuid \<Rightarrow> (uuid \<times> uuid) list \<Rightarrow> (uuid \<times> uuid list) list \<Rightarrow> task_definition \<Rightarrow> task_execution result" where
  "create_task_execution workflow_execution_id ids child_task_ids td =
     bind_result (dict_get ids (td_id td)) (\<lambda>tid.
     bind_result (map_result (dict_get ids) (td_dependencies td)) (\<lambda>parents.
     bind_result (dict_get child_task_ids (td_id td)) (\<lambda>children.
       Inr \<lparr>te_id = tid,
            te_workflow_execution_id = workflow_execution_id,
            te_task_definition_id = td_id td,
            te_key = td_key td,
            te_plugin_type = td_plugin_type td,
            te_configuration = td_configuration td,
            te_status = Pending,
            te_remaining_dependencies = int (length (td_dependencies td)),
            te_remaining_tries = td_max_tries td,
            te_parent_task_ids = parents,
            te_child_task_ids = children,
            te_output = None, te_error_message = None, te_started_at = None,
            te_completed_at = None\<rparr>)))"

text \<open>
  \<open>uuid4\<close> is drawn first for the execution (\<open>fresh 0\<close>), then once per task definition.
  \<open>created_at\<close> is the default of the dataclass field, the current time.
\<close>

definition create_workflow_execution ::
  "(nat \<Rightarrow> uuid) \<Rightarrow> datetime \<Rightarrow> workflow_definition \<Rightarrow> (workflow_execution \<times> uuid list) result" where
  "create_workflow_execution fresh now wd =
     (let workflow_execution_id = fresh 0;
          ids = task_execution_ids (\<lambda>i. fresh (Suc i)) (wd_task_definitions wd)
      in bind_result (create_child_task_lookup (wd_task_definitions wd) ids) (\<lambda>child_task_ids.
         bind_result (map_result (create_task_execution workflow_execution_id ids child_task_ids)
                        (wd_task_definitions wd)) (\<lambda>tasks.
           Inr (\<lparr>we_id = workflow_execution_id,
                 we_workflow_definition_id = wd_id wd,
                 we_status = WfRunning,
                 we_task_executions = tasks,
                 we_created_at = now, we_started_at = None, we_completed_at = None\<rparr>,
                map te_id (filter (\<lambda>t. te_remaining_dependencies t = 0) tasks)))))"

section \<open>The service\<close>

definition start_and_commit ::
  "(nat \<Rightarrow> uuid) \<Rightarrow> datetime \<Rightarrow> datetime \<Rightarrow> uuid \<Rightarrow> (session \<times> queue_table, uuid) op" where
  "start_and_commit fresh now enqueued_at workflow_definition_id =
     andThen (on_session (in_uow (load_definition workflow_definition_id))) (\<lambda>loaded.
       case loaded of
         None \<Rightarrow> raise (WorkflowDefinitionNotFoundError workflow_definition_id)
       | Some wd \<Rightarrow>
           if \<not> wd_enabled wd then raise (WorkflowDefinitionDisabledError workflow_definition_id)
           else
             (case create_workflow_execution fresh now wd of
                Inl e \<Rightarrow> raise e
              | Inr (workflow_execution, root_task_ids) \<Rightarrow>
                  andThen (on_session (in_uow (create_execution workflow_execution))) (\<lambda>_.
                  andThen (on_session uow_commit) (\<lambda>_.
                  andThen (on_queue (enqueue root_task_ids enqueued_at)) (\<lambda>_.
                    ret (we_id workflow_execution))))))"

definition start_workflow ::
  "(nat \<Rightarrow> uuid) \<Rightarrow> datetime \<Rightarrow> datetime \<Rightarrow> uuid \<Rightarrow> (platform, uuid) op" where
  "start_workflow fresh now enqueued_at workflow_definition_id =
     with_uow_and_queue (start_and_commit fresh now enqueued_at workflow_definition_id)"

section \<open>The compiled graph\<close>

definition exec_id :: "(nat \<Rightarrow> uuid) \<Rightarrow> task_definition list \<Rightarrow> uuid \<Rightarrow> uuid" where
  "exec_id fresh tds i =
     (case map_of (task_execution_ids fresh tds) i of None \<Rightarrow> fresh 0 | Some x \<Rightarrow> x)"

definition execution_of :: "(nat \<Rightarrow> uuid) \<Rightarrow> uuid \<Rightarrow> task_definition list \<Rightarrow> task_definition \<Rightarrow> task_execution" where
  "execution_of fresh wid tds td =
     \<lparr>te_id = exec_id fresh tds (td_id td),
      te_workflow_execution_id = wid,
      te_task_definition_id = td_id td,
      te_key = td_key td,
      te_plugin_type = td_plugin_type td,
      te_configuration = td_configuration td,
      te_status = Pending,
      te_remaining_dependencies = int (length (td_dependencies td)),
      te_remaining_tries = td_max_tries td,
      te_parent_task_ids = map (exec_id fresh tds) (td_dependencies td),
      te_child_task_ids =
        map (\<lambda>u. exec_id fresh tds (td_id u)) (filter (\<lambda>u. td_id td \<in> set (td_dependencies u)) tds),
      te_output = None, te_error_message = None, te_started_at = None,
      te_completed_at = None\<rparr>"

lemma map_id_enumerate:
  "map fst (map (\<lambda>(i, td). (td_id td, fresh i)) (enumerate n tds)) = map td_id tds"
  by (induction tds arbitrary: n) simp_all

lemma task_execution_ids_distinct:
  "distinct (map td_id tds) \<Longrightarrow>
   task_execution_ids fresh tds = map (\<lambda>(i, td). (td_id td, fresh i)) (enumerate 0 tds)"
  unfolding task_execution_ids_def by (rule dict_of_distinct) (simp only: map_id_enumerate)

lemma exec_id_nth:
  assumes "distinct (map td_id tds)" "i < length tds"
  shows "map_of (task_execution_ids fresh tds) (td_id (tds ! i)) = Some (fresh i)"
  unfolding task_execution_ids_distinct [OF assms(1)]
proof (rule map_of_is_SomeI)
  show "distinct (map fst (map (\<lambda>(i, td). (td_id td, fresh i)) (enumerate 0 tds)))"
    using assms(1) by (simp only: map_id_enumerate)
  have "(i, tds ! i) \<in> set (enumerate 0 tds)"
    using assms(2) by (simp add: in_set_enumerate_eq)
  then show "(td_id (tds ! i), fresh i) \<in> set (map (\<lambda>(i, td). (td_id td, fresh i)) (enumerate 0 tds))"
    by force
qed

lemma exec_id_draw:
  assumes "distinct (map td_id tds)" "d \<in> td_id ` set tds"
  obtains i where "i < length tds" "d = td_id (tds ! i)" "exec_id fresh tds d = fresh i"
    "map_of (task_execution_ids fresh tds) d = Some (exec_id fresh tds d)"
proof -
  obtain i where i: "i < length tds" "d = td_id (tds ! i)"
    using assms(2) by (auto simp: in_set_conv_nth)
  with exec_id_nth [OF assms(1) i(1), of fresh] show thesis
    by (intro that [of i]) (simp_all add: exec_id_def)
qed

lemma exec_id_inj:
  assumes "distinct (map td_id tds)" "inj_on fresh {..<length tds}"
  shows "inj_on (exec_id fresh tds) (td_id ` set tds)"
proof (rule inj_onI)
  fix k l assume k: "k \<in> td_id ` set tds" and l: "l \<in> td_id ` set tds"
    and eq: "exec_id fresh tds k = exec_id fresh tds l"
  obtain i where i: "i < length tds" "k = td_id (tds ! i)" "exec_id fresh tds k = fresh i"
    by (rule exec_id_draw [OF assms(1) k])
  obtain j where j: "j < length tds" "l = td_id (tds ! j)" "exec_id fresh tds l = fresh j"
    by (rule exec_id_draw [OF assms(1) l])
  have "i = j" using eq i j assms(2) by (auto dest: inj_onD)
  then show "k = l" using i j by simp
qed

lemma link_children_eq:
  assumes "\<And>td. td \<in> set tds \<Longrightarrow> map_of ids (td_id td) = Some (x (td_id td))"
    and "\<forall>td \<in> set tds. distinct (td_dependencies td)
           \<and> (\<forall>d \<in> set (td_dependencies td). map_of children d \<noteq> None)"
  shows "\<exists>children'. link_children ids tds children = Inr children'
     \<and> (\<forall>k. map_of children' k = map_option
            (\<lambda>xs. xs @ map (\<lambda>u. x (td_id u)) (filter (\<lambda>u. k \<in> set (td_dependencies u)) tds))
            (map_of children k))"
  using assms
proof (induction tds arbitrary: children)
  case Nil
  then show ?case by (simp add: option.map_ident)
next
  case (Cons td tds)
  have x: "dict_get ids (td_id td) = Inr (x (td_id td))" using Cons.prems(1) by simp
  obtain mid where mid: "append_child (x (td_id td)) (td_dependencies td) children = Inr mid"
    and mid_map: "\<forall>k. map_of mid k = (if k \<in> set (td_dependencies td)
         then map_option (\<lambda>ks. ks @ [x (td_id td)]) (map_of children k) else map_of children k)"
    using append_child_eq [of "td_dependencies td" children "x (td_id td)"] Cons.prems(2) by auto
  have dom: "map_of mid d \<noteq> None \<longleftrightarrow> map_of children d \<noteq> None" for d using mid_map by auto
  have "\<forall>u \<in> set tds. distinct (td_dependencies u) \<and> (\<forall>d \<in> set (td_dependencies u). map_of mid d \<noteq> None)"
    unfolding dom using Cons.prems(2) by simp
  from Cons.IH [OF Cons.prems(1) this] obtain children' where
    c: "link_children ids tds mid = Inr children'"
    "\<forall>k. map_of children' k = map_option
        (\<lambda>xs. xs @ map (\<lambda>u. x (td_id u)) (filter (\<lambda>u. k \<in> set (td_dependencies u)) tds)) (map_of mid k)"
    by auto
  have "link_children ids (td # tds) children = Inr children'" using x mid c(1) by simp
  moreover have "\<forall>k. map_of children' k = map_option
        (\<lambda>xs. xs @ map (\<lambda>u. x (td_id u)) (filter (\<lambda>u. k \<in> set (td_dependencies u)) (td # tds)))
        (map_of children k)"
    using c(2) mid_map by (simp add: option.map_comp comp_def)
  ultimately show ?case by blast
qed

lemma create_workflow_execution_eq:
  assumes "definition_ok (wd_task_definitions wd)"
  shows "create_workflow_execution fresh now wd =
     (let tasks = map (execution_of (\<lambda>i. fresh (Suc i)) (fresh 0) (wd_task_definitions wd))
                    (wd_task_definitions wd)
      in Inr (\<lparr>we_id = fresh 0, we_workflow_definition_id = wd_id wd, we_status = WfRunning,
               we_task_executions = tasks, we_created_at = now, we_started_at = None,
               we_completed_at = None\<rparr>,
              map te_id (filter (\<lambda>t. te_remaining_dependencies t = 0) tasks)))"
proof -
  let ?tds = "wd_task_definitions wd" and ?f = "\<lambda>i. fresh (Suc i)"
  let ?ids = "task_execution_ids ?f ?tds" and ?c0 = "map (\<lambda>td. (td_id td, [] :: uuid list)) ?tds"
  have dist: "distinct (map td_id ?tds)"
    and deps: "\<forall>td \<in> set ?tds. distinct (td_dependencies td) \<and> set (td_dependencies td) \<subseteq> td_id ` set ?tds"
    using assms by (simp_all add: definition_ok_def)
  have known: "map_of ?ids d = Some (exec_id ?f ?tds d)" if "d \<in> td_id ` set ?tds" for d
    by (rule exec_id_draw [OF dist that])
  have c0: "dict_of ?c0 = ?c0" using dist by (intro dict_of_distinct) (simp add: comp_def)
  have "\<exists>children. link_children ?ids ?tds ?c0 = Inr children
     \<and> (\<forall>k. map_of children k = map_option
            (\<lambda>xs. xs @ map (\<lambda>u. exec_id ?f ?tds (td_id u)) (filter (\<lambda>u. k \<in> set (td_dependencies u)) ?tds))
            (map_of ?c0 k))"
  proof (rule link_children_eq)
    show "map_of ?ids (td_id td) = Some (exec_id ?f ?tds (td_id td))" if "td \<in> set ?tds" for td
      using known that by simp
    show "\<forall>td \<in> set ?tds. distinct (td_dependencies td)
        \<and> (\<forall>d \<in> set (td_dependencies td). map_of ?c0 d \<noteq> None)"
      using deps by (auto simp: map_of_keys)
  qed
  then obtain children where ch: "link_children ?ids ?tds ?c0 = Inr children"
    and ch_map: "\<And>td. td \<in> set ?tds \<Longrightarrow> map_of children (td_id td) =
       Some (map (\<lambda>u. exec_id ?f ?tds (td_id u)) (filter (\<lambda>u. td_id td \<in> set (td_dependencies u)) ?tds))"
    by (auto simp: map_of_keys)
  have "map_result (create_task_execution (fresh 0) ?ids children) ?tds
      = Inr (map (execution_of ?f (fresh 0) ?tds) ?tds)"
  proof (rule map_result_Inr)
    fix td assume td: "td \<in> set ?tds"
    have "map_result (dict_get ?ids) (td_dependencies td) = Inr (map (exec_id ?f ?tds) (td_dependencies td))"
    proof (rule map_result_Inr)
      fix d assume "d \<in> set (td_dependencies td)"
      then have "d \<in> td_id ` set ?tds" using deps td by blast
      then show "dict_get ?ids d = Inr (exec_id ?f ?tds d)" by (rule dict_get_Some [OF known])
    qed
    then show "create_task_execution (fresh 0) ?ids children td = Inr (execution_of ?f (fresh 0) ?tds td)"
      using known [of "td_id td"] ch_map [OF td] td
      by (simp add: create_task_execution_def execution_of_def)
  qed
  then show ?thesis
    by (simp add: create_workflow_execution_def create_child_task_lookup_def c0 ch Let_def)
qed

section \<open>The compiled execution is a new, well-formed execution\<close>

definition execution_rows :: "(nat \<Rightarrow> uuid) \<Rightarrow> uuid \<Rightarrow> task_definition list \<Rightarrow> task_row list" where
  "execution_rows fresh wid tds = map (\<lambda>td. task_to_model (execution_of fresh wid tds td)) tds"

lemma row_of_execution [simp]:
  "t_id (task_to_model (execution_of fresh wid tds td)) = exec_id fresh tds (td_id td)"
  "t_workflow_execution_id (task_to_model (execution_of fresh wid tds td)) = wid"
  "t_task_definition_id (task_to_model (execution_of fresh wid tds td)) = td_id td"
  "t_key (task_to_model (execution_of fresh wid tds td)) = td_key td"
  "t_status (task_to_model (execution_of fresh wid tds td)) = Pending"
  "t_remaining_dependencies (task_to_model (execution_of fresh wid tds td)) = int (length (td_dependencies td))"
  "t_remaining_tries (task_to_model (execution_of fresh wid tds td)) = td_max_tries td"
  "t_parent_task_ids (task_to_model (execution_of fresh wid tds td)) = map (exec_id fresh tds) (td_dependencies td)"
  "t_child_task_ids (task_to_model (execution_of fresh wid tds td)) =
     map (\<lambda>u. exec_id fresh tds (td_id u)) (filter (\<lambda>u. td_id td \<in> set (td_dependencies u)) tds)"
  by (simp_all add: task_to_model_def execution_of_def)

lemma finite_definition_edges: "finite (definition_edges tds)"
proof -
  have "definition_edges tds = (\<Union>t \<in> set tds. (\<lambda>d. (d, td_id t)) ` set (td_dependencies t))"
    by (auto simp: definition_edges_def)
  then show ?thesis by simp
qed

lemma execution_rows_graph:
  assumes ok: "definition_ok tds" and inj: "inj_on fresh {..<length tds}"
  shows "graph_ok (execution_rows fresh wid tds)"
proof -
  let ?x = "exec_id fresh tds" and ?row = "\<lambda>td. task_to_model (execution_of fresh wid tds td)"
  have dist: "distinct (map td_id tds)" and keys: "distinct (map td_key tds)"
    and deps: "\<And>td. td \<in> set tds \<Longrightarrow> distinct (td_dependencies td) \<and> set (td_dependencies td) \<subseteq> td_id ` set tds"
    and acyc: "acyclic (definition_edges tds)"
    using ok by (simp_all add: definition_ok_def)
  note x_inj = exec_id_inj [OF dist inj]
  have "distinct (map (\<lambda>td. ?x (td_id td)) tds)"
    using dist comp_inj_on [of td_id "set tds" ?x] x_inj by (simp add: distinct_map comp_def)
  then have ids: "distinct (task_ids (execution_rows fresh wid tds))"
    by (simp add: execution_rows_def comp_def)
  have mirror: "mirrored (execution_rows fresh wid tds) (?row td)" if td: "td \<in> set tds" for td
    unfolding mirrored_def row_of_execution
  proof (intro conjI ballI)
    show "distinct (map ?x (td_dependencies td))"
      using deps [OF td] inj_on_subset [OF x_inj] by (simp add: distinct_map)
    show "distinct (map (\<lambda>u. ?x (td_id u)) (filter (\<lambda>u. td_id td \<in> set (td_dependencies u)) tds))"
      using \<open>distinct (map (\<lambda>td. ?x (td_id td)) tds)\<close> by (rule distinct_map_filter)
    fix p assume "p \<in> set (map ?x (td_dependencies td))"
    then obtain d where d: "d \<in> set (td_dependencies td)" "p = ?x d" by auto
    then obtain u where u: "u \<in> set tds" "d = td_id u" using deps [OF td] by blast
    show "\<exists>r \<in> set (execution_rows fresh wid tds). t_id r = p \<and> t_workflow_execution_id r = wid
        \<and> ?x (td_id td) \<in> set (t_child_task_ids r)"
      by (rule bexI [of _ "?row u"]) (use u d td in \<open>auto simp: execution_rows_def\<close>)
  next
    fix c assume "c \<in> set (map (\<lambda>u. ?x (td_id u)) (filter (\<lambda>u. td_id td \<in> set (td_dependencies u)) tds))"
    then obtain u where u: "u \<in> set tds" "td_id td \<in> set (td_dependencies u)" "c = ?x (td_id u)" by auto
    show "\<exists>r \<in> set (execution_rows fresh wid tds). t_id r = c \<and> t_workflow_execution_id r = wid
        \<and> ?x (td_id td) \<in> set (t_parent_task_ids r)"
      by (rule bexI [of _ "?row u"]) (use u in \<open>auto simp: execution_rows_def\<close>)
  qed
  have uniq: "unique_keys (execution_rows fresh wid tds)"
    using keys by (simp add: unique_keys_def execution_rows_def comp_def distinct_map inj_on_def)
  obtain rank :: "uuid \<Rightarrow> nat" where rank: "\<forall>(a, b) \<in> definition_edges tds. rank a < rank b"
    using acyclic_rank [OF finite_definition_edges acyc] by blast
  let ?rank = "\<lambda>i. rank (the_inv_into (td_id ` set tds) ?x i)"
  have inv_x: "the_inv_into (td_id ` set tds) ?x (?x d) = d" if "d \<in> td_id ` set tds" for d
    by (rule the_inv_into_f_f [OF x_inj that])
  have "?rank p < ?rank (t_id (?row td))"
    if td: "td \<in> set tds" and p: "p \<in> set (t_parent_task_ids (?row td))" for td p
  proof -
    obtain d where d: "d \<in> set (td_dependencies td)" "p = ?x d" using p by auto
    then have "(d, td_id td) \<in> definition_edges tds" using td by (auto simp: definition_edges_def)
    moreover have "d \<in> td_id ` set tds" using deps [OF td] d(1) by blast
    ultimately show ?thesis using rank inv_x [of d] inv_x [of "td_id td"] td d(2) by auto
  qed
  then have "acyclic_graph (execution_rows fresh wid tds)"
    unfolding acyclic_graph_def execution_rows_def by (intro exI [of _ ?rank]) simp
  with ids mirror uniq show ?thesis by (auto simp: graph_ok_def execution_rows_def)
qed

lemma execution_rows_pending:
  "t \<in> set (execution_rows fresh wid tds) \<Longrightarrow> t_status t = Pending"
  by (auto simp: execution_rows_def)

lemma nothing_completed: "\<forall>t \<in> set ts. t_status t = Pending \<Longrightarrow> \<not> completed ts p"
  by (auto simp: completed_def)

lemma execution_rows_progress:
  assumes "definition_ok tds"
  shows "progress_ok (execution_rows fresh wid tds)"
  unfolding progress_ok_def
proof
  fix t assume t: "t \<in> set (execution_rows fresh wid tds)"
  then obtain td where td: "td \<in> set tds" "t = task_to_model (execution_of fresh wid tds td)"
    by (auto simp: execution_rows_def)
  have "open_parents (execution_rows fresh wid tds) t = t_parent_task_ids t"
    using nothing_completed execution_rows_pending unfolding open_parents_def filter_id_conv by blast
  moreover have "1 \<le> td_max_tries td" using assms td(1) by (simp add: definition_ok_def)
  ultimately show "row_ok (execution_rows fresh wid tds) t"
    using td(2) by (simp add: row_ok_def)
qed

section \<open>Inserting the execution\<close>

definition rows_insertable :: "database \<Rightarrow> task_row list \<Rightarrow> bool" where
  "rows_insertable db ts \<longleftrightarrow>
     distinct (task_ids ts) \<and> t_id ` set ts \<inter> t_id ` set (task_executions db) = {}
     \<and> (\<forall>t \<in> set ts. int4 (t_remaining_dependencies t) \<and> int4 (t_remaining_tries t)
          \<and> t_workflow_execution_id t \<in> w_id ` set (workflow_executions db)
          \<and> t_task_definition_id t \<in> tdr_id ` set (task_definitions db))"

lemma insert_rows:
  "rows_insertable db ts \<Longrightarrow>
   for_each insert_task_row ts db = (db\<lparr>task_executions := task_executions db @ ts\<rparr>, Inr ())"
proof (induction ts arbitrary: db)
  case Nil
  then show ?case by simp
next
  case (Cons t ts)
  let ?db = "db\<lparr>task_executions := task_executions db @ [t]\<rparr>"
  have step: "insert_task_row t db = (?db, Inr ())"
    using Cons.prems by (simp add: insert_task_row_def rows_insertable_def)
  have "rows_insertable ?db ts" using Cons.prems by (auto simp: rows_insertable_def)
  from Cons.IH [OF this] show ?case by (simp add: andThen_def step)
qed

text \<open>
  The identifiers \<open>uuid4\<close> returns to one call are pairwise different and not in use.
\<close>

definition unused_ids :: "(nat \<Rightarrow> uuid) \<Rightarrow> nat \<Rightarrow> database \<Rightarrow> bool" where
  "unused_ids fresh n db \<longleftrightarrow>
     inj_on fresh {..n}
     \<and> fresh 0 \<notin> w_id ` set (workflow_executions db)
     \<and> (\<forall>i < n. fresh (Suc i) \<notin> t_id ` set (task_executions db))"

lemma unused_ids_inj: "unused_ids fresh n db \<Longrightarrow> inj_on (\<lambda>i. fresh (Suc i)) {..<n}"
proof (rule inj_onI)
  fix i j assume "unused_ids fresh n db" "i \<in> {..<n}" "j \<in> {..<n}" "fresh (Suc i) = fresh (Suc j)"
  then have "Suc i = Suc j" unfolding unused_ids_def by (intro inj_onD [of fresh "{..n}"]) auto
  then show "i = j" by simp
qed

definition started_row :: "(nat \<Rightarrow> uuid) \<Rightarrow> datetime \<Rightarrow> uuid \<Rightarrow> workflow_row" where
  "started_row fresh now wid =
     \<lparr>w_id = fresh 0, w_workflow_definition_id = wid, w_status = WfRunning,
      w_created_at = now, w_started_at = None, w_completed_at = None\<rparr>"

definition with_execution :: "workflow_row \<Rightarrow> task_row list \<Rightarrow> database \<Rightarrow> database" where
  "with_execution w ts db =
     db\<lparr>workflow_executions := workflow_executions db @ [w],
        task_executions := task_executions db @ ts\<rparr>"

lemma definitions_inv_cong:
  "definitions_inv (db\<lparr>workflow_executions := ws, task_executions := ts\<rparr>) = definitions_inv db"
  by (simp add: definitions_inv_def schema_ok_def stored_tasks_def stored_dependencies_def)

lemma exec_id_unused:
  assumes "definition_ok tds" "unused_ids fresh (length tds) db" "td \<in> set tds"
  shows "exec_id (\<lambda>i. fresh (Suc i)) tds (td_id td) \<notin> t_id ` set (task_executions db)"
proof -
  have dist: "distinct (map td_id tds)" using assms(1) by (simp add: definition_ok_def)
  obtain i where "i < length tds" "exec_id (\<lambda>i. fresh (Suc i)) tds (td_id td) = fresh (Suc i)"
    by (rule exec_id_draw [OF dist, of "td_id td" "\<lambda>i. fresh (Suc i)"]) (use assms(3) in auto)
  then show ?thesis using assms(2) by (simp add: unused_ids_def)
qed

lemma compiled_ids_unused:
  assumes ok: "definition_ok tds" and unused: "unused_ids fresh (length tds) db"
  shows "t_id ` set (task_executions db) \<inter> t_id ` set (execution_rows (\<lambda>i. fresh (Suc i)) (fresh 0) tds) = {}"
proof -
  have "t_id ` set (execution_rows (\<lambda>i. fresh (Suc i)) (fresh 0) tds) =
      (\<lambda>td. exec_id (\<lambda>i. fresh (Suc i)) tds (td_id td)) ` set tds"
    by (simp add: execution_rows_def image_image)
  then show ?thesis
    unfolding disjoint_iff using exec_id_unused [OF ok unused] by (metis (no_types, lifting) imageE)
qed

lemma compiled_new_execution:
  assumes ok: "definition_ok tds" and unused: "unused_ids fresh (length tds) db"
  shows "new_execution db (started_row fresh now wid) (execution_rows (\<lambda>i. fresh (Suc i)) (fresh 0) tds)"
  unfolding new_execution_def
proof (intro conjI ballI)
  show "w_id (started_row fresh now wid) \<notin> w_id ` set (workflow_executions db)"
    using unused by (simp add: unused_ids_def started_row_def)
  show "w_status (started_row fresh now wid) = WfRunning" by (simp add: started_row_def)
  show "execution_rows (\<lambda>i. fresh (Suc i)) (fresh 0) tds \<noteq> []"
    using ok by (simp add: execution_rows_def definition_ok_def)
  show "graph_ok (execution_rows (\<lambda>i. fresh (Suc i)) (fresh 0) tds)"
    by (rule execution_rows_graph [OF ok unused_ids_inj [OF unused]])
  show "progress_ok (execution_rows (\<lambda>i. fresh (Suc i)) (fresh 0) tds)"
    by (rule execution_rows_progress [OF ok])
  show "t_id ` set (task_executions db) \<inter> t_id ` set (execution_rows (\<lambda>i. fresh (Suc i)) (fresh 0) tds) = {}"
    by (rule compiled_ids_unused [OF ok unused])
  fix t assume t: "t \<in> set (execution_rows (\<lambda>i. fresh (Suc i)) (fresh 0) tds)"
  then show "t_status t = Pending" by (rule execution_rows_pending)
  show "t_workflow_execution_id t = w_id (started_row fresh now wid)"
    using t by (auto simp: execution_rows_def started_row_def)
qed

lemma int4_small: "0 \<le> n \<Longrightarrow> n < 2 ^ 31 \<Longrightarrow> int4 n"
  by (simp add: int4_def)

lemma dependencies_int4:
  assumes "definition_ok tds" "length tds < 2 ^ 31" "td \<in> set tds"
  shows "int4 (int (length (td_dependencies td)))"
proof -
  have d: "distinct (td_dependencies td)" "set (td_dependencies td) \<subseteq> td_id ` set tds"
    using assms(1,3) by (simp_all add: definition_ok_def)
  have "length (td_dependencies td) = card (set (td_dependencies td))"
    using d(1) by (simp add: distinct_card)
  also have "\<dots> \<le> card (td_id ` set tds)" by (rule card_mono [OF _ d(2)]) simp
  also have "\<dots> \<le> length tds" using card_image_le [of "set tds" td_id] card_length [of tds] by simp
  finally show ?thesis using assms(2) by (intro int4_small) simp_all
qed

lemma create_compiled:
  assumes ok: "definition_ok tds" and unused: "unused_ids fresh (length tds) db"
    and small: "length tds < 2 ^ 31" "\<forall>td \<in> set tds. int4 (td_max_tries td)"
    and fk: "wid \<in> wdr_id ` set (workflow_definitions db)" "td_id ` set tds \<subseteq> tdr_id ` set (task_definitions db)"
    and we: "we_id we = fresh 0" "we_workflow_definition_id we = wid" "we_status we = WfRunning"
      "we_created_at we = now" "we_started_at we = None" "we_completed_at we = None"
      "we_task_executions we = map (execution_of (\<lambda>i. fresh (Suc i)) (fresh 0) tds) tds"
  shows "create_execution we db =
     (with_execution (started_row fresh now wid) (execution_rows (\<lambda>i. fresh (Suc i)) (fresh 0) tds) db, Inr ())"
proof -
  let ?ts = "execution_rows (\<lambda>i. fresh (Suc i)) (fresh 0) tds" and ?w = "started_row fresh now wid"
  have model: "workflow_to_model we = (?w, ?ts)"
    using we by (simp add: workflow_to_model_def started_row_def execution_rows_def comp_def)
  let ?db = "db\<lparr>workflow_executions := workflow_executions db @ [?w]\<rparr>"
  have ins: "insert_workflow_row ?w db = (?db, Inr ())"
    using unused fk(1) by (simp add: insert_workflow_row_def started_row_def unused_ids_def)
  have same: "for_each (\<lambda>t. insert_task_row (t\<lparr>t_workflow_execution_id := w_id ?w\<rparr>)) ?ts
      = for_each insert_task_row ?ts"
  proof -
    have "for_each (\<lambda>t. insert_task_row (t\<lparr>t_workflow_execution_id := i\<rparr>)) us = for_each insert_task_row us"
      if "\<forall>t \<in> set us. t_workflow_execution_id t = i" for us :: "task_row list" and i
      using that by (induction us) auto
    moreover have "\<forall>t \<in> set ?ts. t_workflow_execution_id t = w_id ?w"
      by (auto simp: execution_rows_def started_row_def)
    ultimately show ?thesis by blast
  qed
  note new = compiled_new_execution [OF ok unused]
  have "rows_insertable ?db ?ts"
    unfolding rows_insertable_def
  proof (intro conjI ballI)
    show "distinct (task_ids ?ts)" using new by (simp add: new_execution_def graph_ok_def)
    show "t_id ` set ?ts \<inter> t_id ` set (task_executions ?db) = {}"
      using new by (auto simp: new_execution_def)
    fix t assume "t \<in> set ?ts"
    then obtain td where td: "td \<in> set tds"
      "t = task_to_model (execution_of (\<lambda>i. fresh (Suc i)) (fresh 0) tds td)"
      by (auto simp: execution_rows_def)
    show "int4 (t_remaining_dependencies t)" using dependencies_int4 [OF ok small(1) td(1)] td(2) by simp
    show "int4 (t_remaining_tries t)" using small(2) td by simp
    show "t_workflow_execution_id t \<in> w_id ` set (workflow_executions ?db)"
      using td(2) by (simp add: started_row_def)
    show "t_task_definition_id t \<in> tdr_id ` set (task_definitions ?db)" using fk(2) td by auto
  qed
  from insert_rows [OF this] show ?thesis
    unfolding create_execution_def model prod.case same
    using ins by (simp add: andThen_def with_execution_def)
qed

section \<open>Starting a workflow\<close>

definition root_ids :: "(nat \<Rightarrow> uuid) \<Rightarrow> task_definition list \<Rightarrow> uuid list" where
  "root_ids fresh tds = map (\<lambda>td. exec_id fresh tds (td_id td)) (filter (\<lambda>td. td_dependencies td = []) tds)"

lemma root_ids_compiled:
  "map te_id (filter (\<lambda>t. te_remaining_dependencies t = 0) (map (execution_of fresh wid tds) tds)) = root_ids fresh tds"
  by (simp add: root_ids_def filter_map comp_def execution_of_def)

lemma with_uow_and_queue_split:
  "with_uow_and_queue (andThen (on_session (in_uow m)) f) (db, q) =
     (case m db of
        (db', Inl e) \<Rightarrow> ((db, q), Inl e)
      | (db', Inr x) \<Rightarrow>
          (case f x ((uow_factory db)\<lparr>working := db'\<rparr>, q) of ((u, q'), r) \<Rightarrow> ((committed u, q'), r)))"
  by (simp add: with_uow_and_queue_def andThen_def on_session_def in_uow_def split: prod.splits sum.splits)

lemma start_and_commit_ok:
  assumes inv: "definitions_inv db" and load: "load_definition wid db = (db, Inr (Some wd))"
    and enabled: "wd_enabled wd"
    and unused: "unused_ids fresh (length (wd_task_definitions wd)) db"
    and small: "length (wd_task_definitions wd) < 2 ^ 31"
    and u: "working u = db"
  shows "start_and_commit fresh now at wid (u, q) =
     ((let db' = with_execution (started_row fresh now wid)
             (execution_rows (\<lambda>i. fresh (Suc i)) (fresh 0) (wd_task_definitions wd)) db
       in (u\<lparr>working := db', committed := db'\<rparr>,
           enqueue (root_ids (\<lambda>i. fresh (Suc i)) (wd_task_definitions wd)) at q)), Inr (fresh 0))"
proof -
  let ?tds = "wd_task_definitions wd" and ?f = "\<lambda>i. fresh (Suc i)"
  note wd = load_definition_SomeD [OF load] and ok = load_definition_ok [OF inv load]
  let ?we = "\<lparr>we_id = fresh 0, we_workflow_definition_id = wd_id wd, we_status = WfRunning,
      we_task_executions = map (execution_of ?f (fresh 0) ?tds) ?tds, we_created_at = now,
      we_started_at = None, we_completed_at = None\<rparr>"
  let ?db = "with_execution (started_row fresh now wid) (execution_rows ?f (fresh 0) ?tds) db"
  have comp: "create_workflow_execution fresh now wd = Inr (?we, root_ids ?f ?tds)"
    unfolding create_workflow_execution_eq [OF ok(1)] Let_def root_ids_compiled ..
  have create: "create_execution ?we db = (?db, Inr ())"
    by (rule create_compiled [OF ok(1) unused small ok(3) wd(3) ok(2)]) (simp_all add: wd(2))
  have l: "on_session (in_uow (load_definition wid)) (u, q) = ((u, q), Inr (Some wd))"
    using load u by (simp add: on_session_def in_uow_def)
  have c: "on_session (in_uow (create_execution ?we)) (u, q) = ((u\<lparr>working := ?db\<rparr>, q), Inr ())"
    using create u by (simp add: on_session_def in_uow_def)
  show ?thesis
    using enabled
    by (simp add: start_and_commit_def andThen_def l c comp on_session_def [of uow_commit]
        uow_commit_def on_queue_def Let_def)
qed

lemma start_workflow_ok:
  assumes "definitions_inv db" "load_definition wid db = (db, Inr (Some wd))" "wd_enabled wd"
    "unused_ids fresh (length (wd_task_definitions wd)) db" "length (wd_task_definitions wd) < 2 ^ 31"
  shows "start_workflow fresh now at wid (db, q) =
     ((with_execution (started_row fresh now wid)
         (execution_rows (\<lambda>i. fresh (Suc i)) (fresh 0) (wd_task_definitions wd)) db,
       enqueue (root_ids (\<lambda>i. fresh (Suc i)) (wd_task_definitions wd)) at q), Inr (fresh 0))"
  using start_and_commit_ok [OF assms, of "uow_factory db"]
  by (simp add: start_workflow_def with_uow_and_queue_def Let_def)

lemma start_workflow_rejected:
  "load_definition wid db = (db, Inr None) \<Longrightarrow>
     start_workflow fresh now at wid (db, q) = ((db, q), Inl (WorkflowDefinitionNotFoundError wid))"
  "load_definition wid db = (db, Inr (Some wd)) \<Longrightarrow> \<not> wd_enabled wd \<Longrightarrow>
     start_workflow fresh now at wid (db, q) = ((db, q), Inl (WorkflowDefinitionDisabledError wid))"
  by (simp_all add: start_workflow_def start_and_commit_def with_uow_and_queue_split)

lemma exec_inv_with_execution:
  assumes "exec_inv db" "definition_ok tds" "unused_ids fresh (length tds) db"
  shows "exec_inv (with_execution (started_row fresh now wid)
           (execution_rows (\<lambda>i. fresh (Suc i)) (fresh 0) tds) db)"
  unfolding with_execution_def
  by (rule exec_inv_create [OF assms(1) compiled_new_execution [OF assms(2,3)]])

end
