(* ===== verification/Trigger_Service.thy ===== *)
theory Trigger_Service
  imports Trigger_Repository Workflow_Start
begin

text \<open>
  Chronological triggers (\<open>application/chronological_triggers/service.py\<close>) and the dispatch of
  trigger initialization by mechanism (\<open>application/trigger_initialization/service.py\<close>). One call
  of \<open>process_next_due\<close> handles one due occurrence in one transaction: it advances the schedule
  from the occurrence that was due and starts the workflow.
\<close>

section \<open>Initialization\<close>

definition initialize_chronological ::
  "(json_object \<Rightarrow> datetime \<Rightarrow> datetime option result) \<Rightarrow> trigger_definition \<Rightarrow> datetime \<Rightarrow> (database, unit) op" where
  "initialize_chronological next_occurrence trigger now =
     (case next_occurrence (tr_configuration trigger) now of
        Inl e \<Rightarrow> raise e
      | Inr None \<Rightarrow> ret ()
      | Inr (Some next_run_at) \<Rightarrow> create_trigger_state (tr_id trigger) next_run_at)"

text \<open>
  The only registered mechanism is \<open>ChronologicalTrigger\<close>; a plugin of another mechanism has no
  state to initialize.
\<close>

definition initialize_trigger :: "trigger_plugin \<Rightarrow> trigger_definition \<Rightarrow> datetime \<Rightarrow> (database, unit) op" where
  "initialize_trigger plugin trigger now =
     (case pl_next_occurrence plugin of
        None \<Rightarrow> ret ()
      | Some next_occurrence \<Rightarrow> initialize_chronological next_occurrence trigger now)"

section \<open>Processing a due occurrence\<close>

definition next_run :: "(string \<times> trigger_plugin) list \<Rightarrow> due_trigger \<Rightarrow> datetime option result" where
  "next_run reg d =
     bind_result (registry_get reg (due_plugin_type d)) (\<lambda>plugin.
       case pl_next_occurrence plugin of
         None \<Rightarrow> Inl AttributeError
       | Some next_occurrence \<Rightarrow> next_occurrence (due_configuration d) (due_next_run_at d))"

definition advance_schedule :: "due_trigger \<Rightarrow> datetime option \<Rightarrow> (database, unit) op" where
  "advance_schedule d next_run_at =
     (case next_run_at of
        None \<Rightarrow> delete_trigger_state (due_trigger_definition_id d)
      | Some t \<Rightarrow> update_next_run (due_trigger_definition_id d) t)"

definition process_next_due ::
  "(string \<times> trigger_plugin) list \<Rightarrow> (uuid \<Rightarrow> bool) \<Rightarrow> (nat \<Rightarrow> uuid) \<Rightarrow> datetime \<Rightarrow> datetime \<Rightarrow> datetime
   \<Rightarrow> (platform, bool) op" where
  "process_next_due reg locked fresh now created_at enqueued_at =
     with_uow_and_queue
       (andThen (on_session (in_uow (get_next_due locked now))) (\<lambda>due_trigger.
          case due_trigger of
            None \<Rightarrow> ret False
          | Some d \<Rightarrow>
              (case next_run reg d of
                 Inl e \<Rightarrow> raise e
               | Inr next_run_at \<Rightarrow>
                   andThen (on_session (in_uow (advance_schedule d next_run_at))) (\<lambda>_.
                   andThen (start_and_commit fresh created_at enqueued_at (due_workflow_definition_id d)) (\<lambda>_.
                     ret True)))))"

section \<open>The definitions stay well-formed\<close>

lemma create_trigger_state_inv:
  assumes "definitions_inv db"
  shows "definitions_inv (fst (create_trigger_state i t db))"
  using assms
  by (simp add: create_trigger_state_def definitions_inv_def schema_ok_def stored_tasks_def
      stored_dependencies_def)

definition with_schedule :: "trigger_state_row list \<Rightarrow> database \<Rightarrow> database" where
  "with_schedule rows db = db\<lparr>chronological_trigger_state := rows\<rparr>"

lemma with_schedule_sel [simp]:
  "workflow_definitions (with_schedule rows db) = workflow_definitions db"
  "task_definitions (with_schedule rows db) = task_definitions db"
  "task_definition_dependencies (with_schedule rows db) = task_definition_dependencies db"
  "trigger_definitions (with_schedule rows db) = trigger_definitions db"
  "chronological_trigger_state (with_schedule rows db) = rows"
  "workflow_executions (with_schedule rows db) = workflow_executions db"
  "task_executions (with_schedule rows db) = task_executions db"
  by (simp_all add: with_schedule_def)

lemma load_definition_schedule:
  "load_definition wid (with_schedule rows db) =
     (with_schedule rows db, snd (load_definition wid db))"
  by (simp add: load_definition_eq stored_tasks_def stored_dependencies_def stored_triggers_def)

lemma definitions_inv_schedule:
  assumes "definitions_inv db" "distinct (map cts_trigger_definition_id rows)"
    "cts_trigger_definition_id ` set rows \<subseteq> trr_id ` set (trigger_definitions db)"
  shows "definitions_inv (with_schedule rows db)"
  using assms
  by (simp add: definitions_inv_def schema_ok_def stored_tasks_def stored_dependencies_def)

text \<open>The schedule after an occurrence of trigger \<open>i\<close> has been processed.\<close>

definition next_schedule :: "uuid \<Rightarrow> datetime option \<Rightarrow> trigger_state_row list \<Rightarrow> trigger_state_row list" where
  "next_schedule i next_run_at rows =
     (case next_run_at of
        None \<Rightarrow> delete_where (\<lambda>s. cts_trigger_definition_id s = i) rows
      | Some t \<Rightarrow> update_where (\<lambda>s. cts_trigger_definition_id s = i) (\<lambda>s. s\<lparr>cts_next_run_at := t\<rparr>) rows)"

lemma next_schedule_keys:
  "distinct (map cts_trigger_definition_id rows) \<Longrightarrow>
     distinct (map cts_trigger_definition_id (next_schedule i next rows))"
  "cts_trigger_definition_id ` set (next_schedule i next rows) \<subseteq> cts_trigger_definition_id ` set rows"
proof -
  have m: "map cts_trigger_definition_id (update_where (\<lambda>s. cts_trigger_definition_id s = i)
      (\<lambda>s. s\<lparr>cts_next_run_at := t\<rparr>) rows) = map cts_trigger_definition_id rows" for t
    by (rule map_update_where) simp
  show "distinct (map cts_trigger_definition_id rows) \<Longrightarrow>
     distinct (map cts_trigger_definition_id (next_schedule i next rows))"
    by (cases "next") (simp_all add: next_schedule_def m delete_where_def distinct_map_filter)
  show "cts_trigger_definition_id ` set (next_schedule i next rows) \<subseteq> cts_trigger_definition_id ` set rows"
    by (cases "next") (auto simp: next_schedule_def update_where_def)
qed

lemma advance_schedule_eq:
  assumes "due_trigger_definition_id d \<in> cts_trigger_definition_id ` set (chronological_trigger_state db)"
  shows "advance_schedule d next_run_at db =
     (with_schedule (next_schedule (due_trigger_definition_id d) next_run_at
        (chronological_trigger_state db)) db, Inr ())"
proof (cases next_run_at)
  case None
  then show ?thesis
    by (simp add: advance_schedule_def delete_trigger_state_def next_schedule_def with_schedule_def)
next
  case (Some t)
  obtain row where "lookup_row cts_trigger_definition_id (due_trigger_definition_id d)
      (chronological_trigger_state db) = Some row"
    using assms lookup_row_None_iff [of cts_trigger_definition_id "due_trigger_definition_id d"
        "chronological_trigger_state db"] by auto
  with Some show ?thesis
    by (simp add: advance_schedule_def update_next_run_def next_schedule_def with_schedule_def)
qed

section \<open>One occurrence, one execution\<close>

lemma process_nothing_due:
  "get_next_due locked now db = (db, Inr None) \<Longrightarrow>
   process_next_due reg locked fresh now created at (db, q) = ((db, q), Inr False)"
  by (simp add: process_next_due_def with_uow_and_queue_split)

lemma process_due_ok:
  assumes inv: "definitions_inv db"
    and due: "get_next_due locked now db = (db, Inr (Some d))"
    and nxt: "next_run reg d = Inr next_run_at"
    and load: "load_definition (due_workflow_definition_id d) db = (db, Inr (Some wd))"
    and enabled: "wd_enabled wd"
    and unused: "unused_ids fresh (length (wd_task_definitions wd)) db"
    and small: "length (wd_task_definitions wd) < 2 ^ 31"
  shows "process_next_due reg locked fresh now created at (db, q) =
     ((with_execution (started_row fresh created (due_workflow_definition_id d))
         (execution_rows (\<lambda>i. fresh (Suc i)) (fresh 0) (wd_task_definitions wd))
         (with_schedule (next_schedule (due_trigger_definition_id d) next_run_at
            (chronological_trigger_state db)) db),
       enqueue (root_ids (\<lambda>i. fresh (Suc i)) (wd_task_definitions wd)) at q), Inr True)"
proof -
  let ?db = "with_schedule (next_schedule (due_trigger_definition_id d) next_run_at
            (chronological_trigger_state db)) db"
  obtain s t where st: "due locked now db s t"
    "d = \<lparr>due_trigger_definition_id = cts_trigger_definition_id s,
          due_workflow_definition_id = trr_workflow_definition_id t,
          due_plugin_type = trr_plugin_type t, due_configuration = trr_configuration t,
          due_next_run_at = cts_next_run_at s\<rparr>"
    by (rule get_next_due_SomeD [OF due])
  have "due_trigger_definition_id d \<in> cts_trigger_definition_id ` set (chronological_trigger_state db)"
    using st by (simp add: due_def)
  note adv = advance_schedule_eq [OF this, of next_run_at]
  have schema: "distinct (map cts_trigger_definition_id (chronological_trigger_state db))"
    "cts_trigger_definition_id ` set (chronological_trigger_state db) \<subseteq> trr_id ` set (trigger_definitions db)"
    using inv by (simp_all add: definitions_inv_def schema_ok_def)
  have inv': "definitions_inv ?db"
    by (rule definitions_inv_schedule [OF inv next_schedule_keys(1) [OF schema(1)]
          subset_trans [OF next_schedule_keys(2) schema(2)]])
  have load': "load_definition (due_workflow_definition_id d) ?db = (?db, Inr (Some wd))"
    by (simp add: load_definition_schedule load)
  have unused': "unused_ids fresh (length (wd_task_definitions wd)) ?db"
    using unused by (simp add: unused_ids_def)
  let ?u = "\<lparr>committed = db, working = ?db\<rparr>"
  have a: "on_session (in_uow (advance_schedule d next_run_at)) (uow_factory db, q) = ((?u, q), Inr ())"
    using adv by (simp add: on_session_def in_uow_def uow_factory_def)
  show ?thesis
    using start_and_commit_ok [OF inv' load' enabled unused' small, of ?u created at q]
    by (simp add: process_next_due_def with_uow_and_queue_split due nxt andThen_def a Let_def)
      (simp add: uow_factory_def andThen_def on_session_def in_uow_def adv)
qed

section \<open>Failures leave no trace\<close>

lemma create_execution_error_or_ok:
  "\<exists>db' r. create_execution we db = (db', r)"
  by (cases "create_execution we db") simp

lemma start_and_commit_Inl:
  assumes "start_and_commit fresh now at wid (u, q) = ((u', q'), Inl e)"
  shows "committed u' = committed u \<and> q' = q"
proof -
  obtain db1 r where l: "load_definition wid (working u) = (db1, r)" by force
  show ?thesis
  proof (cases r)
    case (Inl e')
    with l assms show ?thesis
      by (auto simp: start_and_commit_def andThen_def on_session_def in_uow_def)
  next
    case (Inr loaded)
    note l = l [unfolded Inr]
    show ?thesis
    proof (cases loaded)
      case None
      with l assms show ?thesis
        by (auto simp: start_and_commit_def andThen_def on_session_def in_uow_def)
    next
      case (Some wd)
      obtain db2 r2 where c: "\<And>we roots. create_workflow_execution fresh now wd = Inr (we, roots) \<Longrightarrow>
          create_execution we db1 = (db2, r2)"
        by (cases "create_workflow_execution fresh now wd"; cases "create_execution (fst (projr (create_workflow_execution fresh now wd))) db1") auto
      show ?thesis
        using l assms Some c
        by (cases "create_workflow_execution fresh now wd"; cases r2)
          (auto simp: start_and_commit_def andThen_def on_session_def in_uow_def uow_commit_def
            on_queue_def split: if_splits)
    qed
  qed
qed

lemma process_next_due_Inl:
  assumes "process_next_due reg locked fresh now created at (db, q) = (p, Inl e)"
  shows "p = (db, q)"
proof -
  obtain due where due: "get_next_due locked now db = (db, Inr due)"
    using get_next_due_total by blast
  obtain d where d: "due = Some d"
    using assms due by (cases due) (simp_all add: process_nothing_due)
  show ?thesis
  proof (cases "next_run reg d")
    case (Inl e')
    with assms due d show ?thesis
      by (simp add: process_next_due_def with_uow_and_queue_split)
  next
    case (Inr n)
    obtain db1 r1 where a: "advance_schedule d n db = (db1, r1)" by force
    show ?thesis
    proof (cases r1)
      case (Inl e')
      with assms due d Inr a show ?thesis
        by (simp add: process_next_due_def with_uow_and_queue_split andThen_def on_session_def
            in_uow_def uow_factory_def)
    next
      case r: (Inr x)
      let ?u = "(uow_factory db)\<lparr>working := db1\<rparr>"
      obtain u' q' r2 where s: "start_and_commit fresh created at (due_workflow_definition_id d) (?u, q) = ((u', q'), r2)"
        by (metis surj_pair)
      have run: "process_next_due reg locked fresh now created at (db, q) =
          ((committed u', q'), case r2 of Inl e \<Rightarrow> Inl e | Inr y \<Rightarrow> Inr True)"
        using due d Inr a r s
        by (simp add: process_next_due_def with_uow_and_queue_split andThen_def on_session_def
            in_uow_def uow_factory_def split: sum.splits)
      then obtain e2 where e2: "r2 = Inl e2" using assms by (cases r2) simp_all
      have "committed u' = db \<and> q' = q"
        using start_and_commit_Inl [OF s [unfolded e2]] by simp
      with run assms show ?thesis by simp
    qed
  qed
qed

text \<open>
  The earliest due trigger stays the earliest: a later call sees every row that was due, and the
  rows that became due since have later occurrences.
\<close>

lemma get_next_due_later:
  assumes inv: "definitions_inv db" and due: "get_next_due locked now db = (db, Inr (Some d))"
    and "now \<le> now'"
  shows "get_next_due locked now' db = (db, Inr (Some d))"
proof -
  let ?key = "\<lambda>s. (cts_next_run_at s, cts_trigger_definition_id s)"
  obtain s t where st: "due locked now db s t"
    and min: "\<And>s' t'. due locked now db s' t' \<Longrightarrow> ?key s \<le> ?key s'"
    and d: "d = \<lparr>due_trigger_definition_id = cts_trigger_definition_id s,
          due_workflow_definition_id = trr_workflow_definition_id t,
          due_plugin_type = trr_plugin_type t, due_configuration = trr_configuration t,
          due_next_run_at = cts_next_run_at s\<rparr>"
    by (rule get_next_due_SomeD [OF due]) blast
  have st': "due locked now' db s t" using st assms(3) by (simp add: due_def)
  obtain r where r: "get_next_due locked now' db = (db, Inr r)" using get_next_due_total by blast
  obtain d' where d': "r = Some d'" using r st' get_next_due_None_iff [of locked now' db] by (cases r) auto
  obtain s' t' where st2: "due locked now' db s' t'"
    and min': "\<And>s2 t2. due locked now' db s2 t2 \<Longrightarrow> ?key s' \<le> ?key s2"
    and d'_eq: "d' = \<lparr>due_trigger_definition_id = cts_trigger_definition_id s',
          due_workflow_definition_id = trr_workflow_definition_id t',
          due_plugin_type = trr_plugin_type t', due_configuration = trr_configuration t',
          due_next_run_at = cts_next_run_at s'\<rparr>"
    by (rule get_next_due_SomeD [OF r [unfolded d']]) blast
  have le: "?key s' \<le> ?key s" by (rule min' [OF st'])
  then have "cts_next_run_at s' \<le> now" using st by (auto simp: due_def less_eq_prod_def)
  then have "due locked now db s' t'" using st2 by (simp add: due_def)
  from min [OF this] le have "?key s = ?key s'" by (rule order_antisym)
  then have "cts_trigger_definition_id s' = cts_trigger_definition_id s" by simp
  moreover have rows: "s \<in> set (chronological_trigger_state db)" "s' \<in> set (chronological_trigger_state db)"
    "t \<in> set (trigger_definitions db)" "t' \<in> set (trigger_definitions db)"
    "trr_id t = cts_trigger_definition_id s" "trr_id t' = cts_trigger_definition_id s'"
    using st st2 by (simp_all add: due_def)
  moreover have keys: "distinct (map cts_trigger_definition_id (chronological_trigger_state db))"
    "distinct (map trr_id (trigger_definitions db))"
    using inv by (simp_all add: definitions_inv_def schema_ok_def)
  ultimately have "s' = s" "t' = t"
    using distinct_key_eq [OF keys(1)] distinct_key_eq [OF keys(2)] by metis+
  then show ?thesis using r d' d d'_eq by simp
qed

lemma process_due_disabled:
  assumes due: "get_next_due locked now db = (db, Inr (Some d))"
    and nxt: "next_run reg d = Inr next_run_at"
    and load: "load_definition (due_workflow_definition_id d) db = (db, Inr (Some wd))"
    and disabled: "\<not> wd_enabled wd"
  shows "process_next_due reg locked fresh now created at (db, q) =
     ((db, q), Inl (WorkflowDefinitionDisabledError (due_workflow_definition_id d)))"
proof -
  obtain s t where st: "due locked now db s t"
    "due_trigger_definition_id d = cts_trigger_definition_id s"
    by (rule get_next_due_SomeD [OF due]) simp
  then have "due_trigger_definition_id d \<in> cts_trigger_definition_id ` set (chronological_trigger_state db)"
    by (simp add: due_def)
  note adv = advance_schedule_eq [OF this, of next_run_at]
  have load': "load_definition (due_workflow_definition_id d)
      (with_schedule rows db) = (with_schedule rows db, Inr (Some wd))" for rows
    by (simp add: load_definition_schedule load)
  show ?thesis
    using disabled
    by (simp add: process_next_due_def with_uow_and_queue_split due nxt andThen_def
        on_session_def in_uow_def adv start_and_commit_def load' uow_factory_def)
qed

end
