(* ===== verification/Runtime.thy ===== *)
theory Runtime
  imports Task_Processing Trigger_Service
begin

text \<open>
  The runtime processes (\<open>runtime/worker\<close>, \<open>runtime/reconciler\<close>, \<open>runtime/scheduler\<close>). A worker
  handles one claim in stages, between which other processes act: the stages are values of
  \<open>worker_state\<close> and the transitions are functions, one per call the worker makes. The loop of the
  scheduler is here by iterations; those of worker and reconciler are in \<open>Runtime_Loops\<close>.
\<close>

section \<open>The worker\<close>

text \<open>
  Where a worker thread stands in \<open>_process_claim\<close>. The flag is \<open>claim_untrusted_event\<close>, which
  the heartbeat thread sets.
\<close>

datatype worker_state =
    Idle
  | Starting queue_claim bool
  | Executing queue_claim bool start_result
  | Settling queue_claim bool process_result

text \<open>\<open>run\<close>: claim the next entry; without one, wait and try again.\<close>

definition worker_claims :: "queue_claim option \<Rightarrow> worker_state" where
  "worker_claims c = (case c of None \<Rightarrow> Idle | Some c \<Rightarrow> Starting c False)"

text \<open>
  \<open>process\<close>, first transaction. An exception is logged and the claim is left to expire.
\<close>

definition worker_starts :: "datetime \<Rightarrow> queue_claim \<Rightarrow> bool \<Rightarrow> database \<Rightarrow> database \<times> worker_state" where
  "worker_starts now c untrusted db =
     (case service_start_task (cl_task_execution_id c) now db of
        (db', Inl e) \<Rightarrow> (db', Idle)
      | (db', Inr None) \<Rightarrow> (db', Settling c untrusted no_result)
      | (db', Inr (Some task)) \<Rightarrow> (db', Executing c untrusted task))"

text \<open>\<open>process\<close>, plugin and second transaction.\<close>

definition worker_executes ::
  "(string \<times> task_plugin) list \<Rightarrow> datetime \<Rightarrow> queue_claim \<Rightarrow> bool \<Rightarrow> start_result \<Rightarrow> database \<Rightarrow> database \<times> worker_state" where
  "worker_executes reg now c untrusted task db =
     (case execute_plugin reg task of
        Inl e \<Rightarrow> (db, Idle)
      | Inr r \<Rightarrow>
          (case persist_result (cl_task_execution_id c) now r db of
             (db', Inl e) \<Rightarrow> (db', Idle)
           | (db', Inr pr) \<Rightarrow> (db', Settling c untrusted pr)))"

text \<open>The end of \<open>_process_claim\<close>: give the claim back, finish it, or leave it alone.\<close>

definition worker_settles :: "datetime \<Rightarrow> queue_claim \<Rightarrow> bool \<Rightarrow> process_result \<Rightarrow> queue_table \<Rightarrow> queue_table" where
  "worker_settles now c untrusted pr q =
     (if untrusted then q
      else if pr_should_retry pr then release c q
      else finish c (pr_enqueue_task_ids pr) now q)"

text \<open>One round of the heartbeat thread; \<open>None\<close> is an exception of the queue call.\<close>

definition worker_heartbeats :: "bool option \<Rightarrow> worker_state \<Rightarrow> worker_state" where
  "worker_heartbeats lease_owned s =
     (let lost = (lease_owned \<noteq> Some True) in
      case s of
        Idle \<Rightarrow> Idle
      | Starting c u \<Rightarrow> Starting c (u \<or> lost)
      | Executing c u task \<Rightarrow> Executing c (u \<or> lost) task
      | Settling c u pr \<Rightarrow> Settling c u pr)"

section \<open>Reconciler and scheduler\<close>

text \<open>\<open>_reconcile\<close>: read the runnable tasks in one transaction, then enqueue them.\<close>

definition runnable_ids :: "database \<Rightarrow> uuid list" where
  "runnable_ids db = (case snd (with_uow (in_uow find_runnable_ids) db) of Inl e \<Rightarrow> [] | Inr ids \<Rightarrow> ids)"

definition reconcile :: "datetime \<Rightarrow> (platform, unit) op" where
  "reconcile now p =
     (case p of (db, q) \<Rightarrow>
        (case with_uow (in_uow find_runnable_ids) db of
           (db', Inl e) \<Rightarrow> ((db', q), Inl e)
         | (db', Inr runnable_task_ids) \<Rightarrow>
             if runnable_task_ids = [] then ((db', q), Inr ())
             else ((db', enqueue runnable_task_ids now q), Inr ())))"

text \<open>
  One iteration of the scheduler loop. The flag tells whether the loop waits for the poll
  interval before the next iteration.
\<close>

definition scheduler_iteration :: "(platform, bool) op \<Rightarrow> platform \<Rightarrow> platform \<times> bool" where
  "scheduler_iteration process_due p =
     (case process_due p of
        (p', Inl e) \<Rightarrow> (p', True)
      | (p', Inr processed) \<Rightarrow> (p', \<not> processed))"

text \<open>
  The scheduler loop over the calls it makes until it is asked to stop, which it checks before
  each iteration.
\<close>

fun scheduler_run :: "(platform, bool) op list \<Rightarrow> platform \<Rightarrow> platform" where
  "scheduler_run [] p = p"
| "scheduler_run (call # calls) p = scheduler_run calls (fst (scheduler_iteration call p))"

section \<open>What the stages do\<close>

lemma runnable_ids_eq:
  "runnable_ids db = map t_id (filter (\<lambda>t. t_status t = Pending \<and> t_remaining_dependencies t = 0) (task_executions db))"
  by (simp add: runnable_ids_def with_uow_def in_uow_def find_runnable_ids_def select_where_def)

lemma reconcile_eq:
  "reconcile now (db, q) = ((db, enqueue (runnable_ids db) now q), Inr ())"
  by (simp add: reconcile_def runnable_ids_eq with_uow_def in_uow_def find_runnable_ids_def
      select_where_def enqueue_def insert_queue_entries_def)

lemma worker_starts_spec:
  assumes "exec_inv db" "known_released (task_executions db) (cl_task_execution_id c)"
  obtains db' s where "worker_starts now c u db = (db', s)" "exec_inv db'" "execution_step db db'"
    "started (task_executions db') (cl_task_execution_id c)"
    "(\<exists>task. s = Executing c u task)
       \<or> (s = Settling c u no_result \<and> finished (task_executions db') (cl_task_execution_id c))"
proof -
  obtain db' r where r: "service_start_task (cl_task_execution_id c) now db = (db', Inr r)"
    "exec_inv db'" "execution_step db db'" "started (task_executions db') (cl_task_execution_id c)"
    "r = None \<Longrightarrow> finished (task_executions db') (cl_task_execution_id c)"
    by (rule service_start_spec [OF assms]) blast
  show thesis
    by (rule that [of db' "case r of None \<Rightarrow> Settling c u no_result | Some task \<Rightarrow> Executing c u task"])
      (use r in \<open>auto simp: worker_starts_def split: option.splits\<close>)
qed

lemma worker_executes_spec:
  assumes "exec_inv db" "started (task_executions db) (cl_task_execution_id c)"
  obtains db' s where "worker_executes reg now c u task db = (db', s)" "exec_inv db'"
    "execution_step db db'"
    "s = Idle \<or> (\<exists>pr. s = Settling c u pr
        \<and> (\<forall>i \<in> set (pr_enqueue_task_ids pr). known_released (task_executions db') i)
        \<and> (\<not> pr_should_retry pr \<longrightarrow> finished (task_executions db') (cl_task_execution_id c)))"
proof (cases "execute_plugin reg task")
  case (Inl e)
  show thesis
    by (rule that [of db Idle]) (use Inl assms(1) in \<open>simp_all add: worker_executes_def\<close>)
next
  case (Inr res)
  obtain db' pr where p: "persist_result (cl_task_execution_id c) now res db = (db', Inr pr)"
    "exec_inv db'" "execution_step db db'"
    "\<And>i. i \<in> set (pr_enqueue_task_ids pr) \<Longrightarrow> known_released (task_executions db') i"
    "\<not> pr_should_retry pr \<Longrightarrow> finished (task_executions db') (cl_task_execution_id c)"
    by (rule persist_result_spec [OF assms, of now res]) blast
  show thesis
    by (rule that [of db' "Settling c u pr"]) (use Inr p in \<open>auto simp: worker_executes_def\<close>)
qed

end
