(* ===== verification/Definition_Service.thy ===== *)
theory Definition_Service
  imports Trigger_Service
begin

text \<open>
  The service that creates and deletes workflow definitions (the public methods of
  \<open>application/workflow_definitions/services.py\<close>) and the query service for executions
  (\<open>application/workflow_execution_query/services.py\<close>).
\<close>

section \<open>The operations\<close>

fun initialize_triggers :: "(nat \<Rightarrow> datetime) \<Rightarrow> (trigger_definition \<times> trigger_plugin) list \<Rightarrow> (database, unit) op" where
  "initialize_triggers clock [] = ret ()"
| "initialize_triggers clock ((trigger, plugin) # rest) =
     andThen (initialize_trigger plugin trigger (clock 0)) (\<lambda>_.
       initialize_triggers (\<lambda>i. clock (Suc i)) rest)"

text \<open>
  \<open>create\<close>: validation and the creation of the domain objects happen before the transaction.
  Flushing has no effect here, as every statement already checks its constraints.
\<close>

definition new_workflow_definition ::
  "(string \<times> task_plugin) list \<Rightarrow> (string \<times> trigger_plugin) list \<Rightarrow> (nat \<Rightarrow> uuid)
   \<Rightarrow> create_workflow_definition \<Rightarrow> (workflow_definition \<times> (trigger_definition \<times> trigger_plugin) list) result" where
  "new_workflow_definition task_reg trigger_reg fresh request =
     (let n = length (cw_tasks request) in
      bind_result (validate_tasks task_reg (cw_tasks request)) (\<lambda>_.
      bind_result (create_task_definitions fresh (cw_tasks request)) (\<lambda>tds.
      bind_result (create_trigger_definitions trigger_reg (\<lambda>i. fresh (n + i)) (cw_triggers request))
        (\<lambda>resolved_triggers.
          Inr (\<lparr>wd_id = fresh (n + length (cw_triggers request)),
                wd_name = cw_name request,
                wd_description = cw_description request,
                wd_task_definitions = tds,
                wd_trigger_definitions = map fst resolved_triggers,
                wd_enabled = cw_enabled request\<rparr>, resolved_triggers)))))"

definition create_definition ::
  "(string \<times> task_plugin) list \<Rightarrow> (string \<times> trigger_plugin) list \<Rightarrow> (nat \<Rightarrow> uuid) \<Rightarrow> (nat \<Rightarrow> datetime)
   \<Rightarrow> create_workflow_definition \<Rightarrow> (database, uuid) op" where
  "create_definition task_reg trigger_reg fresh clock request =
     (case new_workflow_definition task_reg trigger_reg fresh request of
        Inl e \<Rightarrow> raise e
      | Inr (wd, resolved_triggers) \<Rightarrow>
          with_uow
            (andThen (in_uow (save_definition wd)) (\<lambda>_.
             andThen (in_uow (initialize_triggers clock resolved_triggers)) (\<lambda>_.
             andThen uow_commit (\<lambda>_. ret (wd_id wd))))))"

definition delete_workflow_definition :: "uuid \<Rightarrow> (database, unit) op" where
  "delete_workflow_definition workflow_definition_id =
     with_uow (andThen (in_uow (delete_definition workflow_definition_id)) (\<lambda>_. uow_commit))"

definition get_workflow_execution :: "uuid \<Rightarrow> (database, workflow_execution) op" where
  "get_workflow_execution workflow_execution_id =
     andThen (with_uow (in_uow (load_execution workflow_execution_id))) (\<lambda>loaded.
       case loaded of
         None \<Rightarrow> raise (WorkflowExecutionNotFoundError workflow_execution_id)
       | Some workflow_execution \<Rightarrow> ret workflow_execution)"

section \<open>Creating a definition\<close>

lemma initialize_triggers_inv:
  "definitions_inv db \<Longrightarrow> definitions_inv (fst (initialize_triggers clock rs db))"
proof (induction rs arbitrary: db clock)
  case Nil
  then show ?case by simp
next
  case (Cons r rs)
  obtain trigger plugin where r: "r = (trigger, plugin)" by force
  obtain db1 x where i: "initialize_trigger plugin trigger (clock 0) db = (db1, x)" by force
  have "definitions_inv (fst (initialize_trigger plugin trigger (clock 0) db))"
    using Cons.prems create_trigger_state_inv
    by (auto simp: initialize_trigger_def initialize_chronological_def
        split: option.splits sum.splits)
  then have "definitions_inv db1" by (simp add: i)
  then show ?case using Cons.IH [of db1 "\<lambda>i. clock (Suc i)"]
    by (cases x) (simp_all add: r andThen_def i)
qed

lemma initialize_triggers_frame:
  "initialize_triggers clock rs db = (db', r) \<Longrightarrow> \<exists>rows. db' = with_schedule rows db"
proof (induction rs arbitrary: db clock)
  case Nil
  then show ?case by (auto simp: with_schedule_def intro!: exI [of _ "chronological_trigger_state db"])
next
  case (Cons p rs)
  obtain trigger plugin where p: "p = (trigger, plugin)" by force
  obtain db1 x where i: "initialize_trigger plugin trigger (clock 0) db = (db1, x)" by force
  have "\<exists>rows. fst (initialize_trigger plugin trigger (clock 0) db) = with_schedule rows db"
    by (auto simp: initialize_trigger_def initialize_chronological_def create_trigger_state_def
        with_schedule_def split: option.splits sum.splits
        intro: exI [of _ "chronological_trigger_state db"])
  then obtain rows where rows: "db1 = with_schedule rows db" by (auto simp: i)
  show ?case
  proof (cases x)
    case (Inl e)
    with Cons.prems i p rows show ?thesis by (auto simp: andThen_def)
  next
    case (Inr y)
    then have "initialize_triggers (\<lambda>i. clock (Suc i)) rs db1 = (db', r)"
      using Cons.prems i p by (simp add: andThen_def)
    from Cons.IH [OF this] rows show ?thesis by (auto simp: with_schedule_def)
  qed
qed

lemma create_definition_atomic:
  assumes "create_definition task_reg trigger_reg fresh clock request db = (db', Inl e)"
  shows "db' = db"
  using assms
  by (auto simp: create_definition_def with_uow_def andThen_def in_uow_def uow_commit_def
      split: sum.splits prod.splits)

text \<open>The identifiers drawn by the call are new to the definition tables.\<close>

definition unused_definition_ids :: "(nat \<Rightarrow> uuid) \<Rightarrow> nat \<Rightarrow> nat \<Rightarrow> database \<Rightarrow> bool" where
  "unused_definition_ids fresh n k db \<longleftrightarrow>
     inj_on fresh {..n + k}
     \<and> (\<forall>i < n. fresh i \<notin> tdr_id ` set (task_definitions db))
     \<and> (\<forall>i < k. fresh (n + i) \<notin> trr_id ` set (trigger_definitions db))
     \<and> fresh (n + k) \<notin> wdr_id ` set (workflow_definitions db)"

lemma new_workflow_definition_iff:
  "new_workflow_definition task_reg trigger_reg fresh request = Inr (wd, resolved) \<longleftrightarrow>
     tasks_acceptable task_reg (cw_tasks request)
     \<and> create_trigger_definitions trigger_reg (\<lambda>i. fresh (length (cw_tasks request) + i)) (cw_triggers request)
         = Inr resolved
     \<and> wd = \<lparr>wd_id = fresh (length (cw_tasks request) + length (cw_triggers request)),
             wd_name = cw_name request, wd_description = cw_description request,
             wd_task_definitions = map (definition_of fresh (cw_tasks request)) (cw_tasks request),
             wd_trigger_definitions = map fst resolved, wd_enabled = cw_enabled request\<rparr>"
  (is "?l \<longleftrightarrow> ?acc \<and> ?tr \<and> ?wd")
proof (cases ?acc)
  case True
  then have "edges_declared (cw_tasks request)"
    by (auto simp: tasks_acceptable_def intro: acceptable_edges_declared)
  then show ?thesis
    using True
    by (auto simp: new_workflow_definition_def Let_def bind_result_eq_Inr_iff
        create_task_definitions_eq validate_tasks_acceptable)
next
  case False
  then show ?thesis
    by (simp add: new_workflow_definition_def Let_def bind_result_eq_Inr_iff validate_tasks_acceptable)
qed

lemma new_workflow_definition_new:
  assumes "new_workflow_definition task_reg trigger_reg fresh request = Inr (wd, resolved)"
    and "unused_definition_ids fresh (length (cw_tasks request)) (length (cw_triggers request)) db"
    and "\<forall>t \<in> set (cw_tasks request). int4 (ct_max_tries t)"
  shows "new_definition db wd"
proof -
  let ?ts = "cw_tasks request" and ?n = "length (cw_tasks request)" and ?k = "length (cw_triggers request)"
  have acc: "tasks_acceptable task_reg ?ts"
    and tr: "create_trigger_definitions trigger_reg (\<lambda>i. fresh (?n + i)) (cw_triggers request) = Inr resolved"
    and wd: "wd_id wd = fresh (?n + ?k)" "wd_task_definitions wd = map (definition_of fresh ?ts) ?ts"
      "wd_trigger_definitions wd = map fst resolved"
    using assms(1) by (simp_all add: new_workflow_definition_iff)
  have inj: "inj_on fresh {..?n + ?k}"
    and tids: "\<forall>i < ?n. fresh i \<notin> tdr_id ` set (task_definitions db)"
    and gids: "\<forall>i < ?k. fresh (?n + i) \<notin> trr_id ` set (trigger_definitions db)"
    and wid: "fresh (?n + ?k) \<notin> wdr_id ` set (workflow_definitions db)"
    using assms(2) by (simp_all add: unused_definition_ids_def)
  have dist: "distinct (map ct_key ?ts)" using acc by (simp add: tasks_acceptable_def)
  have ok: "definition_ok (wd_task_definitions wd)"
    unfolding wd(2) by (rule definitions_ok [OF acc inj_on_subset [OF inj]]) auto
  have "td_id td \<notin> tdr_id ` set (task_definitions db)" if td: "td \<in> set (wd_task_definitions wd)" for td
  proof -
    obtain t where t: "t \<in> set ?ts" "td = definition_of fresh ?ts t" using td unfolding wd(2) by auto
    then obtain i where i: "i < ?n" "t = ?ts ! i" by (auto simp: in_set_conv_nth)
    then have "td_id td = fresh i"
      using id_of_key_nth [OF dist i(1), of fresh] t(2) by (simp add: definition_of_def id_of_key_def)
    then show ?thesis using tids i(1) by simp
  qed
  then have t_new: "td_id ` set (wd_task_definitions wd) \<inter> tdr_id ` set (task_definitions db) = {}" by blast
  have ids: "map tr_id (wd_trigger_definitions wd) = map (\<lambda>i. fresh (?n + i)) [0..<?k]"
    using create_triggers_ids [OF tr] by (simp add: wd(3) comp_def)
  have "inj_on (\<lambda>i. fresh (?n + i)) (set [0..<?k])"
  proof (rule inj_onI)
    fix i j assume "i \<in> set [0..<?k]" "j \<in> set [0..<?k]" "fresh (?n + i) = fresh (?n + j)"
    then have "?n + i = ?n + j" by (intro inj_onD [OF inj]) simp_all
    then show "i = j" by simp
  qed
  then have "distinct (map tr_id (wd_trigger_definitions wd))"
    unfolding ids by (simp add: distinct_map)
  moreover have "tr_id ` set (wd_trigger_definitions wd) = (\<lambda>i. fresh (?n + i)) ` set [0..<?k]"
    using arg_cong [OF ids, of set] by simp
  then have "tr_id ` set (wd_trigger_definitions wd) \<inter> trr_id ` set (trigger_definitions db) = {}"
    using gids by auto
  moreover have "\<forall>t \<in> set (wd_task_definitions wd). int4 (td_max_tries t)"
    using assms(3) unfolding wd(2) by (auto simp: definition_of_def)
  ultimately show ?thesis
    using ok t_new wid by (simp add: new_definition_def wd(1))
qed

text \<open>
  A successful \<open>create\<close> has stored exactly the requested definition, and scheduling state.
\<close>

lemma create_definition_ok:
  assumes inv: "definitions_inv db"
    and unused: "unused_definition_ids fresh (length (cw_tasks request)) (length (cw_triggers request)) db"
    and int4: "\<forall>t \<in> set (cw_tasks request). int4 (ct_max_tries t)"
    and ok: "create_definition task_reg trigger_reg fresh clock request db = (db', Inr wid)"
  obtains wd resolved rows where
    "new_workflow_definition task_reg trigger_reg fresh request = Inr (wd, resolved)"
    "wid = wd_id wd" "new_definition db wd" "dependency_ordered {} (wd_task_definitions wd)"
    "db' = with_schedule rows (with_definition wd db)" "definitions_inv db'"
proof -
  obtain wd resolved where wd: "new_workflow_definition task_reg trigger_reg fresh request = Inr (wd, resolved)"
    using ok by (cases "new_workflow_definition task_reg trigger_reg fresh request")
      (auto simp: create_definition_def)
  have new: "new_definition db wd" by (rule new_workflow_definition_new [OF wd unused int4])
  have schema: "schema_ok db" using inv by (simp add: definitions_inv_def)
  have ordered: "dependency_ordered {} (wd_task_definitions wd)"
  proof (rule ccontr)
    assume "\<not> ?thesis"
    then have "snd (save_definition wd db) = Inl IntegrityError"
      by (rule save_new_definition(2) [OF schema new])
    then show False using ok wd
      by (auto simp: create_definition_def with_uow_def andThen_def in_uow_def split: prod.splits)
  qed
  note save = save_new_definition(1) [OF schema new ordered]
  obtain db2 r where init: "initialize_triggers clock resolved (with_definition wd db) = (db2, r)" by force
  have db': "db' = db2" "wid = wd_id wd"
    using ok wd save init
    by (auto simp: create_definition_def with_uow_def andThen_def in_uow_def uow_commit_def split: sum.splits)
  obtain rows where "db2 = with_schedule rows (with_definition wd db)"
    using initialize_triggers_frame [OF init] by blast
  moreover have "definitions_inv db2"
    using initialize_triggers_inv [OF definitions_inv_save [OF inv new], of clock resolved] by (simp add: init)
  ultimately show thesis using that wd new ordered db' by blast
qed

section \<open>Deleting and querying\<close>

lemma delete_workflow_definition_eq:
  "delete_workflow_definition wid db =
     (case delete_definition wid db of (db', Inl e) \<Rightarrow> (db, Inl e) | (db', Inr x) \<Rightarrow> (db', Inr ()))"
  by (simp add: delete_workflow_definition_def with_uow_def andThen_def in_uow_def uow_commit_def
      split: prod.splits sum.splits)

lemma get_workflow_execution_eq:
  "get_workflow_execution wid db =
     (db, case lookup_row w_id wid (workflow_executions db) of
            None \<Rightarrow> Inl (WorkflowExecutionNotFoundError wid)
          | Some w \<Rightarrow> Inr (workflow_to_domain w
              (map task_to_domain (tasks_of (task_executions db) wid))))"
proof (cases "lookup_row w_id wid (workflow_executions db)")
  case None
  then show ?thesis
    by (simp add: get_workflow_execution_def with_uow_def andThen_def in_uow_def load_execution_def)
next
  case (Some w)
  then have "w_id w = wid" by (auto dest: lookup_row_SomeD)
  with Some show ?thesis
    by (simp add: get_workflow_execution_def with_uow_def andThen_def in_uow_def load_execution_def
        Let_def tasks_of_def select_where_def)
qed

end
