(* ===== verification/System.thy ===== *)
theory System
  imports Runtime Definition_Service
begin

text \<open>
  The platform as a whole: one database, one queue, any number of workers, API processes,
  schedulers and reconcilers, interleaved transaction by transaction. Queue publications that a
  process makes after its commit are in flight in an outbox until they are made or lost with the
  process; workers may stop at any point and leave their claim behind, and leases may expire and
  be claimed again while the previous holder still runs.
\<close>

section \<open>States and steps\<close>

record system =
  sys_db :: database
  sys_queue :: queue_table
  sys_outbox :: "uuid list list"
  sys_workers :: "uuid \<Rightarrow> worker_state"

definition initial_system :: system where
  "initial_system = \<lparr>sys_db = empty_database, sys_queue = [], sys_outbox = [], sys_workers = (\<lambda>_. Idle)\<rparr>"

fun worker_claim :: "worker_state \<Rightarrow> queue_claim option" where
  "worker_claim Idle = None"
| "worker_claim (Starting c u) = Some c"
| "worker_claim (Executing c u task) = Some c"
| "worker_claim (Settling c u pr) = Some c"

text \<open>
  \<open>uuid4\<close> returns identifiers that are not in use; the bound on the number of tasks keeps the
  dependency counters inside an \<open>INTEGER\<close> column.
\<close>

definition start_ids_unused :: "(nat \<Rightarrow> uuid) \<Rightarrow> database \<Rightarrow> uuid \<Rightarrow> bool" where
  "start_ids_unused fresh db wid \<longleftrightarrow>
     (\<forall>wd. load_definition wid db = (db, Inr (Some wd)) \<longrightarrow>
        unused_ids fresh (length (wd_task_definitions wd)) db
        \<and> length (wd_task_definitions wd) < 2 ^ 31)"

definition published_ids :: "queue_table \<Rightarrow> uuid list" where
  "published_ids q = map qe_task_execution_id q"

text \<open>The claim tokens that workers and queue entries hold; \<open>uuid4\<close> returns none of them.\<close>

definition tokens_in_use :: "system \<Rightarrow> uuid set" where
  "tokens_in_use s =
     {cl_claim_token c | c. \<exists>w. worker_claim (sys_workers s w) = Some c}
     \<union> {t. \<exists>e \<in> set (sys_queue s). qe_claim_token e = Some t}"

text \<open>
  Calls that commit and then publish run here against an empty queue, which collects the
  identifiers they publish; these enter the outbox. Requests that fail change nothing
  (\<open>create_definition_atomic\<close>, \<open>start_and_commit_Inl\<close>, \<open>process_next_due_Inl\<close>) and have no rule.
\<close>

inductive sys_step ::
  "(string \<times> task_plugin) list \<Rightarrow> (string \<times> trigger_plugin) list \<Rightarrow> timedelta \<Rightarrow> system \<Rightarrow> system \<Rightarrow> bool"
  for task_reg trigger_reg lease_timeout where
  step_create:
    "create_definition task_reg trigger_reg fresh clock request (sys_db s) = (db', Inr wid) \<Longrightarrow>
     unused_definition_ids fresh (length (cw_tasks request)) (length (cw_triggers request)) (sys_db s) \<Longrightarrow>
     \<forall>t \<in> set (cw_tasks request). int4 (ct_max_tries t) \<Longrightarrow>
     sys_step task_reg trigger_reg lease_timeout s (s\<lparr>sys_db := db'\<rparr>)"
| step_delete:
    "delete_workflow_definition wid (sys_db s) = (db', Inr ()) \<Longrightarrow>
     sys_step task_reg trigger_reg lease_timeout s (s\<lparr>sys_db := db'\<rparr>)"
| step_start:
    "start_workflow fresh now at wid (sys_db s, []) = ((db', q'), Inr i) \<Longrightarrow>
     start_ids_unused fresh (sys_db s) wid \<Longrightarrow>
     sys_step task_reg trigger_reg lease_timeout s
       (s\<lparr>sys_db := db', sys_outbox := published_ids q' # sys_outbox s\<rparr>)"
| step_schedule:
    "process_next_due trigger_reg locked fresh now created at (sys_db s, []) = ((db', q'), Inr b) \<Longrightarrow>
     (\<And>d. get_next_due locked now (sys_db s) = (sys_db s, Inr (Some d)) \<Longrightarrow>
        start_ids_unused fresh (sys_db s) (due_workflow_definition_id d)) \<Longrightarrow>
     sys_step task_reg trigger_reg lease_timeout s
       (s\<lparr>sys_db := db', sys_outbox := published_ids q' # sys_outbox s\<rparr>)"
| step_read_runnable:
    "sys_step task_reg trigger_reg lease_timeout s
       (s\<lparr>sys_outbox := runnable_ids (sys_db s) # sys_outbox s\<rparr>)"
| step_publish:
    "ids \<in> set (sys_outbox s) \<Longrightarrow>
     sys_step task_reg trigger_reg lease_timeout s
       (s\<lparr>sys_queue := enqueue ids now (sys_queue s), sys_outbox := remove1 ids (sys_outbox s)\<rparr>)"
| step_lose:
    "ids \<in> set (sys_outbox s) \<Longrightarrow>
     sys_step task_reg trigger_reg lease_timeout s (s\<lparr>sys_outbox := remove1 ids (sys_outbox s)\<rparr>)"
| step_claim:
    "sys_workers s w = Idle \<Longrightarrow>
     claim lease_timeout locked w token now (sys_queue s) = (q', c) \<Longrightarrow>
     token \<notin> tokens_in_use s \<Longrightarrow>
     sys_step task_reg trigger_reg lease_timeout s
       (s\<lparr>sys_queue := q', sys_workers := (sys_workers s)(w := worker_claims c)\<rparr>)"
| step_heartbeat:
    "worker_claim (sys_workers s w) = Some c \<Longrightarrow>
     heartbeat c now (sys_queue s) = (q', owned) \<Longrightarrow>
     sys_step task_reg trigger_reg lease_timeout s
       (s\<lparr>sys_queue := q',
          sys_workers := (sys_workers s)(w := worker_heartbeats (Some owned) (sys_workers s w))\<rparr>)"
| step_heartbeat_fails:
    "sys_step task_reg trigger_reg lease_timeout s
       (s\<lparr>sys_workers := (sys_workers s)(w := worker_heartbeats None (sys_workers s w))\<rparr>)"
| step_begin:
    "sys_workers s w = Starting c u \<Longrightarrow>
     worker_starts now c u (sys_db s) = (db', st) \<Longrightarrow>
     sys_step task_reg trigger_reg lease_timeout s
       (s\<lparr>sys_db := db', sys_workers := (sys_workers s)(w := st)\<rparr>)"
| step_execute:
    "sys_workers s w = Executing c u task \<Longrightarrow>
     worker_executes task_reg now c u task (sys_db s) = (db', st) \<Longrightarrow>
     sys_step task_reg trigger_reg lease_timeout s
       (s\<lparr>sys_db := db', sys_workers := (sys_workers s)(w := st)\<rparr>)"
| step_settle:
    "sys_workers s w = Settling c u pr \<Longrightarrow>
     sys_step task_reg trigger_reg lease_timeout s
       (s\<lparr>sys_queue := worker_settles now c u pr (sys_queue s),
          sys_workers := (sys_workers s)(w := Idle)\<rparr>)"
| step_stop:
    "sys_step task_reg trigger_reg lease_timeout s (s\<lparr>sys_workers := (sys_workers s)(w := Idle)\<rparr>)"

definition reachable ::
  "(string \<times> task_plugin) list \<Rightarrow> (string \<times> trigger_plugin) list \<Rightarrow> timedelta \<Rightarrow> system \<Rightarrow> bool" where
  "reachable task_reg trigger_reg lease_timeout s \<longleftrightarrow>
     (sys_step task_reg trigger_reg lease_timeout)\<^sup>*\<^sup>* initial_system s"

section \<open>The invariant\<close>

abbreviation sys_tasks :: "system \<Rightarrow> task_row list" where
  "sys_tasks s \<equiv> task_executions (sys_db s)"

definition queued :: "system \<Rightarrow> uuid \<Rightarrow> bool" where
  "queued s i \<longleftrightarrow> i \<in> dom (queue_leases (sys_queue s))"

text \<open>A worker's task is queued or finished; what it is about to publish has been released.\<close>

definition worker_ok :: "system \<Rightarrow> worker_state \<Rightarrow> bool" where
  "worker_ok s st \<longleftrightarrow>
     (case st of
        Idle \<Rightarrow> True
      | Starting c u \<Rightarrow>
          known_released (sys_tasks s) (cl_task_execution_id c)
          \<and> (queued s (cl_task_execution_id c) \<or> finished (sys_tasks s) (cl_task_execution_id c))
      | Executing c u task \<Rightarrow> started (sys_tasks s) (cl_task_execution_id c)
      | Settling c u pr \<Rightarrow>
          (\<forall>i \<in> set (pr_enqueue_task_ids pr). known_released (sys_tasks s) i)
          \<and> (\<not> pr_should_retry pr \<longrightarrow> finished (sys_tasks s) (cl_task_execution_id c)))"

definition running_queued :: "system \<Rightarrow> bool" where
  "running_queued s \<longleftrightarrow> (\<forall>t \<in> set (sys_tasks s). t_status t = Running \<longrightarrow> queued s (t_id t))"

definition sys_inv :: "system \<Rightarrow> bool" where
  "sys_inv s \<longleftrightarrow>
     exec_inv (sys_db s) \<and> definitions_inv (sys_db s) \<and> queue_inv (sys_queue s)
     \<and> (\<forall>i. queued s i \<longrightarrow> known_released (sys_tasks s) i)
     \<and> (\<forall>ids \<in> set (sys_outbox s). \<forall>i \<in> set ids. known_released (sys_tasks s) i)
     \<and> (\<forall>w. worker_ok s (sys_workers s w))
     \<and> running_queued s"

lemma sys_invD:
  assumes "sys_inv s"
  shows "exec_inv (sys_db s)" "definitions_inv (sys_db s)" "queue_inv (sys_queue s)"
    "queued s i \<Longrightarrow> known_released (sys_tasks s) i"
    "ids \<in> set (sys_outbox s) \<Longrightarrow> j \<in> set ids \<Longrightarrow> known_released (sys_tasks s) j"
    "worker_ok s (sys_workers s w)" "running_queued s"
  using assms by (auto simp: sys_inv_def)

lemma sys_inv_initial: "sys_inv initial_system"
  by (simp add: sys_inv_def initial_system_def exec_inv_empty definitions_inv_empty queue_inv_def
      queued_def dom_queue_leases worker_ok_def running_queued_def)
    (simp add: empty_database_def)

lemma finished_not_running:
  "distinct (task_ids ts) \<Longrightarrow> finished ts i \<Longrightarrow> t \<in> set ts \<Longrightarrow> t_id t = i \<Longrightarrow> t_status t \<noteq> Running"
  unfolding finished_def using same_id_same_row by (metis terminal_task_simps(2))

text \<open>The three ways a step changes the state.\<close>

lemma worker_ok_db:
  assumes "worker_ok s st" "table_advances (sys_tasks s) (task_executions db')"
  shows "worker_ok (s\<lparr>sys_db := db'\<rparr>) st"
  using assms progress_advances [OF assms(2)]
  by (auto simp: worker_ok_def queued_def split: worker_state.splits)

lemma sys_inv_db:
  assumes inv: "sys_inv s" and "exec_inv db'" "definitions_inv db'"
    and adv: "table_advances (sys_tasks s) (task_executions db')"
    and run: "\<And>t. t \<in> set (task_executions db') \<Longrightarrow> t_status t = Running \<Longrightarrow> queued s (t_id t)"
  shows "sys_inv (s\<lparr>sys_db := db'\<rparr>)"
  unfolding sys_inv_def
proof (intro conjI allI ballI impI)
  show "worker_ok (s\<lparr>sys_db := db'\<rparr>) (sys_workers (s\<lparr>sys_db := db'\<rparr>) w)" for w
    using worker_ok_db [OF sys_invD(6) [OF inv] adv] by simp
  show "known_released (sys_tasks (s\<lparr>sys_db := db'\<rparr>)) i" if "queued (s\<lparr>sys_db := db'\<rparr>) i" for i
    using that sys_invD(4) [OF inv] known_released_advances [OF adv] by (simp add: queued_def)
  show "known_released (sys_tasks (s\<lparr>sys_db := db'\<rparr>)) i"
    if "ids \<in> set (sys_outbox (s\<lparr>sys_db := db'\<rparr>))" "i \<in> set ids" for ids i
    using that sys_invD(5) [OF inv] known_released_advances [OF adv] by simp
  show "running_queued (s\<lparr>sys_db := db'\<rparr>)"
    using run by (simp add: running_queued_def queued_def)
qed (use assms sys_invD(3) [OF inv] in simp_all)

lemma sys_inv_queue:
  assumes inv: "sys_inv s" and "queue_inv q'"
    and out: "\<And>i. queued s i \<Longrightarrow> i \<in> dom (queue_leases q') \<or> finished (sys_tasks s) i"
    and "in": "\<And>i. i \<in> dom (queue_leases q') \<Longrightarrow> known_released (sys_tasks s) i"
  shows "sys_inv (s\<lparr>sys_queue := q'\<rparr>)"
  unfolding sys_inv_def
proof (intro conjI allI ballI impI)
  let ?s = "s\<lparr>sys_queue := q'\<rparr>"
  show "worker_ok ?s (sys_workers ?s w)" for w
    using sys_invD(6) [OF inv, of w] out
    by (auto simp: worker_ok_def queued_def split: worker_state.splits)
  show "known_released (sys_tasks ?s) i" if "queued ?s i" for i
    using that "in" by (simp add: queued_def)
  show "known_released (sys_tasks ?s) i" if "ids \<in> set (sys_outbox ?s)" "i \<in> set ids" for ids i
    using that sys_invD(5) [OF inv] by simp
  show "running_queued ?s"
    unfolding running_queued_def
  proof (intro ballI impI)
    fix t assume t: "t \<in> set (sys_tasks ?s)" "t_status t = Running"
    then have "queued s (t_id t)" using sys_invD(7) [OF inv] by (simp add: running_queued_def)
    moreover have "\<not> finished (sys_tasks s) (t_id t)"
      using finished_not_running [OF exec_invD(4) [OF sys_invD(1) [OF inv]]] t by auto
    ultimately show "queued ?s (t_id t)" using out by (auto simp: queued_def)
  qed
qed (use assms sys_invD(1,2) [OF inv] in simp_all)

lemma sys_inv_worker:
  assumes inv: "sys_inv s" and "worker_ok s st"
  shows "sys_inv (s\<lparr>sys_workers := (sys_workers s)(w := st)\<rparr>)"
proof -
  have "worker_ok (s\<lparr>sys_workers := ws\<rparr>) = worker_ok s" for ws
    by (rule ext) (simp add: worker_ok_def queued_def split: worker_state.splits)
  with assms show ?thesis
    by (simp add: sys_inv_def queued_def running_queued_def)
qed

lemma sys_inv_outbox:
  assumes inv: "sys_inv s"
    and "\<And>ids i. ids \<in> set out \<Longrightarrow> i \<in> set ids \<Longrightarrow> known_released (sys_tasks s) i"
  shows "sys_inv (s\<lparr>sys_outbox := out\<rparr>)"
proof -
  have "worker_ok (s\<lparr>sys_outbox := out\<rparr>) = worker_ok s"
    by (rule ext) (simp add: worker_ok_def queued_def split: worker_state.splits)
  with assms show ?thesis
    by (simp add: sys_inv_def queued_def running_queued_def)
qed

section \<open>Running tasks after a transition\<close>

definition no_new_running :: "task_row list \<Rightarrow> task_row list \<Rightarrow> bool" where
  "no_new_running ts us \<longleftrightarrow>
     (\<forall>u \<in> set us. t_status u = Running \<longrightarrow> (\<exists>t \<in> set ts. t_id t = t_id u \<and> t_status t = Running))"

lemma no_new_running_refl [simp]: "no_new_running ts ts"
  by (auto simp: no_new_running_def)

lemma no_new_running_map:
  "(\<And>t. t_id (f t) = t_id t \<and> (t_status (f t) = Running \<longrightarrow> t_status t = Running)) \<Longrightarrow>
   no_new_running ts (map f ts)"
  unfolding no_new_running_def by auto

lemma no_new_running_trans:
  "no_new_running ts us \<Longrightarrow> no_new_running us vs \<Longrightarrow> no_new_running ts vs"
  unfolding no_new_running_def by metis

lemma rows_running:
  "t_status (complete_row creq t) = Running \<longrightarrow> t_status t = Running"
  "t_status (release_row cs t) = Running \<longrightarrow> t_status t = Running"
  "t_status (retry_row rreq t) = Running \<longrightarrow> t_status t = Running"
  "t_status (cancel_row wid at t) = Running \<longrightarrow> t_status t = Running"
  by (simp_all add: complete_row_def release_row_def retry_row_def cancel_row_def)

lemma no_new_running_rows:
  "no_new_running ts (map (complete_row creq) ts)"
  "no_new_running ts (map (release_row cs) ts)"
  "no_new_running ts (map (retry_row rreq) ts)"
  "no_new_running ts (map (cancel_row wid at) ts)"
  by (rule no_new_running_map, rule conjI, simp, rule rows_running)+

lemma complete_no_new_running:
  assumes inv: "exec_inv db"
  shows "no_new_running (task_executions db) (task_executions (fst (complete_task request db)))"
proof (cases "\<exists>r \<in> set (task_executions db). t_id r = creq_task_execution_id request \<and> t_status r = Running")
  case True
  then obtain r where r: "r \<in> set (task_executions db)" "t_id r = creq_task_execution_id request"
    "t_status r = Running" by blast
  have "distinct (t_child_task_ids r)"
    using exec_invD(1) [OF inv] r(1) by (simp add: graph_ok_def mirrored_def)
  note active = complete_task_active(1) [OF exec_invD(4) [OF inv] r this]
  show ?thesis
    unfolding active
    using no_new_running_trans [OF no_new_running_rows(1) no_new_running_rows(2)] by simp
next
  case False
  then have "complete_task request db =
      (db, Inr \<lparr>cres_runnable_task_execution_ids = [], cres_workflow_completed = False\<rparr>)"
    by (intro complete_task_inactive) blast
  then show ?thesis by simp
qed

lemma retry_no_new_running:
  "no_new_running (task_executions db) (task_executions (fst (retry_task request db)))"
proof -
  have helper: "task_executions (fst (retry_task_helper request db)) = map (retry_row request) (task_executions db)"
    by (simp add: retry_task_helper_def Let_def retry_update_eq split: option.splits prod.splits)
  have fail: "no_new_running (task_executions d) (task_executions (fst (fail_workflow wid at d)))" for wid at d
  proof (cases wid)
    case None
    then show ?thesis
      by (simp add: fail_workflow_def Let_def update_where_def no_new_running_map)
  next
    case (Some i)
    then show ?thesis
      using no_new_running_rows(4) [of "task_executions d" i at]
      by (simp add: fail_workflow_def Let_def cancel_update_eq [simplified])
  qed
  obtain d r where h: "retry_task_helper request db = (d, r)" by force
  have d: "no_new_running (task_executions db) (task_executions d)"
    using helper h no_new_running_rows(3) by simp
  show ?thesis
    using h d no_new_running_trans [OF d fail]
    by (simp add: retry_task_def split: prod.splits) (metis fst_conv)
qed

lemma persist_no_new_running:
  assumes "exec_inv db" "persist_result tid now res db = (db', r)"
  shows "no_new_running (task_executions db) (task_executions db')"
proof -
  have "db' = fst (persist_result tid now res db)" using assms(2) by simp
  then show ?thesis
    using complete_no_new_running [OF assms(1)] retry_no_new_running
    by (simp add: persist_result_def service_complete_eq service_retry_eq Let_def)
qed

lemma service_start_db:
  "fst (service_start_task tid now db) = db
   \<or> fst (service_start_task tid now db) = db\<lparr>task_executions := map (start_row tid now) (task_executions db)\<rparr>"
proof -
  have d: "fst (start_task tid now db) = db\<lparr>task_executions := map (start_row tid now) (task_executions db)\<rparr>"
    by (rule start_task_db)
  obtain db' r where s: "start_task tid now db = (db', r)" by force
  show ?thesis
  proof (cases r)
    case (Inl e)
    with s show ?thesis by (simp add: service_start_task_def with_uow_def andThen_def in_uow_def)
  next
    case (Inr x)
    with s d show ?thesis
      by (cases x) (simp_all add: service_start_task_def with_uow_def andThen_def in_uow_def uow_commit_def)
  qed
qed

lemma start_running:
  assumes "t \<in> set (task_executions (fst (service_start_task tid now db)))" "t_status t = Running"
  shows "t_id t = tid \<or> (\<exists>u \<in> set (task_executions db). t_id u = t_id t \<and> t_status u = Running)"
  using service_start_db [of tid now db] assms by (auto simp: start_row_def split: if_splits)

lemma running_queued_stays:
  assumes "running_queued s" "no_new_running (sys_tasks s) us" "t \<in> set us" "t_status t = Running"
  shows "queued s (t_id t)"
  using assms unfolding running_queued_def no_new_running_def by metis

section \<open>Every step keeps the invariant\<close>

lemma exec_inv_tables:
  "workflow_executions db' = workflow_executions db \<Longrightarrow> task_executions db' = task_executions db \<Longrightarrow>
   exec_inv db' = exec_inv db"
  by (simp add: exec_inv_def workflows_ok_def)

lemma definitions_inv_execution_step: "execution_step db db' \<Longrightarrow> definitions_inv db' = definitions_inv db"
  unfolding execution_step_def using definitions_inv_cong by blast

lemma execution_step_advances: "execution_step db db' \<Longrightarrow> table_advances (task_executions db) (task_executions db')"
  by (simp add: execution_step_def)

lemma step_create_inv:
  assumes inv: "sys_inv s"
    and "create_definition treg greg fresh clock request (sys_db s) = (db', Inr wid)"
    and "unused_definition_ids fresh (length (cw_tasks request)) (length (cw_triggers request)) (sys_db s)"
    and "\<forall>t \<in> set (cw_tasks request). int4 (ct_max_tries t)"
  shows "sys_inv (s\<lparr>sys_db := db'\<rparr>)"
proof -
  obtain wd rows where db': "db' = with_schedule rows (with_definition wd (sys_db s))" "definitions_inv db'"
    by (rule create_definition_ok [OF sys_invD(2) [OF inv] assms(3,4,2)]) blast
  have tables: "workflow_executions db' = workflow_executions (sys_db s)"
    "task_executions db' = task_executions (sys_db s)"
    by (simp_all add: db'(1))
  show ?thesis
    by (rule sys_inv_db [OF inv _ db'(2)])
      (use sys_invD(1,7) [OF inv] exec_inv_tables [OF tables] in
        \<open>auto simp: tables running_queued_def\<close>)
qed

lemma delete_cases:
  assumes del: "delete_workflow_definition wid db = (db', Inr ())"
  shows "db' = db \<or> (\<not> definition_referenced wid db \<and> db' = without_definition wid db)"
proof (cases "wid \<in> wdr_id ` set (workflow_definitions db)")
  case False
  then show ?thesis using del
    by (simp add: delete_workflow_definition_eq delete_missing_definition)
next
  case True
  show ?thesis
  proof (cases "definition_referenced wid db")
    case False
    with delete_existing_definition(1) [OF True False] del show ?thesis
      by (simp add: delete_workflow_definition_eq)
  next
    case refd: True
    then have "snd (delete_definition wid db) = Inl IntegrityError"
      by (rule delete_existing_definition(2) [OF True])
    with del show ?thesis
      by (cases "delete_definition wid db") (simp add: delete_workflow_definition_eq)
  qed
qed

lemma step_delete_inv:
  assumes inv: "sys_inv s" and del: "delete_workflow_definition wid (sys_db s) = (db', Inr ())"
  shows "sys_inv (s\<lparr>sys_db := db'\<rparr>)"
  using delete_cases [OF del]
proof
  assume "db' = sys_db s"
  then show ?thesis using inv by simp
next
  assume d: "\<not> definition_referenced wid (sys_db s) \<and> db' = without_definition wid (sys_db s)"
  have tables: "workflow_executions db' = workflow_executions (sys_db s)"
    "task_executions db' = task_executions (sys_db s)"
    using d by (simp_all add: without_definition_def)
  have "definitions_inv db'" using definitions_inv_delete [OF sys_invD(2) [OF inv]] d by simp
  then show ?thesis
    by (intro sys_inv_db [OF inv])
      (use sys_invD(1,7) [OF inv] exec_inv_tables [OF tables] in
        \<open>auto simp: tables running_queued_def\<close>)
qed

text \<open>Starting an execution: its rows are pending, its roots released.\<close>

lemma start_workflow_cases:
  assumes inv: "definitions_inv db" and unused: "start_ids_unused fresh db wid"
    and ok: "start_workflow fresh now at wid (db, q) = ((db', q'), Inr i)"
  obtains wd where "load_definition wid db = (db, Inr (Some wd))" "wd_enabled wd"
    "definition_ok (wd_task_definitions wd)"
    "unused_ids fresh (length (wd_task_definitions wd)) db"
    "db' = with_execution (started_row fresh now wid)
       (execution_rows (\<lambda>i. fresh (Suc i)) (fresh 0) (wd_task_definitions wd)) db"
    "q' = enqueue (root_ids (\<lambda>i. fresh (Suc i)) (wd_task_definitions wd)) at q" "i = fresh 0"
proof -
  obtain loaded where load: "load_definition wid db = (db, Inr loaded)"
    by (simp add: load_definition_eq)
  show thesis
  proof (cases loaded)
    case None
    with start_workflow_rejected(1) [of wid db fresh now at q] load ok show thesis by simp
  next
    case (Some wd)
    note load = load [unfolded Some]
    have enabled: "wd_enabled wd"
      using start_workflow_rejected(2) [OF load, of fresh now at q] ok by (cases "wd_enabled wd") simp_all
    have u: "unused_ids fresh (length (wd_task_definitions wd)) db" "length (wd_task_definitions wd) < 2 ^ 31"
      using unused load by (simp_all add: start_ids_unused_def)
    show thesis
      using start_workflow_ok [OF inv load enabled u, of now at q] ok
      by (intro that [OF load enabled load_definition_ok(1) [OF inv load] u(1)]) simp_all
  qed
qed

lemma published_enqueue: "set (published_ids (enqueue ids at [])) = set ids"
proof -
  have "queue_inv []" by (simp add: queue_inv_def)
  then have "dom (queue_leases (enqueue ids at [])) = dom (queue_leases []) \<union> set ids"
    by (simp add: pg.leases_enqueue dom_add_missing)
  then show ?thesis by (simp add: dom_queue_leases published_ids_def)
qed

lemma root_released:
  assumes "i \<in> set (root_ids fresh tds)"
  shows "known_released (ts @ execution_rows fresh wid tds) i"
proof -
  obtain td where td: "td \<in> set tds" "td_dependencies td = []" "i = exec_id fresh tds (td_id td)"
    using assms by (auto simp: root_ids_def)
  let ?row = "task_to_model (execution_of fresh wid tds td)"
  have "?row \<in> set (ts @ execution_rows fresh wid tds)" using td(1) by (simp add: execution_rows_def)
  moreover have "t_id ?row = i" "t_remaining_dependencies ?row = 0" using td by simp_all
  ultimately show ?thesis unfolding known_released_def by blast
qed

lemma sys_inv_execution:
  assumes inv: "sys_inv s" and defs: "definitions_inv db"
    and tables: "workflow_executions db = workflow_executions (sys_db s)" "task_executions db = sys_tasks s"
    and ok: "definition_ok tds" and unused: "unused_ids fresh (length tds) db"
    and out: "\<And>i. i \<in> set ids \<Longrightarrow> i \<in> set (root_ids (\<lambda>i. fresh (Suc i)) tds)"
  shows "sys_inv (s\<lparr>sys_db := with_execution (started_row fresh now wid)
           (execution_rows (\<lambda>i. fresh (Suc i)) (fresh 0) tds) db, sys_outbox := ids # sys_outbox s\<rparr>)"
proof -
  let ?rows = "execution_rows (\<lambda>i. fresh (Suc i)) (fresh 0) tds"
  let ?db = "with_execution (started_row fresh now wid) ?rows db"
  have "exec_inv db" using exec_inv_tables [OF tables] sys_invD(1) [OF inv] by simp
  then have e: "exec_inv ?db" by (rule exec_inv_with_execution [OF _ ok unused])
  have d: "definitions_inv ?db" using defs by (simp add: with_execution_def definitions_inv_cong)
  have tasks: "task_executions ?db = sys_tasks s @ ?rows" by (simp add: with_execution_def tables)
  have s1: "sys_inv (s\<lparr>sys_db := ?db\<rparr>)"
  proof (rule sys_inv_db [OF inv e d])
    show "table_advances (sys_tasks s) (task_executions ?db)"
      unfolding tasks by (rule table_advances_append)
    fix t assume "t \<in> set (task_executions ?db)" "t_status t = Running"
    then have "t \<in> set (sys_tasks s)"
      unfolding tasks using execution_rows_pending by force
    then show "queued s (t_id t)"
      using sys_invD(7) [OF inv] \<open>t_status t = Running\<close> by (simp add: running_queued_def)
  qed
  have "sys_inv ((s\<lparr>sys_db := ?db\<rparr>)\<lparr>sys_outbox := ids # sys_outbox s\<rparr>)"
  proof (rule sys_inv_outbox [OF s1])
    fix js j assume j: "js \<in> set (ids # sys_outbox s)" "j \<in> set js"
    show "known_released (sys_tasks (s\<lparr>sys_db := ?db\<rparr>)) j"
    proof (cases "j \<in> set ids")
      case True
      then show ?thesis using root_released out tasks by simp
    next
      case False
      then have "js \<in> set (sys_outbox (s\<lparr>sys_db := ?db\<rparr>))" using j by auto
      then show ?thesis using sys_invD(5) [OF s1 _ j(2)] by blast
    qed
  qed
  then show ?thesis by simp
qed

lemma step_start_inv:
  assumes inv: "sys_inv s" and unused: "start_ids_unused fresh (sys_db s) wid"
    and ok: "start_workflow fresh now at wid (sys_db s, []) = ((db', q'), Inr i)"
  shows "sys_inv (s\<lparr>sys_db := db', sys_outbox := published_ids q' # sys_outbox s\<rparr>)"
proof (rule start_workflow_cases [OF sys_invD(2) [OF inv] unused ok])
  fix wd
  assume wd: "definition_ok (wd_task_definitions wd)"
      "unused_ids fresh (length (wd_task_definitions wd)) (sys_db s)"
    and db': "db' = with_execution (started_row fresh now wid)
       (execution_rows (\<lambda>i. fresh (Suc i)) (fresh 0) (wd_task_definitions wd)) (sys_db s)"
    and q': "q' = enqueue (root_ids (\<lambda>i. fresh (Suc i)) (wd_task_definitions wd)) at []"
  show ?thesis
    unfolding db'
    by (rule sys_inv_execution [OF inv sys_invD(2) [OF inv] refl refl wd])
      (simp add: q' published_enqueue)
qed

lemma process_due_cases:
  assumes inv: "definitions_inv db"
    and unused: "\<And>d. get_next_due locked now db = (db, Inr (Some d)) \<Longrightarrow>
        start_ids_unused fresh db (due_workflow_definition_id d)"
    and ok: "process_next_due reg locked fresh now created at (db, q) = ((db', q'), Inr b)"
  obtains "db' = db" "q' = q" "\<not> b" "get_next_due locked now db = (db, Inr None)"
  | d wd next_run_at where "b" "get_next_due locked now db = (db, Inr (Some d))"
    "next_run reg d = Inr next_run_at"
    "load_definition (due_workflow_definition_id d) db = (db, Inr (Some wd))" "wd_enabled wd"
    "definition_ok (wd_task_definitions wd)"
    "unused_ids fresh (length (wd_task_definitions wd)) db"
    "db' = with_execution (started_row fresh created (due_workflow_definition_id d))
         (execution_rows (\<lambda>i. fresh (Suc i)) (fresh 0) (wd_task_definitions wd))
         (with_schedule (next_schedule (due_trigger_definition_id d) next_run_at
            (chronological_trigger_state db)) db)"
    "q' = enqueue (root_ids (\<lambda>i. fresh (Suc i)) (wd_task_definitions wd)) at q"
proof -
  obtain r where r: "get_next_due locked now db = (db, Inr r)" using get_next_due_total by blast
  show thesis
  proof (cases r)
    case None
    with process_nothing_due [of locked now db reg fresh created at q] r ok that(1) show thesis by simp
  next
    case (Some d)
    note due = r [unfolded Some]
    let ?wid = "due_workflow_definition_id d"
    obtain loaded where load: "load_definition ?wid db = (db, Inr loaded)"
      by (simp add: load_definition_eq)
    have nxt: "\<exists>n. next_run reg d = Inr n"
      using ok due
      by (cases "next_run reg d") (simp_all add: process_next_due_def with_uow_and_queue_split)
    then obtain n where n: "next_run reg d = Inr n" by blast
    obtain s t where st: "due locked now db s t" "d = \<lparr>due_trigger_definition_id = cts_trigger_definition_id s,
          due_workflow_definition_id = trr_workflow_definition_id t,
          due_plugin_type = trr_plugin_type t, due_configuration = trr_configuration t,
          due_next_run_at = cts_next_run_at s\<rparr>"
      by (rule get_next_due_SomeD [OF due])
    then have "?wid \<in> trr_workflow_definition_id ` set (trigger_definitions db)" by (simp add: due_def)
    moreover have "trr_workflow_definition_id ` set (trigger_definitions db) \<subseteq> wdr_id ` set (workflow_definitions db)"
      using inv by (simp add: definitions_inv_def schema_ok_def)
    ultimately have "?wid \<in> wdr_id ` set (workflow_definitions db)" by blast
    then have "lookup_row wdr_id ?wid (workflow_definitions db) \<noteq> None" by (simp add: lookup_row_None_iff)
    then obtain wd where wd: "loaded = Some wd"
      using load by (auto simp: load_definition_eq)
    note load = load [unfolded wd]
    have enabled: "wd_enabled wd"
      using process_due_disabled [OF due n load, of fresh created at q] ok by (cases "wd_enabled wd") simp_all
    have u: "unused_ids fresh (length (wd_task_definitions wd)) db" "length (wd_task_definitions wd) < 2 ^ 31"
      using unused [OF due] load by (simp_all add: start_ids_unused_def)
    show thesis
      using process_due_ok [OF inv due n load enabled u, of created at q] ok
      by (intro that(2) [OF _ due n load enabled load_definition_ok(1) [OF inv load] u(1)]) simp_all
  qed
qed

lemma definitions_inv_next_schedule:
  assumes "definitions_inv db"
  shows "definitions_inv (with_schedule (next_schedule i n (chronological_trigger_state db)) db)"
proof -
  have schema: "distinct (map cts_trigger_definition_id (chronological_trigger_state db))"
    "cts_trigger_definition_id ` set (chronological_trigger_state db) \<subseteq> trr_id ` set (trigger_definitions db)"
    using assms by (simp_all add: definitions_inv_def schema_ok_def)
  show ?thesis
    by (rule definitions_inv_schedule [OF assms next_schedule_keys(1) [OF schema(1)]
          subset_trans [OF next_schedule_keys(2) schema(2)]])
qed

lemma step_schedule_inv:
  assumes inv: "sys_inv s"
    and ok: "process_next_due reg locked fresh now created at (sys_db s, []) = ((db', q'), Inr b)"
    and unused: "\<And>d. get_next_due locked now (sys_db s) = (sys_db s, Inr (Some d)) \<Longrightarrow>
        start_ids_unused fresh (sys_db s) (due_workflow_definition_id d)"
  shows "sys_inv (s\<lparr>sys_db := db', sys_outbox := published_ids q' # sys_outbox s\<rparr>)"
proof (rule process_due_cases [OF sys_invD(2) [OF inv] unused ok])
  assume same: "db' = sys_db s" "q' = []"
  have "sys_inv (s\<lparr>sys_outbox := [] # sys_outbox s\<rparr>)"
  proof (rule sys_inv_outbox [OF inv])
    fix ids i assume "ids \<in> set ([] # sys_outbox s)" "i \<in> set ids"
    then have "ids \<in> set (sys_outbox s)" "i \<in> set ids" by auto
    then show "known_released (sys_tasks s) i" by (rule sys_invD(5) [OF inv])
  qed
  then show ?thesis using same by (simp add: published_ids_def)
next
  fix d wd n
  assume ok: "definition_ok (wd_task_definitions wd)"
    and u: "unused_ids fresh (length (wd_task_definitions wd)) (sys_db s)"
    and db': "db' = with_execution (started_row fresh created (due_workflow_definition_id d))
         (execution_rows (\<lambda>i. fresh (Suc i)) (fresh 0) (wd_task_definitions wd))
         (with_schedule (next_schedule (due_trigger_definition_id d) n
            (chronological_trigger_state (sys_db s))) (sys_db s))"
    and q': "q' = enqueue (root_ids (\<lambda>i. fresh (Suc i)) (wd_task_definitions wd)) at []"
  let ?sched = "next_schedule (due_trigger_definition_id d) n (chronological_trigger_state (sys_db s))"
  note defs = definitions_inv_next_schedule [OF sys_invD(2) [OF inv], of "due_trigger_definition_id d" n]
  have u': "unused_ids fresh (length (wd_task_definitions wd)) (with_schedule ?sched (sys_db s))"
    using u by (simp add: unused_ids_def)
  show ?thesis
    unfolding db'
    by (rule sys_inv_execution [OF inv defs _ _ ok u']) (simp_all add: q' published_enqueue)
qed

text \<open>Steps of workers, of the queue and of the outbox.\<close>

lemma worker_ok_workers [simp]: "worker_ok (s\<lparr>sys_workers := ws\<rparr>) = worker_ok s"
  by (rule ext) (simp add: worker_ok_def queued_def split: worker_state.splits)

lemma worker_ok_same_tables:
  "sys_tasks s' = sys_tasks s \<Longrightarrow> sys_queue s' = sys_queue s \<Longrightarrow> worker_ok s' = worker_ok s"
  by (rule ext) (simp add: worker_ok_def queued_def split: worker_state.splits)

lemma step_begin_inv:
  assumes inv: "sys_inv s" and w: "sys_workers s w = Starting c u"
    and st: "worker_starts now c u (sys_db s) = (db', st)"
  shows "sys_inv (s\<lparr>sys_db := db', sys_workers := (sys_workers s)(w := st)\<rparr>)"
    and "table_advances (sys_tasks s) (task_executions db')"
proof -
  let ?i = "cl_task_execution_id c"
  have ok: "known_released (sys_tasks s) ?i" "queued s ?i \<or> finished (sys_tasks s) ?i"
    using sys_invD(6) [OF inv, of w] by (simp_all add: w worker_ok_def)
  obtain db2 st2 where r: "worker_starts now c u (sys_db s) = (db2, st2)" "exec_inv db2"
    "execution_step (sys_db s) db2" "started (task_executions db2) ?i"
    "(\<exists>task. st2 = Executing c u task)
       \<or> (st2 = Settling c u no_result \<and> finished (task_executions db2) ?i)"
    by (rule worker_starts_spec [OF sys_invD(1) [OF inv] ok(1)])
  then have same: "db2 = db'" "st2 = st" using st by simp_all
  note r = r [unfolded same]
  show adv: "table_advances (sys_tasks s) (task_executions db')"
    by (rule execution_step_advances [OF r(3)])
  have run: "queued s (t_id t)" if t: "t \<in> set (task_executions db')" "t_status t = Running" for t
  proof -
    have "db' = fst (service_start_task ?i now (sys_db s))"
      using st by (auto simp: worker_starts_def split: prod.splits sum.splits option.splits)
    then have "t_id t = ?i \<or> (\<exists>u \<in> set (sys_tasks s). t_id u = t_id t \<and> t_status u = Running)"
      using start_running [of t ?i now "sys_db s"] t by simp
    then show ?thesis
    proof
      assume id: "t_id t = ?i"
      have "\<not> finished (task_executions db') ?i"
        using finished_not_running [OF exec_invD(4) [OF r(2)]] t id by blast
      then show ?thesis using ok(2) finished_advances [OF adv] id by metis
    next
      assume "\<exists>u \<in> set (sys_tasks s). t_id u = t_id t \<and> t_status u = Running"
      then show ?thesis using sys_invD(7) [OF inv] unfolding running_queued_def by metis
    qed
  qed
  have defs: "definitions_inv db'"
    using definitions_inv_execution_step [OF r(3)] sys_invD(2) [OF inv] by simp
  have s1: "sys_inv (s\<lparr>sys_db := db'\<rparr>)" by (rule sys_inv_db [OF inv r(2) defs adv run])
  have "worker_ok (s\<lparr>sys_db := db'\<rparr>) st"
    using r(4,5) by (auto simp: worker_ok_def no_result_def)
  from sys_inv_worker [OF s1 this, of w]
  show "sys_inv (s\<lparr>sys_db := db', sys_workers := (sys_workers s)(w := st)\<rparr>)" by simp
qed

lemma step_execute_inv:
  assumes inv: "sys_inv s" and w: "sys_workers s w = Executing c u task"
    and st: "worker_executes treg now c u task (sys_db s) = (db', st)"
  shows "sys_inv (s\<lparr>sys_db := db', sys_workers := (sys_workers s)(w := st)\<rparr>)"
    and "table_advances (sys_tasks s) (task_executions db')"
proof -
  let ?i = "cl_task_execution_id c"
  have ok: "started (sys_tasks s) ?i"
    using sys_invD(6) [OF inv, of w] by (simp add: w worker_ok_def)
  obtain db2 st2 where r: "worker_executes treg now c u task (sys_db s) = (db2, st2)" "exec_inv db2"
    "execution_step (sys_db s) db2"
    "st2 = Idle \<or> (\<exists>pr. st2 = Settling c u pr
        \<and> (\<forall>i \<in> set (pr_enqueue_task_ids pr). known_released (task_executions db2) i)
        \<and> (\<not> pr_should_retry pr \<longrightarrow> finished (task_executions db2) ?i))"
    by (rule worker_executes_spec [OF sys_invD(1) [OF inv] ok])
  then have same: "db2 = db'" "st2 = st" using st by simp_all
  note r = r [unfolded same]
  show adv: "table_advances (sys_tasks s) (task_executions db')"
    by (rule execution_step_advances [OF r(3)])
  have none: "no_new_running (sys_tasks s) (task_executions db')"
  proof (cases "execute_plugin treg task")
    case (Inl e)
    then show ?thesis using st by (auto simp: worker_executes_def)
  next
    case (Inr res)
    obtain d x where "persist_result ?i now res (sys_db s) = (d, x)" by force
    with persist_no_new_running [OF sys_invD(1) [OF inv] this] Inr st show ?thesis
      by (auto simp: worker_executes_def split: sum.splits)
  qed
  have defs: "definitions_inv db'"
    using definitions_inv_execution_step [OF r(3)] sys_invD(2) [OF inv] by simp
  have s1: "sys_inv (s\<lparr>sys_db := db'\<rparr>)"
    by (rule sys_inv_db [OF inv r(2) defs adv]) (rule running_queued_stays [OF sys_invD(7) [OF inv] none])
  have "worker_ok (s\<lparr>sys_db := db'\<rparr>) st"
    using r(4) by (auto simp: worker_ok_def)
  from sys_inv_worker [OF s1 this, of w]
  show "sys_inv (s\<lparr>sys_db := db', sys_workers := (sys_workers s)(w := st)\<rparr>)" by simp
qed

lemma step_settle_inv:
  assumes inv: "sys_inv s" and w: "sys_workers s w = Settling c u pr"
  shows "sys_inv (s\<lparr>sys_queue := worker_settles now c u pr (sys_queue s),
                    sys_workers := (sys_workers s)(w := Idle)\<rparr>)"
proof -
  let ?i = "cl_task_execution_id c" and ?q = "sys_queue s"
  let ?q' = "worker_settles now c u pr ?q"
  have qi: "queue_inv ?q" by (rule sys_invD(3) [OF inv])
  have ok: "\<And>i. i \<in> set (pr_enqueue_task_ids pr) \<Longrightarrow> known_released (sys_tasks s) i"
    "\<not> pr_should_retry pr \<Longrightarrow> finished (sys_tasks s) ?i"
    using sys_invD(6) [OF inv, of w] by (simp_all add: w worker_ok_def)
  have doms: "dom (queue_leases ?q') \<subseteq> dom (queue_leases ?q) \<union> set (pr_enqueue_task_ids pr)"
    "dom (queue_leases ?q) \<subseteq> dom (queue_leases ?q') \<union> (if pr_should_retry pr then {} else {?i})"
    using qi by (auto simp: worker_settles_def pg.leases_release pg.leases_finish dom_add_missing
        split: if_splits)
  have s1: "sys_inv (s\<lparr>sys_queue := ?q'\<rparr>)"
  proof (rule sys_inv_queue [OF inv])
    show "queue_inv ?q'"
      using qi by (simp add: worker_settles_def pg.inv_release pg.inv_finish)
    show "i \<in> dom (queue_leases ?q') \<or> finished (sys_tasks s) i" if "queued s i" for i
      using that doms(2) ok(2) by (auto simp: queued_def split: if_splits)
    show "known_released (sys_tasks s) i" if "i \<in> dom (queue_leases ?q')" for i
      using that doms(1) ok(1) sys_invD(4) [OF inv, of i] unfolding queued_def by blast
  qed
  have "worker_ok (s\<lparr>sys_queue := ?q'\<rparr>) Idle" by (simp add: worker_ok_def)
  from sys_inv_worker [OF s1 this, of w] show ?thesis by simp
qed

lemma step_claim_inv:
  assumes inv: "sys_inv s" and cl: "claim lease locked w token now (sys_queue s) = (q', c)"
  shows "sys_inv (s\<lparr>sys_queue := q', sys_workers := (sys_workers s)(w := worker_claims c)\<rparr>)"
proof -
  have qi: "queue_inv (sys_queue s)" by (rule sys_invD(3) [OF inv])
  have qi': "queue_inv q'" using pg.inv_claim [OF qi, of lease locked w token now] cl by simp
  have doms: "dom (queue_leases q') = dom (queue_leases (sys_queue s))"
  proof (cases c)
    case None
    with cl have "q' = sys_queue s" by (intro pg.claim_None [OF qi]) simp
    then show ?thesis by simp
  next
    case (Some d)
    with cl have "cl_task_execution_id d \<in> dom (queue_leases (sys_queue s))
        \<and> cl_claim_token d = token
        \<and> queue_leases q' = (queue_leases (sys_queue s))(cl_task_execution_id d \<mapsto> Some token)"
      by (intro pg.claim_Some [OF qi]) simp
    then show ?thesis by (simp add: insert_absorb)
  qed
  have c: "cl_task_execution_id d \<in> dom (queue_leases (sys_queue s))" if "c = Some d" for d
    using pg.claim_Some [OF qi cl [unfolded that]] by (rule conjunct1)
  have s1: "sys_inv (s\<lparr>sys_queue := q'\<rparr>)"
    by (rule sys_inv_queue [OF inv qi']; unfold doms)
      (simp_all add: queued_def [symmetric] sys_invD(4) [OF inv])
  have "worker_ok (s\<lparr>sys_queue := q'\<rparr>) (worker_claims c)"
  proof (cases c)
    case None
    then show ?thesis by (simp add: worker_claims_def worker_ok_def)
  next
    case (Some d)
    then have "queued s (cl_task_execution_id d)" using c by (simp add: queued_def)
    then show ?thesis
      using Some doms sys_invD(4) [OF inv] by (simp add: worker_claims_def worker_ok_def queued_def)
  qed
  from sys_inv_worker [OF s1 this, of w] show ?thesis by simp
qed

lemma worker_heartbeats_ok: "worker_ok s st \<Longrightarrow> worker_ok s (worker_heartbeats b st)"
  by (cases st) (simp_all add: worker_heartbeats_def worker_ok_def Let_def)

lemma step_heartbeat_inv:
  assumes inv: "sys_inv s" and hb: "heartbeat c now (sys_queue s) = (q', owned)"
  shows "sys_inv (s\<lparr>sys_queue := q',
      sys_workers := (sys_workers s)(w := worker_heartbeats b (sys_workers s w))\<rparr>)"
proof -
  have qi: "queue_inv (sys_queue s)" by (rule sys_invD(3) [OF inv])
  have q': "queue_inv q'" "queue_leases q' = queue_leases (sys_queue s)"
    using pg.inv_heartbeat [OF qi, of c now] pg.heartbeat_leases [OF qi, of c now] hb by simp_all
  have s1: "sys_inv (s\<lparr>sys_queue := q'\<rparr>)"
    by (rule sys_inv_queue [OF inv q'(1)]) (use q'(2) sys_invD(4) [OF inv] in \<open>simp_all add: queued_def\<close>)
  have "worker_ok (s\<lparr>sys_queue := q'\<rparr>) (worker_heartbeats b (sys_workers s w))"
    using worker_heartbeats_ok [OF sys_invD(6) [OF s1, of w]] by simp
  from sys_inv_worker [OF s1 this, of w] show ?thesis by simp
qed

lemma step_publish_inv:
  assumes inv: "sys_inv s" and ids: "ids \<in> set (sys_outbox s)"
  shows "sys_inv (s\<lparr>sys_queue := enqueue ids now (sys_queue s), sys_outbox := remove1 ids (sys_outbox s)\<rparr>)"
proof -
  have qi: "queue_inv (sys_queue s)" by (rule sys_invD(3) [OF inv])
  have s1: "sys_inv (s\<lparr>sys_queue := enqueue ids now (sys_queue s)\<rparr>)"
    by (rule sys_inv_queue [OF inv pg.inv_enqueue [OF qi]])
      (use sys_invD(4,5) [OF inv] ids in \<open>auto simp: queued_def pg.leases_enqueue [OF qi] dom_add_missing\<close>)
  have "sys_inv ((s\<lparr>sys_queue := enqueue ids now (sys_queue s)\<rparr>)\<lparr>sys_outbox := remove1 ids (sys_outbox s)\<rparr>)"
  proof (rule sys_inv_outbox [OF s1])
    fix js j assume "js \<in> set (remove1 ids (sys_outbox s))" "j \<in> set js"
    then show "known_released (sys_tasks (s\<lparr>sys_queue := enqueue ids now (sys_queue s)\<rparr>)) j"
      using sys_invD(5) [OF inv] set_remove1_subset [of ids "sys_outbox s"] by auto
  qed
  then show ?thesis by simp
qed

lemma step_lose_inv:
  assumes inv: "sys_inv s"
  shows "sys_inv (s\<lparr>sys_outbox := remove1 ids (sys_outbox s)\<rparr>)"
  by (rule sys_inv_outbox [OF inv])
    (use sys_invD(5) [OF inv] set_remove1_subset [of ids "sys_outbox s"] in blast)

lemma step_read_inv:
  assumes inv: "sys_inv s"
  shows "sys_inv (s\<lparr>sys_outbox := runnable_ids (sys_db s) # sys_outbox s\<rparr>)"
proof (rule sys_inv_outbox [OF inv])
  fix ids i assume i: "ids \<in> set (runnable_ids (sys_db s) # sys_outbox s)" "i \<in> set ids"
  show "known_released (sys_tasks s) i"
  proof (cases "ids = runnable_ids (sys_db s)")
    case True
    then show ?thesis using i(2) by (auto simp: runnable_ids_eq known_released_def)
  next
    case False
    then have "ids \<in> set (sys_outbox s)" using i(1) by simp
    then show ?thesis using i(2) by (rule sys_invD(5) [OF inv])
  qed
qed

lemma sys_inv_step:
  assumes step: "sys_step treg greg lease s s'" and inv: "sys_inv s"
  shows "sys_inv s'"
  using step
proof (cases rule: sys_step.cases)
  case (step_create fresh clock request db' wid)
  show ?thesis unfolding step_create(1) by (rule step_create_inv [OF inv step_create(2-4)])
next
  case (step_delete wid db')
  show ?thesis unfolding step_delete(1) by (rule step_delete_inv [OF inv step_delete(2)])
next
  case (step_start fresh now at wid db' q' i)
  show ?thesis unfolding step_start(1) by (rule step_start_inv [OF inv step_start(3,2)])
next
  case (step_schedule locked fresh now created at db' q' b)
  show ?thesis unfolding step_schedule(1) by (rule step_schedule_inv [OF inv step_schedule(2,3)])
next
  case step_read_runnable
  show ?thesis unfolding step_read_runnable by (rule step_read_inv [OF inv])
next
  case (step_publish ids now)
  show ?thesis unfolding step_publish(1) by (rule step_publish_inv [OF inv step_publish(2)])
next
  case (step_lose ids)
  show ?thesis unfolding step_lose(1) by (rule step_lose_inv [OF inv])
next
  case (step_claim w locked token now q' c)
  show ?thesis unfolding step_claim(1) by (rule step_claim_inv [OF inv step_claim(3)])
next
  case (step_heartbeat w c now q' owned)
  show ?thesis unfolding step_heartbeat(1) by (rule step_heartbeat_inv [OF inv step_heartbeat(3)])
next
  case (step_heartbeat_fails w)
  show ?thesis
    unfolding step_heartbeat_fails
    by (rule sys_inv_worker [OF inv worker_heartbeats_ok [OF sys_invD(6) [OF inv]]])
next
  case (step_begin w c u now db' st)
  show ?thesis unfolding step_begin(1) by (rule step_begin_inv(1) [OF inv step_begin(2,3)])
next
  case (step_execute w c u task now db' st)
  show ?thesis unfolding step_execute(1) by (rule step_execute_inv(1) [OF inv step_execute(2,3)])
next
  case (step_settle w c u pr now)
  show ?thesis unfolding step_settle(1) by (rule step_settle_inv [OF inv step_settle(2)])
next
  case (step_stop w)
  show ?thesis unfolding step_stop by (rule sys_inv_worker [OF inv]) (simp add: worker_ok_def)
qed

lemma sys_inv_reachable: "reachable treg greg lease s \<Longrightarrow> sys_inv s"
  unfolding reachable_def
  by (induction rule: rtranclp_induct) (auto intro: sys_inv_initial sys_inv_step)

end
