(* ===== verification/Progress.thy ===== *)
theory Progress
  imports System
begin

text \<open>
  What the runs of the platform preserve and where they can go: rows of tasks only advance, a
  finished task is never touched again, a worker holds the inputs its task declares, a running
  workflow always has a task that can run, and from every reachable state it can still be driven
  to a terminal status.
\<close>

section \<open>Tables advance\<close>

lemma step_advances:
  assumes inv: "sys_inv s" and step: "sys_step treg greg lease s s'"
  shows "table_advances (sys_tasks s) (sys_tasks s')"
  using step
proof (cases rule: sys_step.cases)
  case (step_create fresh clock request db' wid)
  obtain wd rows where "db' = with_schedule rows (with_definition wd (sys_db s))"
    by (rule create_definition_ok [OF sys_invD(2) [OF inv] step_create(3,4,2)]) blast
  then show ?thesis unfolding step_create(1) by simp
next
  case (step_delete wid db')
  have "task_executions db' = sys_tasks s"
    using delete_cases [OF step_delete(2)] by (auto simp: without_definition_def)
  then show ?thesis unfolding step_delete(1) by simp
next
  case (step_start fresh now at wid db' q' i)
  show ?thesis
    by (rule start_workflow_cases [OF sys_invD(2) [OF inv] step_start(3,2)])
      (simp add: step_start(1) with_execution_def table_advances_append)
next
  case (step_schedule locked fresh now created at db' q' b)
  show ?thesis
    by (rule process_due_cases [OF sys_invD(2) [OF inv] step_schedule(3,2)])
      (simp_all add: step_schedule(1) with_execution_def table_advances_append)
next
  case (step_begin w c u now db' st)
  show ?thesis unfolding step_begin(1) using step_begin_inv(2) [OF inv step_begin(2,3)] by simp
next
  case (step_execute w c u task now db' st)
  show ?thesis unfolding step_execute(1) using step_execute_inv(2) [OF inv step_execute(2,3)] by simp
qed simp_all

lemma run_advances:
  assumes run: "(sys_step treg greg lease)\<^sup>*\<^sup>* s s'" and inv: "sys_inv s"
  shows "table_advances (sys_tasks s) (sys_tasks s') \<and> sys_inv s'"
  using run
proof (induction rule: rtranclp_induct)
  case base
  show ?case using inv by simp
next
  case (step y z)
  then show ?case using step_advances sys_inv_step table_advances_trans by blast
qed

lemma finished_row_stays:
  "table_advances ts us \<Longrightarrow> t \<in> set ts \<Longrightarrow> terminal_task (t_status t) \<Longrightarrow> t \<in> set us"
  unfolding table_advances_def row_advances_def by metis

lemma row_keeps_shape:
  "table_advances ts us \<Longrightarrow> t \<in> set ts \<Longrightarrow> \<exists>u \<in> set us. task_shape u = task_shape t"
  unfolding table_advances_def row_advances_def by metis

section \<open>A running workflow is never stuck\<close>

lemma open_task_below:
  assumes graph: "graph_ok ts" and prog: "progress_ok ts"
    and rank: "\<And>t p. t \<in> set ts \<Longrightarrow> p \<in> set (t_parent_task_ids t) \<Longrightarrow> rank p < (rank (t_id t) :: nat)"
    and wf: "\<forall>t \<in> set (tasks_of ts wid). t_status t \<noteq> Failed \<and> t_status t \<noteq> Cancelled"
    and t: "t \<in> set (tasks_of ts wid)" "t_status t \<noteq> Completed"
  shows "\<exists>u \<in> set (tasks_of ts wid). startable ts u"
  using t
proof (induction "rank (t_id t)" arbitrary: t rule: less_induct)
  case less
  have in_ts: "t \<in> set ts" "t_workflow_execution_id t = wid" using less.prems(1) by (auto simp: tasks_of_def)
  show ?case
  proof (cases "startable ts t")
    case True
    then show ?thesis using less.prems(1) by blast
  next
    case False
    have "t_status t = Pending"
      using False less.prems wf by (cases "t_status t") (auto simp: startable_def)
    then obtain p where p: "p \<in> set (t_parent_task_ids t)" "\<not> completed ts p"
      using False by (auto simp: startable_def ready_def)
    obtain u where u: "u \<in> set ts" "t_id u = p" "t_workflow_execution_id u = wid"
      using graph in_ts p(1) unfolding graph_ok_def mirrored_def by metis
    have "t_status u \<noteq> Completed" using p(2) u(1,2) by (auto simp: completed_def)
    moreover have "u \<in> set (tasks_of ts wid)" using u(1,3) by (simp add: tasks_of_def)
    moreover have "rank (t_id u) < rank (t_id t)" using rank [OF in_ts(1) p(1)] u(2) by simp
    ultimately show ?thesis using less.hyps by blast
  qed
qed

lemma running_workflow_startable:
  assumes inv: "exec_inv db" and w: "w \<in> set (workflow_executions db)" "w_status w = WfRunning"
  shows "\<exists>t \<in> set (tasks_of (task_executions db) (w_id w)). startable (task_executions db) t"
proof -
  let ?ts = "task_executions db"
  note parts = exec_invD [OF inv]
  obtain rank :: "uuid \<Rightarrow> nat" where
    rank: "\<And>t p. t \<in> set ?ts \<Longrightarrow> p \<in> set (t_parent_task_ids t) \<Longrightarrow> rank p < rank (t_id t)"
    using parts(1) unfolding graph_ok_def acyclic_graph_def by blast
  have "workflow_ok ?ts w" using parts(3) w(1) by (simp add: workflows_ok_def)
  then obtain t where wf: "\<forall>t \<in> set (tasks_of ?ts (w_id w)). t_status t \<noteq> Failed \<and> t_status t \<noteq> Cancelled"
    and t: "t \<in> set (tasks_of ?ts (w_id w))" "t_status t \<noteq> Completed"
    using w(2) by (auto simp: workflow_ok_def)
  show ?thesis by (rule open_task_below [where rank = rank, OF parts(1,2) rank wf t])
qed

section \<open>Inputs of a running task\<close>

text \<open>
  What a worker between its two transactions holds: the plugin and configuration of its task, and
  one entry per parent, under the parent's key, with the output the parent has stored.
\<close>

definition inputs_ok :: "task_row list \<Rightarrow> queue_claim \<Rightarrow> start_result \<Rightarrow> bool" where
  "inputs_ok ts c task \<longleftrightarrow>
     (\<exists>t \<in> set ts. t_id t = cl_task_execution_id c
        \<and> sres_plugin_type task = t_plugin_type t \<and> sres_configuration task = t_configuration t
        \<and> (\<forall>p \<in> set (t_parent_task_ids t). \<exists>u \<in> set ts. t_id u = p \<and> t_status u = Completed
              \<and> map_of (sres_parent_outputs task) (t_key u) = Some \<lparr>output_values = the (t_output u)\<rparr>)
        \<and> length (sres_parent_outputs task) = length (t_parent_task_ids t))"

definition workers_inputs_ok :: "system \<Rightarrow> bool" where
  "workers_inputs_ok s \<longleftrightarrow>
     (\<forall>w c u task. sys_workers s w = Executing c u task \<longrightarrow> inputs_ok (sys_tasks s) c task)"

lemma inputs_ok_advances:
  assumes adv: "table_advances ts us" and ok: "inputs_ok ts c task"
  shows "inputs_ok us c task"
proof -
  from ok obtain t where t: "t \<in> set ts" "t_id t = cl_task_execution_id c"
    "sres_plugin_type task = t_plugin_type t" "sres_configuration task = t_configuration t"
    "length (sres_parent_outputs task) = length (t_parent_task_ids t)"
    and parents: "\<And>p. p \<in> set (t_parent_task_ids t) \<Longrightarrow> \<exists>u \<in> set ts. t_id u = p \<and> t_status u = Completed
        \<and> map_of (sres_parent_outputs task) (t_key u) = Some \<lparr>output_values = the (t_output u)\<rparr>"
    unfolding inputs_ok_def by blast
  obtain t' where t': "t' \<in> set us" "task_shape t' = task_shape t"
    using row_keeps_shape [OF adv t(1)] by blast
  have "\<exists>u \<in> set us. t_id u = p \<and> t_status u = Completed
        \<and> map_of (sres_parent_outputs task) (t_key u) = Some \<lparr>output_values = the (t_output u)\<rparr>"
    if "p \<in> set (t_parent_task_ids t)" for p
    using parents [OF that] finished_row_stays [OF adv] by (metis terminal_task_simps(3))
  then show ?thesis
    unfolding inputs_ok_def using t t'(1) shape_eqD [OF t'(2)] by (intro bexI [of _ t']) simp_all
qed

lemma service_start_Some:
  assumes inv: "exec_inv db" and rel: "known_released (task_executions db) tid"
    and start: "service_start_task tid now db = (db', Inr (Some task))"
  obtains t where "t \<in> set (task_executions db)" "t_id t = tid" "startable (task_executions db) t"
proof -
  let ?ts = "task_executions db"
  obtain t where t: "t \<in> set ?ts" "t_id t = tid" "t_status t = Pending \<Longrightarrow> t_remaining_dependencies t = 0"
    using rel by (auto simp: known_released_def)
  have only: "u = t" if "u \<in> set ?ts" "t_id u = tid" for u
    using same_id_same_row [OF exec_invD(4) [OF inv] that(1) t(1)] that(2) t(2) by simp
  have "\<not> terminal_task (t_status t)"
  proof
    assume ended: "terminal_task (t_status t)"
    have "service_start_task tid now db = (db, Inr None)"
      by (rule service_start_finished [OF inv]) (use only ended in blast)
    then show False using start by simp
  qed
  then have "startable ?ts t"
    using t(3) counter_zero_iff_ready [OF exec_invD(2) [OF inv] t(1)] not_terminal_task_iff
    by (auto simp: startable_def)
  then show thesis by (rule that [OF t(1,2)])
qed

lemma startable_ready: "progress_ok ts \<Longrightarrow> t \<in> set ts \<Longrightarrow> startable ts t \<Longrightarrow> ready ts t"
  by (auto simp: startable_def progress_ok_def row_ok_def split: task_status.splits)

lemma parent_rows_count:
  assumes graph: "graph_ok ts" and t: "t \<in> set ts"
  shows "length (parent_rows ts t) = length (t_parent_task_ids t)"
proof -
  have d: "distinct (map t_id (parent_rows ts t))"
    using graph unfolding graph_ok_def parent_rows_def select_where_def
    by (simp add: distinct_map_filter)
  have "set (map t_id (parent_rows ts t)) = set (t_parent_task_ids t)"
  proof
    show "set (t_parent_task_ids t) \<subseteq> set (map t_id (parent_rows ts t))"
    proof
      fix p assume p: "p \<in> set (t_parent_task_ids t)"
      then obtain u where "u \<in> set ts" "t_id u = p"
        using graph t unfolding graph_ok_def mirrored_def by blast
      then show "p \<in> set (map t_id (parent_rows ts t))" using p by (auto simp: parent_rows_def)
    qed
  qed (auto simp: parent_rows_def)
  moreover have "distinct (t_parent_task_ids t)" using graph t by (simp add: graph_ok_def mirrored_def)
  ultimately have "length (map t_id (parent_rows ts t)) = length (t_parent_task_ids t)"
    using d by (metis distinct_card)
  then show ?thesis by simp
qed

lemma inputs_ok_start:
  assumes inv: "exec_inv db" and t: "t \<in> set (task_executions db)" "startable (task_executions db) t"
    and id: "t_id t = cl_task_execution_id c"
  shows "inputs_ok (task_executions db) c
     \<lparr>sres_plugin_type = t_plugin_type t, sres_configuration = t_configuration t,
      sres_parent_outputs = map (\<lambda>p. (t_key p, \<lparr>output_values = the (t_output p)\<rparr>))
        (parent_rows (task_executions db) t)\<rparr>"
proof -
  let ?ts = "task_executions db" and ?ps = "parent_rows (task_executions db) t"
  note parts = exec_invD [OF inv]
  have ready_t: "ready ?ts t" by (rule startable_ready [OF parts(2) t])
  have parent: "\<exists>u \<in> set ?ts. t_id u = p \<and> t_status u = Completed
      \<and> map_of (map (\<lambda>p. (t_key p, \<lparr>output_values = the (t_output p)\<rparr>)) ?ps) (t_key u) =
          Some \<lparr>output_values = the (t_output u)\<rparr>"
    if p: "p \<in> set (t_parent_task_ids t)" for p
  proof -
    obtain u where u: "u \<in> set ?ts" "t_id u = p" "t_status u = Completed"
      using ready_t p by (auto simp: ready_def completed_def)
    have "u \<in> set ?ps" using u p by (simp add: parent_rows_def)
    then have "(t_key u, \<lparr>output_values = the (t_output u)\<rparr>)
        \<in> set (map (\<lambda>p. (t_key p, \<lparr>output_values = the (t_output p)\<rparr>)) ?ps)" by auto
    moreover have "distinct (map fst (map (\<lambda>p. (t_key p, \<lparr>output_values = the (t_output p)\<rparr>)) ?ps))"
      using distinct_parent_keys [OF parts(1) t(1)] by (simp add: comp_def)
    ultimately have "map_of (map (\<lambda>p. (t_key p, \<lparr>output_values = the (t_output p)\<rparr>)) ?ps) (t_key u) =
        Some \<lparr>output_values = the (t_output u)\<rparr>" by (rule map_of_is_SomeI [rotated])
    then show ?thesis using u by blast
  qed
  show ?thesis
    unfolding inputs_ok_def using t(1) id parent parent_rows_count [OF parts(1) t(1)]
    by (intro bexI [of _ t]) simp_all
qed

lemma workers_inputs_other:
  assumes ok: "workers_inputs_ok s" and adv: "table_advances (sys_tasks s) (sys_tasks s')"
    and same: "\<And>v c u task. sys_workers s' v = Executing c u task \<Longrightarrow>
       (\<exists>u'. sys_workers s v = Executing c u' task) \<or> inputs_ok (sys_tasks s') c task"
  shows "workers_inputs_ok s'"
  unfolding workers_inputs_ok_def
proof (intro allI impI)
  fix v c u task assume "sys_workers s' v = Executing c u task"
  from same [OF this] show "inputs_ok (sys_tasks s') c task"
    using ok inputs_ok_advances [OF adv] unfolding workers_inputs_ok_def by blast
qed

lemma worker_heartbeats_executing:
  "worker_heartbeats b st = Executing c u task \<Longrightarrow> \<exists>u'. st = Executing c u' task"
  by (cases st) (simp_all add: worker_heartbeats_def Let_def)

lemma workers_inputs_step:
  assumes inv: "sys_inv s" and ok: "workers_inputs_ok s" and step: "sys_step treg greg lease s s'"
  shows "workers_inputs_ok s'"
proof (rule workers_inputs_other [OF ok step_advances [OF inv step]])
  fix v d b task assume ex: "sys_workers s' v = Executing d b task"
  from step show "(\<exists>u'. sys_workers s v = Executing d u' task) \<or> inputs_ok (sys_tasks s') d task"
  proof (cases rule: sys_step.cases)
    case (step_claim w locked token now q' c)
    then show ?thesis using ex by (auto simp: worker_claims_def split: if_splits option.splits)
  next
    case (step_heartbeat w c now q' owned)
    then show ?thesis using ex by (auto dest: worker_heartbeats_executing split: if_splits)
  next
    case (step_heartbeat_fails w)
    then show ?thesis using ex by (auto dest: worker_heartbeats_executing split: if_splits)
  next
    case (step_begin w c u now db' st)
    show ?thesis
    proof (cases "v = w")
      case False
      then show ?thesis using ex step_begin(1) by auto
    next
      case True
      then have st: "st = Executing d b task" using ex step_begin(1) by simp
      let ?i = "cl_task_execution_id c"
      have start: "service_start_task ?i now (sys_db s) = (db', Inr (Some task))" and c: "d = c"
        using step_begin(3) st by (auto simp: worker_starts_def split: prod.splits sum.splits option.splits)
      have rel: "known_released (sys_tasks s) ?i"
        using sys_invD(6) [OF inv, of w] step_begin(2) by (simp add: worker_ok_def)
      obtain t where t: "t \<in> set (sys_tasks s)" "t_id t = ?i" "startable (sys_tasks s) t"
        by (rule service_start_Some [OF sys_invD(1) [OF inv] rel start])
      have "inputs_ok (sys_tasks s) c task"
        using inputs_ok_start [OF sys_invD(1) [OF inv] t(1,3,2)] start
          service_start_ok [OF sys_invD(1) [OF inv] t(1,3), of now] t(2) by simp
      then have "inputs_ok (sys_tasks s') c task"
        by (rule inputs_ok_advances [OF step_advances [OF inv step]])
      then show ?thesis using c by simp
    qed
  next
    case (step_execute w c u task' now db' st)
    then show ?thesis
      using ex by (auto simp: worker_executes_def split: if_splits prod.splits sum.splits)
  qed (use ex in \<open>auto split: if_splits\<close>)
qed

lemma reachable_inputs: "reachable treg greg lease s \<Longrightarrow> workers_inputs_ok s \<and> sys_inv s"
  unfolding reachable_def
proof (induction rule: rtranclp_induct)
  case base
  show ?case using sys_inv_initial by (simp add: workers_inputs_ok_def initial_system_def)
next
  case (step y z)
  then show ?case using workers_inputs_step sys_inv_step by blast
qed

section \<open>Claims of different workers\<close>

text \<open>Finitely many workers are busy, and no two of them hold the same claim.\<close>

definition claims_ok :: "(uuid \<Rightarrow> worker_state) \<Rightarrow> bool" where
  "claims_ok ws \<longleftrightarrow>
     finite {w. ws w \<noteq> Idle}
     \<and> (\<forall>w v c. worker_claim (ws w) = Some c \<longrightarrow> worker_claim (ws v) = Some c \<longrightarrow> w = v)"

lemma claims_ok_upd:
  assumes ok: "claims_ok ws"
    and st: "\<And>c. worker_claim st = Some c \<Longrightarrow> worker_claim (ws w) = Some c \<or> (\<forall>v. worker_claim (ws v) \<noteq> Some c)"
  shows "claims_ok (ws(w := st))"
proof -
  have "{v. (ws(w := st)) v \<noteq> Idle} \<subseteq> insert w {v. ws v \<noteq> Idle}" by auto
  then have "finite {v. (ws(w := st)) v \<noteq> Idle}"
    by (rule finite_subset) (use ok in \<open>simp add: claims_ok_def\<close>)
  moreover have "u = v" if "worker_claim ((ws(w := st)) u) = Some c" "worker_claim ((ws(w := st)) v) = Some c" for u v c
    using that ok st [of c] unfolding claims_ok_def by (auto split: if_splits)
  ultimately show ?thesis unfolding claims_ok_def by blast
qed

lemma worker_claim_heartbeats [simp]: "worker_claim (worker_heartbeats b st) = worker_claim st"
  by (cases st) (simp_all add: worker_heartbeats_def Let_def)

lemma claims_ok_idle: "claims_ok ws \<Longrightarrow> claims_ok (ws(w := Idle))"
  by (rule claims_ok_upd) simp_all

lemma claims_ok_step:
  assumes inv: "sys_inv s" and ok: "claims_ok (sys_workers s)" and step: "sys_step treg greg lease s s'"
  shows "claims_ok (sys_workers s')"
  using step
proof (cases rule: sys_step.cases)
  case (step_claim w locked token now q' c)
  have "worker_claim (sys_workers s v) \<noteq> Some d" if "worker_claim (worker_claims c) = Some d" for d v
  proof -
    have "claim lease locked w token now (sys_queue s) = (q', Some d)"
      using that step_claim(3) by (cases c) (simp_all add: worker_claims_def)
    then have "cl_claim_token d = token" using pg.claim_Some [OF sys_invD(3) [OF inv]] by blast
    then show ?thesis using step_claim(4) unfolding tokens_in_use_def by auto
  qed
  then show ?thesis unfolding step_claim(1) by (simp add: claims_ok_upd [OF ok])
next
  case (step_begin w c u now db' st)
  have "worker_claim st = Some d \<Longrightarrow> d = c" for d
    using step_begin(3) by (auto simp: worker_starts_def split: prod.splits sum.splits option.splits)
  then show ?thesis unfolding step_begin(1) using step_begin(2) by (simp add: claims_ok_upd [OF ok])
next
  case (step_execute w c u task now db' st)
  have "worker_claim st = Some d \<Longrightarrow> d = c" for d
    using step_execute(3) by (auto simp: worker_executes_def split: prod.splits sum.splits)
  then show ?thesis unfolding step_execute(1) using step_execute(2) by (simp add: claims_ok_upd [OF ok])
next
  case (step_heartbeat w c now q' owned)
  have "claims_ok ((sys_workers s)(w := worker_heartbeats (Some owned) (sys_workers s w)))"
    by (rule claims_ok_upd [OF ok]) simp
  then show ?thesis unfolding step_heartbeat(1) by simp
next
  case (step_heartbeat_fails w)
  have "claims_ok ((sys_workers s)(w := worker_heartbeats None (sys_workers s w)))"
    by (rule claims_ok_upd [OF ok]) simp
  then show ?thesis unfolding step_heartbeat_fails by simp
next
  case (step_settle w c u pr now)
  show ?thesis unfolding step_settle(1) by (simp add: claims_ok_idle [OF ok])
next
  case (step_stop w)
  show ?thesis unfolding step_stop by (simp add: claims_ok_idle [OF ok])
qed (use ok in simp_all)

lemma reachable_claims: "reachable treg greg lease s \<Longrightarrow> claims_ok (sys_workers s) \<and> sys_inv s"
  unfolding reachable_def
proof (induction rule: rtranclp_induct)
  case base
  show ?case using sys_inv_initial by (simp add: claims_ok_def initial_system_def)
next
  case (step y z)
  then show ?case using claims_ok_step sys_inv_step by blast
qed

lemma run_claims:
  "(sys_step treg greg lease)\<^sup>*\<^sup>* s s' \<Longrightarrow> sys_inv s \<Longrightarrow> claims_ok (sys_workers s) \<Longrightarrow>
   claims_ok (sys_workers s') \<and> sys_inv s'"
  by (induction rule: rtranclp_induct) (use claims_ok_step sys_inv_step in blast)+

lemma infinite_uuids: "\<not> finite (UNIV :: uuid set)"
proof -
  have "inj Uuid" by (simp add: inj_def)
  then have "infinite (range Uuid)" by (simp add: finite_image_iff)
  then show ?thesis by (rule infinite_super [OF subset_UNIV])
qed

lemma fresh_token:
  assumes ok: "claims_ok (sys_workers s)"
  shows "\<exists>token. token \<notin> tokens_in_use s"
proof -
  let ?busy = "{w. sys_workers s w \<noteq> Idle}"
  let ?worker_token = "\<lambda>w. cl_claim_token (the (worker_claim (sys_workers s w)))"
  let ?entry_token = "\<lambda>e. the (qe_claim_token e)"
  have "tokens_in_use s \<subseteq> ?worker_token ` ?busy \<union> ?entry_token ` set (sys_queue s)"
  proof
    fix x assume "x \<in> tokens_in_use s"
    then consider (worker) c w where "x = cl_claim_token c" "worker_claim (sys_workers s w) = Some c"
      | (entry) e where "e \<in> set (sys_queue s)" "qe_claim_token e = Some x"
      unfolding tokens_in_use_def by blast
    then show "x \<in> ?worker_token ` ?busy \<union> ?entry_token ` set (sys_queue s)"
    proof cases
      case worker
      then have "w \<in> ?busy" "x = ?worker_token w" by auto
      then show ?thesis by blast
    next
      case entry
      then have "x = ?entry_token e" by simp
      then show ?thesis using entry(1) by blast
    qed
  qed
  moreover have "finite (?worker_token ` ?busy \<union> ?entry_token ` set (sys_queue s))"
    using ok by (simp add: claims_ok_def)
  ultimately have "finite (tokens_in_use s)" by (rule finite_subset)
  then have "tokens_in_use s \<noteq> UNIV" using infinite_uuids by metis
  then show ?thesis by blast
qed

text \<open>The live lease of a task has one holder.\<close>

lemma one_live_holder:
  assumes ok: "claims_ok (sys_workers s)" and qi: "queue_inv (sys_queue s)"
    and w: "worker_claim (sys_workers s w) = Some c" "pg.owns (sys_queue s) c"
    and v: "worker_claim (sys_workers s v) = Some d" "pg.owns (sys_queue s) d"
    and same: "cl_task_execution_id c = cl_task_execution_id d"
  shows "w = v"
proof -
  have "c = d" by (rule pg.one_owner [OF w(2) v(2) same])
  then show ?thesis using ok w(1) v(1) unfolding claims_ok_def by blast
qed

end
