(* ===== verification/Completion.thy ===== *)
theory Completion
  imports Progress
begin

text \<open>
  From every reachable state, a running workflow can be driven to a terminal status: some task of
  it can run, its queue entry can be (re)published and claimed, and each execution either finishes
  a task or uses up one of its tries. The measure is the number of tries left in open tasks.
\<close>

section \<open>The work left\<close>

definition task_work :: "task_row \<Rightarrow> nat" where
  "task_work t = (if terminal_task (t_status t) then 0 else nat (t_remaining_tries t))"

definition open_work :: "task_row list \<Rightarrow> uuid \<Rightarrow> nat" where
  "open_work ts wid = sum_list (map task_work (tasks_of ts wid))"

definition less_work :: "(task_row \<Rightarrow> task_row) \<Rightarrow> bool" where
  "less_work f \<longleftrightarrow> (\<forall>t. task_shape (f t) = task_shape t \<and> task_work (f t) \<le> task_work t)"

lemma less_work_rows:
  "less_work (start_row tid now)" "less_work (complete_row creq)" "less_work (release_row cs)"
  "less_work (retry_row rreq)" "less_work (cancel_row wid at)"
  by (auto simp: less_work_def row_shape)
    (auto simp: task_work_def start_row_def complete_row_def release_row_def retry_row_def cancel_row_def)

lemma less_work_comp: "less_work f \<Longrightarrow> less_work g \<Longrightarrow> less_work (\<lambda>t. g (f t))"
  unfolding less_work_def by (metis le_trans)

lemma tasks_of_map_list:
  assumes "less_work f"
  shows "tasks_of (map f ts) wid = map f (tasks_of ts wid)"
proof -
  have "t_workflow_execution_id (f t) = t_workflow_execution_id t" for t
    using assms shape_eqD(2) unfolding less_work_def by blast
  then show ?thesis by (simp add: tasks_of_def filter_map comp_def)
qed

lemma open_work_map:
  assumes f: "less_work f"
  shows "open_work (map f ts) wid \<le> open_work ts wid"
  using f unfolding open_work_def tasks_of_map_list [OF f] less_work_def
  by (simp add: sum_list_mono comp_def)

lemma open_work_map_less:
  assumes f: "less_work f" and r: "r \<in> set (tasks_of ts wid)" "task_work (f r) < task_work r"
  shows "open_work (map f ts) wid < open_work ts wid"
proof -
  obtain xs ys where split: "tasks_of ts wid = xs @ r # ys" using r(1) by (meson split_list)
  have "sum_list (map (task_work \<circ> f) zs) \<le> sum_list (map task_work zs)" for zs
    using f by (simp add: less_work_def sum_list_mono)
  from this [of xs] this [of ys] show ?thesis
    using r(2) unfolding open_work_def tasks_of_map_list [OF f] split by simp
qed

lemma shapes_map: "less_work f \<Longrightarrow> task_shape ` set (map f ts) = task_shape ` set ts"
  by (simp add: less_work_def image_image)

section \<open>One execution of a task\<close>

text \<open>What an execution of a running task does to its table: a row function that leaves less work.\<close>

lemma persist_less_work:
  assumes inv: "exec_inv db" and r: "r \<in> set (task_executions db)" "t_id r = tid" "t_status r = Running"
    and p: "persist_result tid now res db = (db', x)"
  obtains f where "task_executions db' = map f (task_executions db)" "less_work f" "task_work (f r) < task_work r"
proof -
  note parts = exec_invD [OF inv]
  have tries: "t_remaining_tries r > 0" using parts(2) r by (auto simp: progress_ok_def row_ok_def)
  have work: "task_work r = nat (t_remaining_tries r)" using r(3) by (simp add: task_work_def)
  show thesis
  proof (cases "result_succeeded res")
    case True
    let ?request = "\<lparr>creq_task_execution_id = tid, creq_output = result_output res, creq_completed_at = now\<rparr>"
    have children: "distinct (t_child_task_ids r)" using parts(1) r(1) by (simp add: graph_ok_def mirrored_def)
    have "task_executions db' = map (release_row (t_child_task_ids r)) (map (complete_row ?request) (task_executions db))"
    proof -
      have "db' = fst (complete_task ?request db)"
        using p True by (auto simp: persist_result_def service_complete_eq Let_def)
      then show ?thesis
        using complete_task_active(1) [OF parts(4) r(1) _ r(3) children, of ?request] r(2) by simp
    qed
    moreover have "task_work (complete_row ?request r) < task_work r"
      using r tries by (simp add: task_work_def complete_row_def)
    then have "task_work (release_row (t_child_task_ids r) (complete_row ?request r)) < task_work r"
      using less_work_rows(3) unfolding less_work_def by (metis le_less_trans)
    ultimately show thesis
      by (intro that [of "\<lambda>t. release_row (t_child_task_ids r) (complete_row ?request t)"])
        (simp_all add: less_work_comp less_work_rows)
  next
    case False
    let ?request = "\<lparr>rreq_task_execution_id = tid, rreq_error_message = result_message res, rreq_completed_at = now\<rparr>"
    have retried: "task_work (retry_row ?request r) < task_work r"
      using r tries by (simp add: work, simp add: task_work_def retry_row_def)
    have db': "db' = fst (retry_task ?request db)"
      using p False by (auto simp: persist_result_def service_retry_eq Let_def)
    show thesis
    proof (cases "t_remaining_tries r > 1")
      case True
      have "task_executions db' = map (retry_row ?request) (task_executions db)"
        using db' retry_task_again [OF parts(4) r(1) _ r(3) True, of ?request] r(2) by simp
      then show thesis by (rule that) (rule less_work_rows retried)+
    next
      case False
      with tries have one: "t_remaining_tries r = 1" by simp
      have running: "workflow_running db (t_workflow_execution_id r)"
        by (rule running_task_running_workflow [OF parts(3) r(1,3)])
      let ?c = "cancel_row (t_workflow_execution_id r) (rreq_completed_at ?request)"
      have "task_executions db' = map ?c (map (retry_row ?request) (task_executions db))"
        using db' retry_task_last [OF parts(4,5) r(1) _ r(3) one running, of ?request] r(2) by simp
      moreover have "task_work (?c (retry_row ?request r)) < task_work r"
        using less_work_rows(5) retried unfolding less_work_def by (metis le_less_trans)
      ultimately show thesis
        by (intro that [of "\<lambda>t. ?c (retry_row ?request t)"])
          (simp_all add: less_work_comp less_work_rows)
    qed
  qed
qed

section \<open>Queue entries can be claimed\<close>

lemma claim_unlocked:
  assumes inv: "queue_inv q" and i: "i \<in> dom (queue_leases q)"
  shows "\<exists>now q'. claim lease (\<lambda>j. j \<noteq> i) worker token now q =
           (q', Some \<lparr>cl_task_execution_id = i, cl_claim_token = token\<rparr>)"
proof -
  obtain e where e: "e \<in> set q" "qe_task_execution_id e = i"
    using i by (auto simp: dom_queue_leases)
  let ?now = "lease + (case qe_last_heartbeat e of None \<Rightarrow> 0 | Some hb \<Rightarrow> hb)"
  have claimable: "claimable (?now - lease) e"
    using inv e(1) by (auto simp: queue_inv_def entry_ok_def claimable_def split: option.splits)
  obtain q' r where cl: "claim lease (\<lambda>j. j \<noteq> i) worker token ?now q = (q', r)" by force
  show ?thesis
  proof (cases r)
    case None
    with claim_NoneD [OF cl [unfolded None]] claimable e show ?thesis by blast
  next
    case (Some c)
    have "cl_task_execution_id c = i \<and> cl_claim_token c = token"
      by (rule claim_SomeD [OF cl [unfolded Some]]) simp
    then have "c = \<lparr>cl_task_execution_id = i, cl_claim_token = token\<rparr>" by (cases c) simp
    then show ?thesis using cl Some by blast
  qed
qed

section \<open>Driving a workflow to its end\<close>

text \<open>
  The plugin of each task is registered and returns a result (success or failure) for the
  configuration of the task; a plugin that raises is retried only when its lease expires, and may
  raise forever.
\<close>

definition plugins_return :: "(string \<times> task_plugin) list \<Rightarrow> task_row list \<Rightarrow> bool" where
  "plugins_return treg ts \<longleftrightarrow>
     (\<forall>t \<in> set ts. \<forall>inputs. \<exists>r. execute_plugin treg \<lparr>sres_plugin_type = t_plugin_type t,
        sres_configuration = t_configuration t, sres_parent_outputs = inputs\<rparr> = Inr r)"

lemma plugins_return_shapes:
  assumes "plugins_return treg ts" "task_shape ` set us = task_shape ` set ts"
  shows "plugins_return treg us"
  unfolding plugins_return_def
proof (intro ballI)
  fix u assume "u \<in> set us"
  then have "task_shape u \<in> task_shape ` set ts" unfolding assms(2) [symmetric] by (rule imageI)
  then obtain t where t: "t \<in> set ts" "task_shape u = task_shape t" by (rule imageE) blast
  show "\<forall>inputs. \<exists>r. execute_plugin treg \<lparr>sres_plugin_type = t_plugin_type u,
        sres_configuration = t_configuration u, sres_parent_outputs = inputs\<rparr> = Inr r"
    using assms(1) t(1) shape_eqD(5,6) [OF t(2)] by (simp add: plugins_return_def)
qed

abbreviation sys_run ::
  "(string \<times> task_plugin) list \<Rightarrow> (string \<times> trigger_plugin) list \<Rightarrow> timedelta \<Rightarrow> system \<Rightarrow> system \<Rightarrow> bool" where
  "sys_run treg greg lease \<equiv> (sys_step treg greg lease)\<^sup>*\<^sup>*"

lemma run_step: "sys_run treg greg lease s t \<Longrightarrow> sys_step treg greg lease t u \<Longrightarrow> sys_run treg greg lease s u"
  by (rule rtranclp.rtrancl_into_rtrancl)

lemma run_to_idle:
  obtains s' where "sys_run treg greg lease s s'" "sys_db s' = sys_db s" "sys_queue s' = sys_queue s"
    "sys_workers s' w = Idle"
proof (rule that)
  show "sys_run treg greg lease s (s\<lparr>sys_workers := (sys_workers s)(w := Idle)\<rparr>)"
    by (rule r_into_rtranclp) (rule sys_step.step_stop)
qed simp_all

text \<open>A startable task is queued, or can be published by the reconciler.\<close>

lemma run_to_queued:
  assumes inv: "sys_inv s" and t: "t \<in> set (sys_tasks s)" "startable (sys_tasks s) t"
  obtains s' where "sys_run treg greg lease s s'" "sys_db s' = sys_db s" "sys_workers s' = sys_workers s"
    "queued s' (t_id t)"
proof (cases "t_status t = Running")
  case True
  then have "queued s (t_id t)" using sys_invD(7) [OF inv] t(1) by (simp add: running_queued_def)
  then show thesis by (intro that [of s]) simp_all
next
  case False
  let ?ids = "runnable_ids (sys_db s)"
  let ?s1 = "s\<lparr>sys_outbox := ?ids # sys_outbox s\<rparr>"
  let ?s2 = "?s1\<lparr>sys_queue := enqueue ?ids 0 (sys_queue ?s1), sys_outbox := remove1 ?ids (sys_outbox ?s1)\<rparr>"
  have "t_status t = Pending" "t_remaining_dependencies t = 0"
    using False t counter_zero_iff_ready [OF exec_invD(2) [OF sys_invD(1) [OF inv]] t(1)]
    by (auto simp: startable_def)
  then have i: "t_id t \<in> set ?ids" using t(1) by (auto simp: runnable_ids_eq)
  have "sys_run treg greg lease s ?s1" by (rule r_into_rtranclp) (rule sys_step.step_read_runnable)
  moreover have "sys_step treg greg lease ?s1 ?s2" by (rule sys_step.step_publish) simp
  ultimately have "sys_run treg greg lease s ?s2" by (rule run_step)
  then show thesis
    by (rule that)
      (use i pg.leases_enqueue [OF sys_invD(3) [OF inv], of ?ids 0] in \<open>auto simp: queued_def dom_add_missing\<close>)
qed

lemma run_one_task:
  assumes inv: "sys_inv s" and claims: "claims_ok (sys_workers s)" and t: "t \<in> set (sys_tasks s)" "startable (sys_tasks s) t"
    and plugins: "plugins_return treg (sys_tasks s)"
  obtains s' where "sys_run treg greg lease s s'"
    "open_work (sys_tasks s') (t_workflow_execution_id t) < open_work (sys_tasks s) (t_workflow_execution_id t)"
    "task_shape ` set (sys_tasks s') = task_shape ` set (sys_tasks s)"
proof -
  let ?i = "t_id t" and ?w = "Uuid 0" and ?ts = "sys_tasks s"
  obtain s1 where s1: "sys_run treg greg lease s s1" "sys_db s1 = sys_db s" "sys_queue s1 = sys_queue s"
    "sys_workers s1 ?w = Idle" by (rule run_to_idle)
  have inv1: "sys_inv s1" using run_advances [OF s1(1) inv] by blast
  obtain s2 where s2: "sys_run treg greg lease s1 s2" "sys_db s2 = sys_db s1"
    "sys_workers s2 = sys_workers s1" "queued s2 ?i"
    by (rule run_to_queued [OF inv1]) (use t s1(2) in simp_all)
  have inv2: "sys_inv s2" using run_advances [OF s2(1) inv1] by blast
  obtain token where token: "token \<notin> tokens_in_use s2"
    using fresh_token run_claims [OF rtranclp_trans [OF s1(1) s2(1)] inv claims] by blast
  let ?c = "\<lparr>cl_task_execution_id = ?i, cl_claim_token = token\<rparr>"
  obtain now q' where cl: "claim lease (\<lambda>j. j \<noteq> ?i) ?w token now (sys_queue s2) = (q', Some ?c)"
    using claim_unlocked [OF sys_invD(3) [OF inv2]] s2(4) unfolding queued_def by blast
  let ?s3 = "s2\<lparr>sys_queue := q', sys_workers := (sys_workers s2)(?w := Starting ?c False)\<rparr>"
  have step3: "sys_step treg greg lease s2 ?s3"
    using sys_step.step_claim [OF _ cl token] s1(4) s2(3) by (simp add: worker_claims_def)
  let ?task = "\<lparr>sres_plugin_type = t_plugin_type t, sres_configuration = t_configuration t,
      sres_parent_outputs = map (\<lambda>p. (t_key p, \<lparr>output_values = the (t_output p)\<rparr>)) (parent_rows ?ts t)\<rparr>"
  let ?db4 = "sys_db s\<lparr>task_executions := map (start_row ?i 0) ?ts\<rparr>"
  let ?s4 = "?s3\<lparr>sys_db := ?db4, sys_workers := (sys_workers ?s3)(?w := Executing ?c False ?task)\<rparr>"
  have db2: "sys_db s2 = sys_db s" using s1(2) s2(2) by simp
  have step4: "sys_step treg greg lease ?s3 ?s4"
    by (rule sys_step.step_begin [where c = ?c and u = False])
      (simp_all add: worker_starts_def db2 service_start_ok [OF sys_invD(1) [OF inv] t])
  have run4: "sys_run treg greg lease s ?s4"
    by (rule run_step [OF run_step [OF rtranclp_trans [OF s1(1) s2(1)] step3] step4])
  have inv4: "sys_inv ?s4" using run_advances [OF run4 inv] by blast
  obtain res where res: "execute_plugin treg ?task = Inr res"
    using plugins t(1) unfolding plugins_return_def by blast
  obtain db5 x where p: "persist_result ?i 0 res ?db4 = (db5, x)" by force
  obtain st where st: "worker_executes treg 0 ?c False ?task ?db4 = (db5, st)"
    using res p by (cases x) (simp_all add: worker_executes_def)
  let ?s5 = "?s4\<lparr>sys_db := db5, sys_workers := (sys_workers ?s4)(?w := st)\<rparr>"
  have step5: "sys_step treg greg lease ?s4 ?s5"
    by (rule sys_step.step_execute [where c = ?c and u = False and task = ?task]) (use st in simp_all)
  let ?r = "start_row ?i 0 t"
  have r: "?r \<in> set (task_executions ?db4)" "t_id ?r = ?i" "t_status ?r = Running"
    using t by (auto simp: startable_def start_row_def)
  have inv_db4: "exec_inv ?db4" using sys_invD(1) [OF inv4] by simp
  obtain f where f: "task_executions db5 = map f (task_executions ?db4)" "less_work f"
    "task_work (f ?r) < task_work ?r"
    by (rule persist_less_work [OF inv_db4 r p])
  have "?r \<in> set (tasks_of (task_executions ?db4) (t_workflow_execution_id t))"
    using r(1) by (simp add: tasks_of_def)
  then have "open_work (task_executions db5) (t_workflow_execution_id t)
      < open_work (task_executions ?db4) (t_workflow_execution_id t)"
    unfolding f(1) by (rule open_work_map_less [OF f(2) _ f(3)])
  also have "\<dots> \<le> open_work ?ts (t_workflow_execution_id t)"
    using open_work_map [OF less_work_rows(1)] by simp
  finally have less: "open_work (task_executions db5) (t_workflow_execution_id t)
      < open_work ?ts (t_workflow_execution_id t)" .
  have "task_shape ` set (task_executions db5) = task_shape ` set (task_executions ?db4)"
    unfolding f(1) by (rule shapes_map [OF f(2)])
  also have "\<dots> = task_shape ` set ?ts" using shapes_map [OF less_work_rows(1)] by simp
  finally have shapes: "task_shape ` set (task_executions db5) = task_shape ` set ?ts" .
  show thesis by (rule that [OF run_step [OF run4 step5]]) (use less shapes in simp_all)
qed

definition ended_workflow :: "workflow_row \<Rightarrow> bool" where
  "ended_workflow w \<longleftrightarrow> w_status w \<noteq> WfRunning"

lemma run_to_end:
  assumes "sys_inv s" "plugins_return treg (sys_tasks s)" "t \<in> set (sys_tasks s)"
    "t_workflow_execution_id t = wid" "claims_ok (sys_workers s)"
  shows "\<exists>s'. sys_run treg greg lease s s'
     \<and> (\<exists>w \<in> set (workflow_executions (sys_db s')). w_id w = wid \<and> ended_workflow w)"
  using assms
proof (induction "open_work (sys_tasks s) wid" arbitrary: s t rule: less_induct)
  case less
  note inv = less.prems(1)
  have wfs: "workflows_ok (sys_db s)" by (rule exec_invD [OF sys_invD(1) [OF inv]])
  then obtain w where w: "w \<in> set (workflow_executions (sys_db s))" "w_id w = wid"
    using less.prems(3,4) unfolding workflows_ok_def by (metis imageE)
  show ?case
  proof (cases "ended_workflow w")
    case True
    then show ?thesis using w by blast
  next
    case False
    then obtain u where u: "u \<in> set (tasks_of (sys_tasks s) wid)" "startable (sys_tasks s) u"
      using running_workflow_startable [OF sys_invD(1) [OF inv] w(1)] w(2) by (auto simp: ended_workflow_def)
    then have u': "u \<in> set (sys_tasks s)" "t_workflow_execution_id u = wid" by (simp_all add: tasks_of_def)
    obtain s1 where s1: "sys_run treg greg lease s s1"
      "open_work (sys_tasks s1) (t_workflow_execution_id u) < open_work (sys_tasks s) (t_workflow_execution_id u)"
      "task_shape ` set (sys_tasks s1) = task_shape ` set (sys_tasks s)"
      by (rule run_one_task [OF inv less.prems(5) u'(1) u(2) less.prems(2)])
    have inv1: "sys_inv s1" and adv: "table_advances (sys_tasks s) (sys_tasks s1)"
      using run_advances [OF s1(1) inv] by blast+
    obtain v where v: "v \<in> set (sys_tasks s1)" "task_shape v = task_shape u"
      using row_keeps_shape [OF adv u'(1)] by blast
    have "\<exists>s'. sys_run treg greg lease s1 s'
        \<and> (\<exists>w \<in> set (workflow_executions (sys_db s')). w_id w = wid \<and> ended_workflow w)"
      by (rule less.hyps [OF _ inv1 plugins_return_shapes [OF less.prems(2) s1(3)] v(1)])
        (use s1(2) u'(2) shape_eqD(2) [OF v(2)] run_claims [OF s1(1) inv less.prems(5)] in simp_all)
    then show ?thesis using rtranclp_trans [OF s1(1)] by blast
  qed
qed

end
