(* ===== verification/Runtime_Loops.thy ===== *)
theory Runtime_Loops
  imports Completion
begin

text \<open>
  The loops of the runtime processes in full: \<open>Worker.run\<close> with \<open>_process_claim\<close> and the heartbeat
  thread, and \<open>Reconciler.run\<close>. What the environment decides in a round (the stop event, clocks,
  the token \<open>uuid4\<close> returns, rows locked elsewhere, exceptions of the queue's connection) is a
  record; a loop runs over the rounds it makes. A worker that runs undisturbed is shown to be a
  run of \<open>System\<close>, and what such a run does to tasks and queue is stated round by round.
\<close>

section \<open>The heartbeat thread\<close>

text \<open>
  \<open>_heartbeat\<close>: the rounds it makes until the task has been processed. The thread touches the queue
  and the processing of the task the database, so its rounds can be taken before it. The answer
  is \<open>claim_untrusted_event\<close>.
\<close>

record heartbeat_round =
  hr_raises :: "exn option"
  hr_at :: datetime

fun heartbeat_loop :: "queue_claim \<Rightarrow> heartbeat_round list \<Rightarrow> queue_table \<Rightarrow> queue_table \<times> bool" where
  "heartbeat_loop c [] q = (q, False)"
| "heartbeat_loop c (r # rs) q =
     (case hr_raises r of
        Some e \<Rightarrow> (q, True)
      | None \<Rightarrow>
          (case heartbeat c (hr_at r) q of
             (q', lease_owned) \<Rightarrow> if lease_owned then heartbeat_loop c rs q' else (q', True)))"

section \<open>The worker\<close>

record worker_round =
  wr_stop :: bool
  wr_claim_raises :: "exn option"
  wr_locked :: "uuid \<Rightarrow> bool"
  wr_token :: uuid
  wr_claimed_at :: datetime
  wr_heartbeats :: "heartbeat_round list"
  wr_started_at :: datetime
  wr_completed_at :: datetime
  wr_settled_at :: datetime
  wr_settle_raises :: "exn option"

text \<open>
  \<open>_process_claim\<close>: exceptions of the processing are logged and swallowed, those of \<open>release\<close> and
  \<open>finish\<close> are not.
\<close>

definition worker_process_claim ::
  "(string \<times> task_plugin) list \<Rightarrow> worker_round \<Rightarrow> queue_claim \<Rightarrow> (platform, unit) op" where
  "worker_process_claim reg r c p =
     (case p of (db, q) \<Rightarrow>
        (case heartbeat_loop c (wr_heartbeats r) q of (q1, untrusted) \<Rightarrow>
           (case process reg (wr_started_at r) (wr_completed_at r) (cl_task_execution_id c) db of
              (db', Inl e) \<Rightarrow> ((db', q1), Inr ())
            | (db', Inr pr) \<Rightarrow>
                if untrusted then ((db', q1), Inr ())
                else
                  (case wr_settle_raises r of
                     Some e \<Rightarrow> ((db', q1), Inl e)
                   | None \<Rightarrow> ((db', worker_settles (wr_settled_at r) c False pr q1), Inr ())))))"

text \<open>
  \<open>run\<close>: \<open>Inr True\<close> when the stop event ended the loop, \<open>Inr False\<close> when it goes on after the rounds
  given, \<open>Inl\<close> when an exception left it.
\<close>

fun worker_run :: "(string \<times> task_plugin) list \<Rightarrow> timedelta \<Rightarrow> uuid \<Rightarrow> worker_round list \<Rightarrow> (platform, bool) op" where
  "worker_run reg lease w [] p = (p, Inr False)"
| "worker_run reg lease w (r # rs) p =
     (if wr_stop r then (p, Inr True)
      else
        case wr_claim_raises r of
          Some e \<Rightarrow> (p, Inl e)
        | None \<Rightarrow>
            (case claim lease (wr_locked r) w (wr_token r) (wr_claimed_at r) (snd p) of
               (q1, None) \<Rightarrow> worker_run reg lease w rs (fst p, q1)
             | (q1, Some c) \<Rightarrow>
                 (case worker_process_claim reg r c (fst p, q1) of
                    (p', Inl e) \<Rightarrow> (p', Inl e)
                  | (p', Inr u) \<Rightarrow> worker_run reg lease w rs p')))"

section \<open>The reconciler\<close>

text \<open>
  \<open>run\<close>: a cycle that raises is logged; the loop waits for the interval after each cycle. The calls
  are those of \<open>_reconcile\<close> until the stop event is set.
\<close>

definition reconciler_iteration :: "(platform, unit) op \<Rightarrow> platform \<Rightarrow> platform" where
  "reconciler_iteration cycle p = (case cycle p of (p', Inl e) \<Rightarrow> p' | (p', Inr u) \<Rightarrow> p')"

fun reconciler_run :: "(platform, unit) op list \<Rightarrow> platform \<Rightarrow> platform" where
  "reconciler_run [] p = p"
| "reconciler_run (cycle # cycles) p = reconciler_run cycles (reconciler_iteration cycle p)"

section \<open>The stages of a claim, with heartbeats\<close>

definition processing_stages ::
  "(string \<times> task_plugin) list \<Rightarrow> worker_round \<Rightarrow> queue_claim \<Rightarrow> bool \<Rightarrow> database \<Rightarrow> database \<times> worker_state" where
  "processing_stages reg r c untrusted db =
     (case worker_starts (wr_started_at r) c untrusted db of
        (db1, st) \<Rightarrow>
          (case st of Executing c' u task \<Rightarrow> worker_executes reg (wr_completed_at r) c' u task db1
           | _ \<Rightarrow> (db1, st)))"

lemma worker_process_claim_stages:
  "worker_process_claim reg r c (db, q) =
     (case heartbeat_loop c (wr_heartbeats r) q of (q1, untrusted) \<Rightarrow>
        (case processing_stages reg r c untrusted db of
           (db2, Settling c' u pr) \<Rightarrow>
             (case (if untrusted then None else wr_settle_raises r) of
                Some e \<Rightarrow> ((db2, q1), Inl e)
              | None \<Rightarrow> ((db2, worker_settles (wr_settled_at r) c untrusted pr q1), Inr ()))
         | (db2, _) \<Rightarrow> ((db2, q1), Inr ())))"
  by (auto simp: worker_process_claim_def processing_stages_def process_def worker_starts_def worker_executes_def
      andThen_def ret_def raise_def worker_settles_def split: prod.splits sum.splits option.splits)

text \<open>Tokens in the queue: only \<open>claim\<close> adds one.\<close>

definition entry_tokens :: "queue_table \<Rightarrow> uuid set" where
  "entry_tokens q = {t. \<exists>e \<in> set q. qe_claim_token e = Some t}"

lemma tokens_in_use_eq:
  "tokens_in_use s = {cl_claim_token c | c. \<exists>w. worker_claim (sys_workers s w) = Some c} \<union> entry_tokens (sys_queue s)"
  by (simp add: tokens_in_use_def entry_tokens_def)

lemma entry_tokens_insert: "entry_tokens (insert_on_conflict_do_nothing at ids q) = entry_tokens q"
  by (induction ids arbitrary: q) (auto simp: entry_tokens_def)

lemma entry_tokens_ops:
  "entry_tokens (fst (heartbeat c now q)) \<subseteq> entry_tokens q"
  "entry_tokens (release c q) \<subseteq> entry_tokens q"
  "entry_tokens (finish c ids now q) \<subseteq> entry_tokens q"
  "entry_tokens (enqueue ids now q) = entry_tokens q"
proof -
  show "entry_tokens (fst (heartbeat c now q)) \<subseteq> entry_tokens q"
    by (auto simp: heartbeat_def entry_tokens_def set_update_where)
  show "entry_tokens (release c q) \<subseteq> entry_tokens q"
    by (auto simp: release_def entry_tokens_def set_update_where split: if_splits)
  have "entry_tokens (delete_where P q) \<subseteq> entry_tokens q" for P
    by (auto simp: entry_tokens_def)
  then show "entry_tokens (finish c ids now q) \<subseteq> entry_tokens q"
    by (simp add: finish_def Let_def insert_queue_entries_def entry_tokens_insert)
  show "entry_tokens (enqueue ids now q) = entry_tokens q"
    by (simp add: enqueue_def insert_queue_entries_def entry_tokens_insert)
qed

lemma entry_tokens_claim:
  "entry_tokens (fst (claim lease locked w token now q)) \<subseteq> insert token (entry_tokens q)"
  by (auto simp: claim_def Let_def entry_tokens_def set_update_where split: option.splits if_splits)

lemma entry_tokens_settles: "entry_tokens (worker_settles now c u pr q) \<subseteq> entry_tokens q"
  using entry_tokens_ops(2,3) by (simp add: worker_settles_def)

lemma entry_tokens_heartbeats: "entry_tokens (fst (heartbeat_loop c rs q)) \<subseteq> entry_tokens q"
proof (induction rs arbitrary: q)
  case (Cons r rs)
  obtain q' owned where hb: "heartbeat c (hr_at r) q = (q', owned)" by fastforce
  then have "entry_tokens q' \<subseteq> entry_tokens q" using entry_tokens_ops(1) [of c "hr_at r" q] by simp
  then show ?case using Cons [of q'] hb by (auto split: option.splits)
qed simp

section \<open>A worker is a run of the platform\<close>

lemma heartbeats_run:
  assumes "sys_workers s w = Starting c False" "heartbeat_loop c rs (sys_queue s) = (q1, u)"
  shows "sys_run treg greg lease s (s\<lparr>sys_queue := q1, sys_workers := (sys_workers s)(w := Starting c u)\<rparr>)"
  using assms
proof (induction rs arbitrary: s)
  case Nil
  then have "(sys_workers s)(w := Starting c u) = sys_workers s" "q1 = sys_queue s" by (auto simp: fun_upd_idem)
  then have "s\<lparr>sys_queue := q1, sys_workers := (sys_workers s)(w := Starting c u)\<rparr> = s" by simp
  then show ?case by (simp only: rtranclp.rtrancl_refl)
next
  case (Cons r rs)
  note w = Cons.prems(1)
  show ?case
  proof (cases "hr_raises r")
    case (Some e)
    then have u: "q1 = sys_queue s" "u = True" using Cons.prems(2) by auto
    have "sys_run treg greg lease s
        (s\<lparr>sys_workers := (sys_workers s)(w := worker_heartbeats None (sys_workers s w))\<rparr>)"
      by (rule r_into_rtranclp) (rule sys_step.step_heartbeat_fails)
    moreover have "s\<lparr>sys_workers := (sys_workers s)(w := worker_heartbeats None (sys_workers s w))\<rparr> =
        s\<lparr>sys_queue := q1, sys_workers := (sys_workers s)(w := Starting c u)\<rparr>"
      by (rule system.equality) (simp_all add: w u worker_heartbeats_def)
    ultimately show ?thesis by (simp only:)
  next
    case None
    obtain q' owned where hb: "heartbeat c (hr_at r) (sys_queue s) = (q', owned)" by fastforce
    let ?s = "s\<lparr>sys_queue := q', sys_workers := (sys_workers s)(w := Starting c (\<not> owned))\<rparr>"
    have step: "sys_step treg greg lease s ?s"
      using sys_step.step_heartbeat [of s w c "hr_at r" q' owned treg greg lease] w hb
      by (simp add: worker_heartbeats_def)
    show ?thesis
    proof (cases owned)
      case True
      then have "heartbeat_loop c rs (sys_queue ?s) = (q1, u)" using Cons.prems(2) None hb by simp
      moreover have "sys_workers ?s w = Starting c False" using True by simp
      ultimately have "sys_run treg greg lease ?s
         (?s\<lparr>sys_queue := q1, sys_workers := (sys_workers ?s)(w := Starting c u)\<rparr>)" by (intro Cons.IH)
      moreover have "?s\<lparr>sys_queue := q1, sys_workers := (sys_workers ?s)(w := Starting c u)\<rparr> =
          s\<lparr>sys_queue := q1, sys_workers := (sys_workers s)(w := Starting c u)\<rparr>"
        by (rule system.equality) simp_all
      ultimately show ?thesis using step by (simp only: converse_rtranclp_into_rtranclp)
    next
      case False
      then have u: "q1 = q'" "u = True" using Cons.prems(2) None hb by auto
      show ?thesis using r_into_rtranclp [of "sys_step treg greg lease", OF step] False by (simp only: u simp_thms)
    qed
  qed
qed

text \<open>One round that claims: from an idle worker to an idle worker.\<close>

lemma claimed_run:
  assumes idle: "sys_workers s w = Idle"
    and cl: "claim lease (wr_locked r) w (wr_token r) (wr_claimed_at r) (sys_queue s) = (q1, Some c)"
    and token: "wr_token r \<notin> tokens_in_use s"
    and p: "worker_process_claim treg r c (sys_db s, q1) = ((db', q'), x)"
  shows "sys_run treg greg lease s (s\<lparr>sys_db := db', sys_queue := q'\<rparr>)"
    and "entry_tokens q' \<subseteq> insert (wr_token r) (entry_tokens (sys_queue s))"
proof -
  obtain q2 u where hb: "heartbeat_loop c (wr_heartbeats r) q1 = (q2, u)" by fastforce
  obtain db1 st1 where st1: "worker_starts (wr_started_at r) c u (sys_db s) = (db1, st1)" by fastforce
  obtain db2 st2 where st2: "processing_stages treg r c u (sys_db s) = (db2, st2)" by fastforce
  have shape: "st1 = Idle \<or> st1 = Settling c u no_result \<or> (\<exists>task. st1 = Executing c u task)"
    using st1 by (auto simp: worker_starts_def split: prod.splits sum.splits option.splits)
  have ended: "st2 = Idle \<or> (\<exists>pr. st2 = Settling c u pr)"
    using shape st1 st2 by (auto simp: processing_stages_def worker_executes_def split: prod.splits sum.splits)
  let ?ws = "sys_workers s"
  let ?s1 = "s\<lparr>sys_queue := q1, sys_workers := ?ws(w := Starting c False)\<rparr>"
  let ?s2 = "s\<lparr>sys_queue := q2, sys_workers := ?ws(w := Starting c u)\<rparr>"
  let ?s3 = "s\<lparr>sys_queue := q2, sys_db := db1, sys_workers := ?ws(w := st1)\<rparr>"
  let ?s4 = "s\<lparr>sys_queue := q2, sys_db := db2, sys_workers := ?ws(w := st2)\<rparr>"
  have "sys_step treg greg lease s ?s1"
    using sys_step.step_claim [OF idle cl token] by (simp add: worker_claims_def)
  moreover have "sys_run treg greg lease ?s1 ?s2"
    using heartbeats_run [of ?s1 w c "wr_heartbeats r" q2 u treg greg lease] hb by simp
  ultimately have r2: "sys_run treg greg lease s ?s2" by (rule converse_rtranclp_into_rtranclp)
  have "sys_step treg greg lease ?s2 ?s3"
    using sys_step.step_begin [of ?s2 w c u "wr_started_at r" db1 st1 treg greg lease] st1 by simp
  then have r3: "sys_run treg greg lease s ?s3" by (rule run_step [OF r2])
  have r4: "sys_run treg greg lease s ?s4"
  proof (cases "\<exists>task. st1 = Executing c u task")
    case True
    then obtain task where task: "st1 = Executing c u task" by blast
    have "sys_step treg greg lease ?s3 ?s4"
      using sys_step.step_execute [of ?s3 w c u task treg "wr_completed_at r" db2 st2 greg lease] st1 st2 task
      by (simp add: processing_stages_def)
    then show ?thesis by (rule run_step [OF r3])
  next
    case False
    then have "db2 = db1" "st2 = st1" using shape st1 st2 by (auto simp: processing_stages_def)
    then show ?thesis using r3 by simp
  qed
  have settled: "db' = db2 \<and> (q' = q2 \<or> (\<exists>pr. st2 = Settling c u pr \<and> q' = worker_settles (wr_settled_at r) c u pr q2))"
    using p hb ended st2 unfolding worker_process_claim_stages by (auto split: option.splits if_splits)
  have same: "?ws(w := Idle) = ?ws" using idle by (simp add: fun_upd_idem)
  show "sys_run treg greg lease s (s\<lparr>sys_db := db', sys_queue := q'\<rparr>)"
  proof (cases "q' = q2")
    case True
    have "sys_step treg greg lease ?s4 (?s4\<lparr>sys_workers := (sys_workers ?s4)(w := Idle)\<rparr>)"
      by (rule sys_step.step_stop)
    moreover have "?s4\<lparr>sys_workers := (sys_workers ?s4)(w := Idle)\<rparr> = s\<lparr>sys_db := db', sys_queue := q'\<rparr>"
      by (rule system.equality) (use True settled same in simp_all)
    ultimately show ?thesis using run_step [OF r4] by metis
  next
    case False
    then obtain pr where pr: "st2 = Settling c u pr" "q' = worker_settles (wr_settled_at r) c u pr q2"
      using settled by blast
    let ?s5 = "?s4\<lparr>sys_queue := worker_settles (wr_settled_at r) c u pr (sys_queue ?s4),
          sys_workers := (sys_workers ?s4)(w := Idle)\<rparr>"
    have "sys_step treg greg lease ?s4 ?s5" by (rule sys_step.step_settle) (simp add: pr)
    moreover have "?s5 = s\<lparr>sys_db := db', sys_queue := q'\<rparr>"
      by (rule system.equality) (use pr settled same in simp_all)
    ultimately show ?thesis using run_step [OF r4] by metis
  qed
  have "entry_tokens q2 \<subseteq> entry_tokens q1" using entry_tokens_heartbeats [of c "wr_heartbeats r" q1] hb by simp
  moreover have "entry_tokens q1 \<subseteq> insert (wr_token r) (entry_tokens (sys_queue s))"
    using entry_tokens_claim [of lease "wr_locked r" w "wr_token r" "wr_claimed_at r" "sys_queue s"] cl by simp
  ultimately show "entry_tokens q' \<subseteq> insert (wr_token r) (entry_tokens (sys_queue s))"
    using settled entry_tokens_settles by blast
qed

text \<open>The whole loop. Each round draws a new token, as \<open>uuid4\<close> does.\<close>

lemma worker_run_simulated:
  assumes "sys_workers s w = Idle" "distinct (map wr_token rounds)"
    "set (map wr_token rounds) \<inter> tokens_in_use s = {}"
    "worker_run treg lease w rounds (sys_db s, sys_queue s) = ((db', q'), x)"
  shows "sys_run treg greg lease s (s\<lparr>sys_db := db', sys_queue := q'\<rparr>)"
  using assms
proof (induction rounds arbitrary: s)
  case Nil
  then have "s\<lparr>sys_db := db', sys_queue := q'\<rparr> = s" by simp
  then show ?case by simp
next
  case (Cons r rs)
  note idle = Cons.prems(1) and run = Cons.prems(4)
  have token: "wr_token r \<notin> tokens_in_use s" using Cons.prems(3) by simp
  show ?case
  proof (cases "wr_stop r \<or> wr_claim_raises r \<noteq> None")
    case True
    then have "db' = sys_db s" "q' = sys_queue s" using run by (auto split: if_splits)
    then have "s\<lparr>sys_db := db', sys_queue := q'\<rparr> = s" by simp
    then show ?thesis by simp
  next
    case False
    obtain q1 mc where cl: "claim lease (wr_locked r) w (wr_token r) (wr_claimed_at r) (sys_queue s) = (q1, mc)"
      by fastforce
    have rest: "sys_run treg greg lease (s\<lparr>sys_db := db1, sys_queue := q2\<rparr>) (s\<lparr>sys_db := db', sys_queue := q'\<rparr>)"
      if tokens: "entry_tokens q2 \<subseteq> insert (wr_token r) (entry_tokens (sys_queue s))"
        and later: "worker_run treg lease w rs (db1, q2) = ((db', q'), x)" for db1 q2
    proof -
      let ?s1 = "s\<lparr>sys_db := db1, sys_queue := q2\<rparr>"
      have "tokens_in_use ?s1 \<subseteq> insert (wr_token r) (tokens_in_use s)"
        using tokens by (auto simp: tokens_in_use_eq)
      moreover have "set (map wr_token rs) \<inter> insert (wr_token r) (tokens_in_use s) = {}"
        using Cons.prems(2,3) by auto
      ultimately have "set (map wr_token rs) \<inter> tokens_in_use ?s1 = {}" by blast
      then have "sys_run treg greg lease ?s1 (?s1\<lparr>sys_db := db', sys_queue := q'\<rparr>)"
        by (intro Cons.IH) (use idle Cons.prems(2) later in simp_all)
      then show ?thesis by simp
    qed
    show ?thesis
    proof (cases mc)
      case None
      then have "q1 = sys_queue s" using claim_NoneD cl by blast
      then have "worker_run treg lease w rs (sys_db s, sys_queue s) = ((db', q'), x)"
        using run cl None False by simp
      from rest [OF _ this] show ?thesis by auto
    next
      case (Some c)
      obtain db2 q2 y where p: "worker_process_claim treg r c (sys_db s, q1) = ((db2, q2), y)"
        by (metis surj_pair)
      note round = claimed_run [OF idle cl [unfolded Some] token p]
      show ?thesis
      proof (cases y)
        case (Inl e)
        then have "db' = db2" "q' = q2" using run cl Some False p by auto
        then show ?thesis using round(1) by simp
      next
        case (Inr v)
        have "sys_run treg greg lease (s\<lparr>sys_db := db2, sys_queue := q2\<rparr>) (s\<lparr>sys_db := db', sys_queue := q'\<rparr>)"
          by (rule rest [OF round(2)]) (use run cl Some False p Inr in auto)
        with round(1) show ?thesis by (rule rtranclp_trans)
      qed
    qed
  qed
qed

end
