(* ===== verification/Walkthrough.thy ===== *)
theory Walkthrough
  imports System
begin

text \<open>
  A concrete run of the platform, evaluated on the model: a workflow of two tasks with an interval
  trigger is created and started, its root is published, claimed, begun, executed and settled.
  The states of the run are reachable; the properties are instantiated at them.
\<close>

section \<open>The run\<close>

definition walk_tasks :: "(string \<times> task_plugin) list" where
  "walk_tasks = [(''produce_value'', produce_value_task), (''collect_inputs'', collect_inputs_task),
                 (''fail'', fail_task)]"

definition walk_triggers :: "(string \<times> trigger_plugin) list" where
  "walk_triggers = [(''interval'', interval_trigger)]"

definition walk_request :: create_workflow_definition where
  "walk_request = \<lparr>cw_name = ''report'', cw_description = ''two tasks'',
     cw_tasks =
       [\<lparr>ct_plugin_type = ''produce_value'', ct_key = ''extract'',
          ct_configuration = [(''value'', JInt 7)], ct_dependencies = [], ct_max_tries = 2\<rparr>,
        \<lparr>ct_plugin_type = ''collect_inputs'', ct_key = ''load'', ct_configuration = [],
          ct_dependencies = [''extract''], ct_max_tries = 1\<rparr>],
     cw_triggers = [\<lparr>cg_plugin_type = ''interval'', cg_configuration = [(''interval_seconds'', JInt 60)],
          cg_enabled = True\<rparr>],
     cw_enabled = True\<rparr>"

section \<open>Databases and queues of the run\<close>

definition walk_definitions :: database where
  "walk_definitions =
     \<lparr>workflow_definitions =
        [\<lparr>wdr_id = Uuid 3, wdr_name = ''report'', wdr_description = ''two tasks'', wdr_enabled = True\<rparr>],
      task_definitions =
        [\<lparr>tdr_id = Uuid 0, tdr_workflow_definition_id = Uuid 3, tdr_key = ''extract'',
           tdr_plugin_type = ''produce_value'', tdr_configuration = [(''value'', JInt 7)], tdr_max_tries = 2\<rparr>,
         \<lparr>tdr_id = Uuid 1, tdr_workflow_definition_id = Uuid 3, tdr_key = ''load'',
           tdr_plugin_type = ''collect_inputs'', tdr_configuration = [], tdr_max_tries = 1\<rparr>],
      task_definition_dependencies = [\<lparr>dep_task_definition_id = Uuid 1, dep_depends_on = Uuid 0\<rparr>],
      trigger_definitions =
        [\<lparr>trr_id = Uuid 2, trr_workflow_definition_id = Uuid 3, trr_plugin_type = ''interval'',
           trr_configuration = [(''interval_seconds'', JInt 60)], trr_enabled = True\<rparr>],
      chronological_trigger_state = [\<lparr>cts_trigger_definition_id = Uuid 2, cts_next_run_at = 60000000\<rparr>],
      workflow_executions = [], task_executions = []\<rparr>"

definition extract_row :: "task_status \<Rightarrow> json_object option \<Rightarrow> datetime option \<Rightarrow> datetime option \<Rightarrow> task_row" where
  "extract_row status out started_at completed_at =
     \<lparr>t_id = Uuid 11, t_workflow_execution_id = Uuid 10, t_task_definition_id = Uuid 0, t_key = ''extract'',
      t_plugin_type = ''produce_value'', t_configuration = [(''value'', JInt 7)], t_status = status,
      t_remaining_dependencies = 0, t_parent_task_ids = [], t_child_task_ids = [Uuid 12],
      t_remaining_tries = 2, t_output = out, t_error_message = None, t_started_at = started_at,
      t_completed_at = completed_at\<rparr>"

definition load_row :: "task_status \<Rightarrow> int \<Rightarrow> datetime option \<Rightarrow> task_row" where
  "load_row status remaining started_at =
     \<lparr>t_id = Uuid 12, t_workflow_execution_id = Uuid 10, t_task_definition_id = Uuid 1, t_key = ''load'',
      t_plugin_type = ''collect_inputs'', t_configuration = [], t_status = status,
      t_remaining_dependencies = remaining, t_parent_task_ids = [Uuid 11], t_child_task_ids = [],
      t_remaining_tries = 1, t_output = None, t_error_message = None, t_started_at = started_at,
      t_completed_at = None\<rparr>"

definition walk_workflow :: workflow_row where
  "walk_workflow = \<lparr>w_id = Uuid 10, w_workflow_definition_id = Uuid 3, w_status = WfRunning,
     w_created_at = 5, w_started_at = None, w_completed_at = None\<rparr>"

definition walk_db :: "task_row list \<Rightarrow> database" where
  "walk_db rows = walk_definitions\<lparr>workflow_executions := [walk_workflow], task_executions := rows\<rparr>"

definition walk_extract :: task_row where
  "walk_extract = extract_row Completed (Some [(''value'', JInt 7)]) (Some 9) (Some 12)"

definition walk_load :: task_row where
  "walk_load = load_row Running 0 (Some 15)"

definition db_started :: database where
  "db_started = walk_db [extract_row Pending None None None, load_row Pending 1 None]"

definition db_running :: database where
  "db_running = walk_db [extract_row Running None (Some 9) None, load_row Pending 1 None]"

definition db_released :: database where
  "db_released = walk_db [walk_extract, load_row Pending 0 None]"

definition db_loading :: database where
  "db_loading = walk_db [walk_extract, walk_load]"

lemmas walk_db_defs = db_started_def db_running_def db_released_def db_loading_def

definition waiting_entry :: "uuid \<Rightarrow> datetime \<Rightarrow> queue_entry" where
  "waiting_entry i at = \<lparr>qe_task_execution_id = i, qe_claim_token = None, qe_claimed_by = None,
     qe_queued_at = at, qe_claimed_at = None, qe_last_heartbeat = None\<rparr>"

definition claimed_entry :: "uuid \<Rightarrow> datetime \<Rightarrow> uuid \<Rightarrow> uuid \<Rightarrow> datetime \<Rightarrow> queue_entry" where
  "claimed_entry i at token worker claimed_at = \<lparr>qe_task_execution_id = i, qe_claim_token = Some token,
     qe_claimed_by = Some worker, qe_queued_at = at, qe_claimed_at = Some claimed_at,
     qe_last_heartbeat = Some claimed_at\<rparr>"

definition walk_held :: queue_claim where
  "walk_held = \<lparr>cl_task_execution_id = Uuid 11, cl_claim_token = Uuid 60\<rparr>"

definition walk_held2 :: queue_claim where
  "walk_held2 = \<lparr>cl_task_execution_id = Uuid 12, cl_claim_token = Uuid 61\<rparr>"

definition walk_task :: start_result where
  "walk_task = \<lparr>sres_plugin_type = ''produce_value'', sres_configuration = [(''value'', JInt 7)],
                sres_parent_outputs = []\<rparr>"

definition walk_result :: process_result where
  "walk_result = \<lparr>pr_enqueue_task_ids = [Uuid 12], pr_should_retry = False\<rparr>"

definition walk_task2 :: start_result where
  "walk_task2 = \<lparr>sres_plugin_type = ''collect_inputs'', sres_configuration = [],
     sres_parent_outputs = [(''extract'', \<lparr>output_values = [(''value'', JInt 7)]\<rparr>)]\<rparr>"

lemma waiting_unclaimed [simp]: "qe_claim_token (waiting_entry i at) = None"
  by (simp add: waiting_entry_def)

section \<open>What each operation does\<close>

lemma walk_create:
  "create_definition walk_tasks walk_triggers Uuid (\<lambda>_. 0) walk_request empty_database =
     (walk_definitions, Inr (Uuid 3))"
  by code_simp

lemma walk_start:
  "start_workflow (\<lambda>i. Uuid (10 + i)) 5 6 (Uuid 3) (walk_definitions, []) =
     ((db_started, [waiting_entry (Uuid 11) 6]), Inr (Uuid 10))"
  by code_simp

lemma walk_enqueue: "enqueue [Uuid 11] 7 [] = [waiting_entry (Uuid 11) 7]"
  by code_simp

lemma walk_claim:
  "claim 30 (\<lambda>_. False) (Uuid 50) (Uuid 60) 8 [waiting_entry (Uuid 11) 7] =
     ([claimed_entry (Uuid 11) 7 (Uuid 60) (Uuid 50) 8], Some walk_held)"
  by code_simp

lemma walk_begin:
  "worker_starts 9 walk_held False db_started = (db_running, Executing walk_held False walk_task)"
  by code_simp

lemma walk_execute:
  "worker_executes walk_tasks 12 walk_held False walk_task db_running =
     (db_released, Settling walk_held False walk_result)"
  by code_simp

lemma walk_settle:
  "worker_settles 13 walk_held False walk_result [claimed_entry (Uuid 11) 7 (Uuid 60) (Uuid 50) 8] =
     [waiting_entry (Uuid 12) 13]"
  by code_simp

lemma walk_claim2:
  "claim 30 (\<lambda>_. False) (Uuid 51) (Uuid 61) 14 [waiting_entry (Uuid 12) 13] =
     ([claimed_entry (Uuid 12) 13 (Uuid 61) (Uuid 51) 14], Some walk_held2)"
  by code_simp

lemma walk_begin2:
  "worker_starts 15 walk_held2 False db_released = (db_loading, Executing walk_held2 False walk_task2)"
  by code_simp

section \<open>The states and the steps between them\<close>

definition walk1 :: system where
  "walk1 = \<lparr>sys_db = walk_definitions, sys_queue = [], sys_outbox = [], sys_workers = (\<lambda>_. Idle)\<rparr>"

definition walk2 :: system where
  "walk2 = \<lparr>sys_db = db_started, sys_queue = [], sys_outbox = [[Uuid 11]], sys_workers = (\<lambda>_. Idle)\<rparr>"

definition walk3 :: system where
  "walk3 = \<lparr>sys_db = db_started, sys_queue = [waiting_entry (Uuid 11) 7], sys_outbox = [],
            sys_workers = (\<lambda>_. Idle)\<rparr>"

definition walk4 :: system where
  "walk4 = \<lparr>sys_db = db_started, sys_queue = [claimed_entry (Uuid 11) 7 (Uuid 60) (Uuid 50) 8],
            sys_outbox = [], sys_workers = (\<lambda>_. Idle)(Uuid 50 := Starting walk_held False)\<rparr>"

definition walk5 :: system where
  "walk5 = \<lparr>sys_db = db_running, sys_queue = [claimed_entry (Uuid 11) 7 (Uuid 60) (Uuid 50) 8],
            sys_outbox = [], sys_workers = (\<lambda>_. Idle)(Uuid 50 := Executing walk_held False walk_task)\<rparr>"

definition walk6 :: system where
  "walk6 = \<lparr>sys_db = db_released, sys_queue = [claimed_entry (Uuid 11) 7 (Uuid 60) (Uuid 50) 8],
            sys_outbox = [], sys_workers = (\<lambda>_. Idle)(Uuid 50 := Settling walk_held False walk_result)\<rparr>"

definition walk7 :: system where
  "walk7 = \<lparr>sys_db = db_released, sys_queue = [waiting_entry (Uuid 12) 13], sys_outbox = [],
            sys_workers = (\<lambda>_. Idle)\<rparr>"

definition walk8 :: system where
  "walk8 = \<lparr>sys_db = db_released, sys_queue = [claimed_entry (Uuid 12) 13 (Uuid 61) (Uuid 51) 14],
            sys_outbox = [], sys_workers = (\<lambda>_. Idle)(Uuid 51 := Starting walk_held2 False)\<rparr>"

definition walk9 :: system where
  "walk9 = \<lparr>sys_db = db_loading, sys_queue = [claimed_entry (Uuid 12) 13 (Uuid 61) (Uuid 51) 14],
            sys_outbox = [], sys_workers = (\<lambda>_. Idle)(Uuid 51 := Executing walk_held2 False walk_task2)\<rparr>"

lemmas walk_defs = walk1_def walk2_def walk3_def walk4_def walk5_def walk6_def walk7_def walk8_def walk9_def
  initial_system_def

lemma walk_step1: "sys_step walk_tasks walk_triggers 30 initial_system walk1"
proof -
  have "sys_step walk_tasks walk_triggers 30 initial_system (initial_system\<lparr>sys_db := walk_definitions\<rparr>)"
  proof (rule sys_step.step_create)
    show "create_definition walk_tasks walk_triggers Uuid (\<lambda>_. 0) walk_request (sys_db initial_system) =
        (walk_definitions, Inr (Uuid 3))"
      by (simp add: walk_create initial_system_def)
    show "unused_definition_ids Uuid (length (cw_tasks walk_request)) (length (cw_triggers walk_request))
        (sys_db initial_system)"
      by (simp add: unused_definition_ids_def initial_system_def empty_database_def inj_on_def)
    show "\<forall>t \<in> set (cw_tasks walk_request). int4 (ct_max_tries t)"
      by (simp add: walk_request_def int4_def)
  qed
  then show ?thesis by (simp add: walk_defs)
qed

lemma walk_loaded:
  "snd (load_definition (Uuid 3) walk_definitions) =
     Inr (Some \<lparr>wd_id = Uuid 3, wd_name = ''report'', wd_description = ''two tasks'',
        wd_task_definitions =
          [\<lparr>td_id = Uuid 0, td_plugin_type = ''produce_value'', td_key = ''extract'',
            td_configuration = [(''value'', JInt 7)], td_dependencies = [], td_max_tries = 2\<rparr>,
           \<lparr>td_id = Uuid 1, td_plugin_type = ''collect_inputs'', td_key = ''load'',
            td_configuration = [], td_dependencies = [Uuid 0], td_max_tries = 1\<rparr>],
        wd_trigger_definitions =
          [\<lparr>tr_id = Uuid 2, tr_plugin_type = ''interval'',
            tr_configuration = [(''interval_seconds'', JInt 60)], tr_enabled = True\<rparr>],
        wd_enabled = True\<rparr>)"
  by code_simp

lemma walk_start_unused: "start_ids_unused (\<lambda>i. Uuid (10 + i)) walk_definitions (Uuid 3)"
  unfolding start_ids_unused_def
proof (intro allI impI)
  fix wd assume "load_definition (Uuid 3) walk_definitions = (walk_definitions, Inr (Some wd))"
  then have "length (wd_task_definitions wd) = 2" using walk_loaded by auto
  then show "unused_ids (\<lambda>i. Uuid (10 + i)) (length (wd_task_definitions wd)) walk_definitions
      \<and> length (wd_task_definitions wd) < 2 ^ 31"
    by (simp add: unused_ids_def walk_definitions_def inj_on_def)
qed

lemma walk_step2: "sys_step walk_tasks walk_triggers 30 walk1 walk2"
  using sys_step.step_start [of "\<lambda>i. Uuid (10 + i)" 5 6 "Uuid 3" walk1, OF _ _, of db_started
      "[waiting_entry (Uuid 11) 6]" "Uuid 10" walk_tasks walk_triggers 30]
  by (simp add: walk_defs walk_start walk_start_unused published_ids_def waiting_entry_def)

lemma walk_step3: "sys_step walk_tasks walk_triggers 30 walk2 walk3"
  using sys_step.step_publish [of "[Uuid 11]" walk2 walk_tasks walk_triggers 30 7]
  by (simp add: walk_defs walk_enqueue)

lemma walk_step4: "sys_step walk_tasks walk_triggers 30 walk3 walk4"
  using sys_step.step_claim [of walk3 "Uuid 50" 30 "\<lambda>_. False" "Uuid 60" 8 _ _ walk_tasks walk_triggers]
  by (simp add: walk_defs walk_claim worker_claims_def tokens_in_use_def)

lemma walk_step5: "sys_step walk_tasks walk_triggers 30 walk4 walk5"
  using sys_step.step_begin [of walk4 "Uuid 50" walk_held False 9 _ _ walk_tasks walk_triggers 30]
  by (simp add: walk_defs walk_begin)

lemma walk_step6: "sys_step walk_tasks walk_triggers 30 walk5 walk6"
  using sys_step.step_execute [of walk5 "Uuid 50" walk_held False walk_task walk_tasks 12 _ _ walk_triggers 30]
  by (simp add: walk_defs walk_execute)

lemma idle_workers: "(\<lambda>_. Idle)(w := Idle) = (\<lambda>_. Idle)"
  by (rule ext) simp

lemma walk_step7: "sys_step walk_tasks walk_triggers 30 walk6 walk7"
  using sys_step.step_settle [of walk6 "Uuid 50" walk_held False walk_result walk_tasks walk_triggers 30 13]
  by (simp add: walk_defs walk_settle idle_workers)

lemma walk_step8: "sys_step walk_tasks walk_triggers 30 walk7 walk8"
  using sys_step.step_claim [of walk7 "Uuid 51" 30 "\<lambda>_. False" "Uuid 61" 14 _ _ walk_tasks walk_triggers]
  by (simp add: walk_defs walk_claim2 worker_claims_def tokens_in_use_def)

lemma walk_step9: "sys_step walk_tasks walk_triggers 30 walk8 walk9"
  using sys_step.step_begin [of walk8 "Uuid 51" walk_held2 False 15 _ _ walk_tasks walk_triggers 30]
  by (simp add: walk_defs walk_begin2)

section \<open>The states are reachable\<close>

lemma reachable_step:
  "reachable task_reg trigger_reg lease s \<Longrightarrow> sys_step task_reg trigger_reg lease s s' \<Longrightarrow>
     reachable task_reg trigger_reg lease s'"
  unfolding reachable_def by (rule rtranclp.rtrancl_into_rtrancl)

lemma reachable_initial: "reachable task_reg trigger_reg lease initial_system"
  by (simp add: reachable_def)

lemmas walk1_reachable = reachable_step [OF reachable_initial walk_step1]
lemmas walk2_reachable = reachable_step [OF walk1_reachable walk_step2]
lemmas walk3_reachable = reachable_step [OF walk2_reachable walk_step3]
lemmas walk4_reachable = reachable_step [OF walk3_reachable walk_step4]
lemmas walk5_reachable = reachable_step [OF walk4_reachable walk_step5]
lemmas walk6_reachable = reachable_step [OF walk5_reachable walk_step6]
lemmas walk7_reachable = reachable_step [OF walk6_reachable walk_step7]
lemmas walk8_reachable = reachable_step [OF walk7_reachable walk_step8]
lemmas walk9_reachable = reachable_step [OF walk8_reachable walk_step9]

lemma walk_rows [simp]:
  "t_id walk_extract = Uuid 11" "t_status walk_extract = Completed" "t_parent_task_ids walk_extract = []"
  "t_id walk_load = Uuid 12" "t_status walk_load = Running" "t_parent_task_ids walk_load = [Uuid 11]"
  "t_workflow_execution_id walk_load = Uuid 10" "t_workflow_execution_id walk_extract = Uuid 10"
  "t_plugin_type walk_load = ''collect_inputs''" "t_configuration walk_load = []"
  "t_plugin_type walk_extract = ''produce_value''" "t_configuration walk_extract = [(''value'', JInt 7)]"
  "t_key walk_extract = ''extract''" "t_key walk_load = ''load''" "t_output walk_extract = Some [(''value'', JInt 7)]"
  by (simp_all add: walk_extract_def walk_load_def extract_row_def load_row_def)

lemma walk_tables [simp]:
  "task_executions (walk_db rows) = rows" "workflow_executions (walk_db rows) = [walk_workflow]"
  "w_id walk_workflow = Uuid 10" "w_status walk_workflow = WfRunning"
  by (simp_all add: walk_db_def walk_workflow_def)

end
