(* ===== verification/Execution_Properties.thy ===== *)
theory Execution_Properties
  imports Walkthrough
begin

text \<open>
  The transitions of one task as its callers see them: what starting, completing and failing a
  running task writes and returns, how many failures a task survives, that results for a task that
  does not run are ignored, and that what is stored for an execution is read back as it was.
\<close>

lemma walk_exec_inv:
  "exec_inv db_started" "exec_inv db_running" "exec_inv db_released" "exec_inv db_loading"
  using sys_invD(1) [OF sys_inv_reachable [OF walk3_reachable]]
    sys_invD(1) [OF sys_inv_reachable [OF walk5_reachable]]
    sys_invD(1) [OF sys_inv_reachable [OF walk7_reachable]]
    sys_invD(1) [OF sys_inv_reachable [OF walk9_reachable]]
  by (simp_all add: walk_defs)

section \<open>Starting\<close>

text \<open>
  Starting a task. For a task that runs already or waits for no parent, the first transaction
  of its processing never raises: it commits status \<open>RUNNING\<close> with the start time if the task was
  pending (a running task is resumed as it is), changes no other row, and returns the stored type
  and configuration with the outputs of all parents.
\<close>

lemma start_task_effect:
  assumes "exec_inv db" "t \<in> set (task_executions db)"
    "t_status t = Running
     \<or> t_status t = Pending \<and> (\<forall>p \<in> set (t_parent_task_ids t). completed (task_executions db) p)"
  shows "service_start_task (t_id t) now db =
     (db\<lparr>task_executions := map (\<lambda>u. if u = t \<and> t_status t = Pending
            then t\<lparr>t_status := Running, t_started_at := Some now\<rparr> else u) (task_executions db)\<rparr>,
      Inr (Some \<lparr>sres_plugin_type = t_plugin_type t, sres_configuration = t_configuration t,
        sres_parent_outputs = map (\<lambda>p. (t_key p, \<lparr>output_values = the (t_output p)\<rparr>))
          (filter (\<lambda>u. t_id u \<in> set (t_parent_task_ids t)) (task_executions db))\<rparr>))"
proof -
  have "startable (task_executions db) t" using assms(3) by (auto simp: startable_def ready_def)
  moreover have "map (start_row (t_id t) now) (task_executions db) =
      map (\<lambda>u. if u = t \<and> t_status t = Pending
            then t\<lparr>t_status := Running, t_started_at := Some now\<rparr> else u) (task_executions db)"
    using same_id_same_row [OF exec_invD(4) [OF assms(1)] _ assms(2)]
    by (intro map_cong refl) (auto simp: start_row_def)
  ultimately show ?thesis
    using service_start_ok [OF assms(1,2), of now] by (simp add: parent_rows_def select_where_def)
qed

section \<open>Completing\<close>

lemma completion_table:
  assumes inv: "exec_inv db" and r: "r \<in> set (task_executions db)" "t_id r = creq_task_execution_id request"
    "t_status r = Running"
  shows "task_executions (fst (complete_task request db)) = completion_rows request r (task_executions db)"
    and "\<exists>closed. snd (complete_task request db) =
      Inr \<lparr>cres_runnable_task_execution_ids =
             filter (becomes_runnable (map (complete_row request) (task_executions db))) (t_child_task_ids r),
           cres_workflow_completed = closed\<rparr>"
proof -
  note parts = exec_invD [OF inv]
  have children: "distinct (t_child_task_ids r)" using parts(1) r(1) by (simp add: graph_ok_def mirrored_def)
  note active = complete_task_active [OF parts(4) r children]
  show "task_executions (fst (complete_task request db)) = completion_rows request r (task_executions db)"
    by (simp add: active(1) completion_rows_def)
  show "\<exists>closed. snd (complete_task request db) =
      Inr \<lparr>cres_runnable_task_execution_ids =
             filter (becomes_runnable (map (complete_row request) (task_executions db))) (t_child_task_ids r),
           cres_workflow_completed = closed\<rparr>"
    by (rule active(2))
qed

lemma runnable_after_completion:
  assumes inv: "exec_inv db" and r: "r \<in> set (task_executions db)" "t_id r = creq_task_execution_id request"
    "t_status r = Running"
  shows "i \<in> set (filter (becomes_runnable (map (complete_row request) (task_executions db))) (t_child_task_ids r))
     \<longleftrightarrow> (\<exists>t \<in> set (completion_rows request r (task_executions db)). t_id t = i \<and> t_status t = Pending
            \<and> creq_task_execution_id request \<in> set (t_parent_task_ids t)
            \<and> ready (completion_rows request r (task_executions db)) t)" (is "?L \<longleftrightarrow> ?R")
proof -
  let ?ts = "task_executions db" and ?us = "completion_rows request r (task_executions db)"
  note parts = exec_invD [OF inv]
  have prog: "progress_ok ?us"
    using exec_invD(2) [OF exec_inv_complete [OF inv]] completion_table(1) [OF inv r] by metis
  have child: "t_id t \<in> set (t_child_task_ids r) \<longleftrightarrow> t_id r \<in> set (t_parent_task_ids t)" if "t \<in> set ?ts" for t
    using parent_child_iff [OF parts(1) r(1) that] by simp
  show ?thesis
  proof
    assume ?L
    then obtain t where t: "t \<in> set ?ts" "t_id t = i" "t_status (complete_row request t) = Pending"
      "t_remaining_dependencies (complete_row request t) = 1" and c: "i \<in> set (t_child_task_ids r)"
      by (auto simp: becomes_runnable_def)
    let ?u = "release_row (t_child_task_ids r) (complete_row request t)"
    have u: "?u \<in> set ?us" using t(1) by (simp add: completion_rows_def)
    have "t_remaining_dependencies ?u = 0" using t c by (simp add: release_row_def)
    moreover have pend: "t_status ?u = Pending" using t(3) by simp
    ultimately have "ready ?us ?u" using counter_zero_iff_ready [OF prog u] by blast
    moreover have "creq_task_execution_id request \<in> set (t_parent_task_ids ?u)"
      using child [OF t(1)] c t(2) r(2) by simp
    moreover have "t_id ?u = i" using t(2) by simp
    ultimately show ?R using u pend by blast
  next
    assume ?R
    then obtain u where u: "u \<in> set ?us" "t_id u = i" "t_status u = Pending"
      "creq_task_execution_id request \<in> set (t_parent_task_ids u)" "ready ?us u" by blast
    then obtain t where t: "t \<in> set ?ts" "u = release_row (t_child_task_ids r) (complete_row request t)"
      by (auto simp: completion_rows_def)
    have same: "complete_row request t = t"
      using u(3) t(2) by (auto simp: complete_row_def split: if_splits)
    have c: "t_id t \<in> set (t_child_task_ids r)" using child [OF t(1)] u(4) t(2) r(2) by simp
    have pend: "t_status t = Pending" using u(3) t(2) same by simp
    have "\<not> ready ?ts t"
    proof
      assume "ready ?ts t"
      then have "completed ?ts (t_id r)" using u(4) t(2) r(2) by (simp add: ready_def)
      then show False using completed_iff_status [OF parts(4) r(1)] r(3) by simp
    qed
    then have "t_remaining_dependencies t \<noteq> 0"
      using counter_zero_iff_ready [OF parts(2) t(1) pend] by blast
    moreover have "t_remaining_dependencies t \<ge> 0"
      using parts(2) t(1) pend by (auto simp: progress_ok_def row_ok_def)
    moreover have "t_remaining_dependencies u = 0"
      using counter_zero_iff_ready [OF prog u(1,3)] u(5) by blast
    ultimately have "t_remaining_dependencies t = 1"
      using t(2) same pend c by (simp add: release_row_def split: if_splits)
    moreover have "t_id t = i" using u(2) t(2) by simp
    ultimately show ?L using t(1) c pend same by (auto simp: becomes_runnable_def)
  qed
qed

text \<open>
  C17. Completing a running task. Its row becomes completed with the output and the time; the
  identifiers returned for enqueueing are exactly those of the pending tasks that had it as a
  parent and whose parents are now all completed; and the invariant of the tables is kept.
\<close>

theorem completing_releases_children:
  assumes "exec_inv db" "r \<in> set (task_executions db)" "t_id r = creq_task_execution_id request"
    "t_status r = Running"
  shows "\<exists>db' ids closed. complete_task request db =
       (db', Inr \<lparr>cres_runnable_task_execution_ids = ids, cres_workflow_completed = closed\<rparr>)
     \<and> exec_inv db'
     \<and> r\<lparr>t_status := Completed, t_output := Some (output_values (creq_output request)),
         t_completed_at := Some (creq_completed_at request)\<rparr> \<in> set (task_executions db')
     \<and> (\<forall>i. i \<in> set ids \<longleftrightarrow> (\<exists>t \<in> set (task_executions db'). t_id t = i \<and> t_status t = Pending
            \<and> creq_task_execution_id request \<in> set (t_parent_task_ids t)
            \<and> (\<forall>p \<in> set (t_parent_task_ids t). completed (task_executions db') p)))"
proof -
  let ?db = "fst (complete_task request db)"
  let ?ids = "filter (becomes_runnable (map (complete_row request) (task_executions db))) (t_child_task_ids r)"
  note table = completion_table [OF assms]
  obtain closed where closed: "snd (complete_task request db) =
      Inr \<lparr>cres_runnable_task_execution_ids = ?ids, cres_workflow_completed = closed\<rparr>"
    using table(2) by blast
  have "release_row (t_child_task_ids r) (complete_row request r) \<in> set (task_executions ?db)"
    unfolding table(1) completion_rows_def using assms(2) by simp
  moreover have "release_row (t_child_task_ids r) (complete_row request r) =
      r\<lparr>t_status := Completed, t_output := Some (output_values (creq_output request)),
         t_completed_at := Some (creq_completed_at request)\<rparr>"
    using assms(3,4) by (simp add: complete_row_def release_row_def)
  ultimately have row: "r\<lparr>t_status := Completed, t_output := Some (output_values (creq_output request)),
         t_completed_at := Some (creq_completed_at request)\<rparr> \<in> set (task_executions ?db)" by simp
  have ids: "\<forall>i. i \<in> set ?ids \<longleftrightarrow> (\<exists>t \<in> set (task_executions ?db). t_id t = i \<and> t_status t = Pending
      \<and> creq_task_execution_id request \<in> set (t_parent_task_ids t)
      \<and> (\<forall>p \<in> set (t_parent_task_ids t). completed (task_executions ?db) p))"
    unfolding table(1) by (rule allI) (rule runnable_after_completion [OF assms, unfolded ready_def])
  have "complete_task request db = (?db, Inr \<lparr>cres_runnable_task_execution_ids = ?ids,
      cres_workflow_completed = closed\<rparr>)"
    unfolding closed [symmetric] by simp
  from conjI [OF this conjI [OF exec_inv_complete [OF assms(1)] conjI [OF row ids]]]
  show ?thesis by (intro exI)
qed

definition walk_completion :: complete_request where
  "walk_completion = \<lparr>creq_task_execution_id = Uuid 11,
     creq_output = \<lparr>output_values = [(''value'', JInt 7)]\<rparr>, creq_completed_at = 12\<rparr>"

theorem completing_releases_children_witness:
  "\<exists>db' ids closed. complete_task walk_completion db_running =
       (db', Inr \<lparr>cres_runnable_task_execution_ids = ids, cres_workflow_completed = closed\<rparr>)
     \<and> exec_inv db'
     \<and> (extract_row Running None (Some 9) None)\<lparr>t_status := Completed,
         t_output := Some (output_values (creq_output walk_completion)),
         t_completed_at := Some (creq_completed_at walk_completion)\<rparr> \<in> set (task_executions db')
     \<and> (\<forall>i. i \<in> set ids \<longleftrightarrow> (\<exists>t \<in> set (task_executions db'). t_id t = i \<and> t_status t = Pending
            \<and> creq_task_execution_id walk_completion \<in> set (t_parent_task_ids t)
            \<and> (\<forall>p \<in> set (t_parent_task_ids t). completed (task_executions db') p)))"
  by (rule completing_releases_children [OF walk_exec_inv(2)])
    (simp_all add: db_running_def extract_row_def walk_completion_def)

text \<open>
  Late results are ignored. A result for a task that does not run (it was finished by another
  worker, or cancelled with its workflow) changes nothing: no row, no counter, no workflow status,
  and nothing is released for enqueueing.
\<close>

lemma late_results_ignored:
  assumes "\<forall>t \<in> set (task_executions db). t_id t = tid \<longrightarrow> t_status t \<noteq> Running"
  shows "service_complete_task tid out now db = (db, Inr \<lparr>pr_enqueue_task_ids = [], pr_should_retry = False\<rparr>)
     \<and> service_retry_task tid message now db = (db, Inr \<lparr>pr_enqueue_task_ids = [], pr_should_retry = False\<rparr>)"
proof -
  have "complete_task \<lparr>creq_task_execution_id = tid, creq_output = out, creq_completed_at = now\<rparr> db =
      (db, Inr \<lparr>cres_runnable_task_execution_ids = [], cres_workflow_completed = False\<rparr>)"
    by (rule complete_task_inactive) (use assms in simp)
  moreover have "retry_task \<lparr>rreq_task_execution_id = tid, rreq_error_message = message, rreq_completed_at = now\<rparr> db =
      (db, Inr \<lparr>rres_should_retry = False, rres_workflow_failed = False\<rparr>)"
    by (rule retry_task_inactive) (use assms in simp)
  ultimately show ?thesis by (simp add: service_complete_eq service_retry_eq Let_def)
qed

section \<open>Failing\<close>

text \<open>Failures of one task, reported one after the other; the answers tell whether to run it again.\<close>

fun report_failures :: "retry_request list \<Rightarrow> database \<Rightarrow> database \<times> bool list" where
  "report_failures [] db = (db, [])"
| "report_failures (request # requests) db =
     (case retry_task request db of
        (db', Inl e) \<Rightarrow> (db', [])
      | (db', Inr r) \<Rightarrow>
          (case report_failures requests db' of (db'', answers) \<Rightarrow> (db'', rres_should_retry r # answers)))"

lemma retry_again_row:
  assumes "r \<in> set (task_executions db)" "t_id r = rreq_task_execution_id request" "t_status r = Running"
    "t_remaining_tries r > 1"
  shows "r\<lparr>t_remaining_tries := t_remaining_tries r - 1, t_error_message := rreq_error_message request,
           t_completed_at := None\<rparr> \<in> set (map (retry_row request) (task_executions db))"
  unfolding set_map
  by (rule image_eqI [OF _ assms(1)]) (use assms in \<open>simp add: retry_row_def\<close>)

lemma failures_bounded:
  assumes "exec_inv db" "r \<in> set (task_executions db)" "t_id r = tid" "t_status r = Running"
    "t_workflow_execution_id r = wid" "t_remaining_tries r = int (Suc n)" "length requests = Suc n"
    "\<forall>q \<in> set requests. rreq_task_execution_id q = tid"
  shows "\<exists>db'. report_failures requests db = (db', replicate n True @ [False]) \<and> exec_inv db'
     \<and> (\<exists>u \<in> set (task_executions db'). t_id u = tid \<and> t_status u = Failed)
     \<and> (\<exists>w \<in> set (workflow_executions db'). w_id w = wid \<and> w_status w = WfFailed)"
  using assms
proof (induction n arbitrary: db r requests)
  case 0
  then obtain request where req: "requests = [request]" "rreq_task_execution_id request = tid"
    by (auto simp: length_Suc_conv)
  note parts = exec_invD [OF 0(1)]
  have running: "workflow_running db wid"
    using running_task_running_workflow [OF parts(3) 0(2,4)] 0(5) by simp
  note last = retry_task_last [OF parts(4,5) 0(2) _ 0(4), of request, unfolded 0(5), OF _ _ running]
  have eq: "retry_task request db =
      (db\<lparr>task_executions := map (cancel_row wid (rreq_completed_at request)) (map (retry_row request) (task_executions db)),
          workflow_executions := map (fail_workflow_row wid (rreq_completed_at request)) (workflow_executions db)\<rparr>,
       Inr \<lparr>rres_should_retry = False, rres_workflow_failed = True\<rparr>)" (is "_ = (?db, _)")
    by (rule last) (use 0 req in simp_all)
  have inv: "exec_inv ?db" using exec_inv_retry [OF 0(1), of request] eq by simp
  let ?r = "cancel_row wid (rreq_completed_at request) (retry_row request r)"
  have "?r \<in> set (task_executions ?db)" using 0(2) by simp
  moreover have "t_status ?r = Failed" using 0 req by (simp add: retry_row_def cancel_row_def)
  moreover have "t_id ?r = tid" using 0(3) by simp
  ultimately have task: "\<exists>u \<in> set (task_executions ?db). t_id u = tid \<and> t_status u = Failed" by blast
  obtain w where "w \<in> set (workflow_executions db)" "w_id w = wid" "w_status w = WfRunning"
    using running by (auto simp: workflow_running_def)
  then have "fail_workflow_row wid (rreq_completed_at request) w \<in> set (workflow_executions ?db)"
    "w_status (fail_workflow_row wid (rreq_completed_at request) w) = WfFailed"
    "w_id (fail_workflow_row wid (rreq_completed_at request) w) = wid"
    by (simp_all, simp add: fail_workflow_row_def)
  then have wf: "\<exists>w \<in> set (workflow_executions ?db). w_id w = wid \<and> w_status w = WfFailed" by blast
  have "report_failures requests db = (?db, replicate 0 True @ [False])"
    by (simp only: req(1) report_failures.simps eq prod.case sum.case retry_result.simps) simp
  from conjI [OF this conjI [OF inv conjI [OF task wf]]] show ?case by (rule exI)
next
  case (Suc n)
  then obtain request rest where req: "requests = request # rest" "rreq_task_execution_id request = tid"
    "length rest = Suc n" "\<forall>q \<in> set rest. rreq_task_execution_id q = tid"
    by (auto simp: length_Suc_conv)
  note parts = exec_invD [OF Suc.prems(1)]
  have more: "t_remaining_tries r > 1" using Suc.prems(6) by simp
  have eq: "retry_task request db = (db\<lparr>task_executions := map (retry_row request) (task_executions db)\<rparr>,
      Inr \<lparr>rres_should_retry = True, rres_workflow_failed = False\<rparr>)" (is "_ = (?db, _)")
    by (rule retry_task_again [OF parts(4) Suc.prems(2) _ Suc.prems(4) more]) (use Suc.prems req in simp)
  let ?r = "r\<lparr>t_remaining_tries := t_remaining_tries r - 1, t_error_message := rreq_error_message request,
           t_completed_at := None\<rparr>"
  have inv: "exec_inv ?db" using exec_inv_retry [OF Suc.prems(1), of request] eq by simp
  have r: "?r \<in> set (task_executions ?db)"
    using retry_again_row [OF Suc.prems(2) _ Suc.prems(4) more, of request] Suc.prems(3) req(2) by simp
  have "\<exists>db'. report_failures rest ?db = (db', replicate n True @ [False]) \<and> exec_inv db'
     \<and> (\<exists>u \<in> set (task_executions db'). t_id u = tid \<and> t_status u = Failed)
     \<and> (\<exists>w \<in> set (workflow_executions db'). w_id w = wid \<and> w_status w = WfFailed)"
    by (rule Suc.IH [OF inv r]) (use Suc.prems req in simp_all)
  then show ?case by (auto simp: req(1) eq)
qed

text \<open>
  C18. Retries are bounded. A running task with \<open>n\<close> tries left is run again after each of the first
  \<open>n - 1\<close> failures and not after the \<open>n\<close>-th, which marks it failed and fails its workflow.
\<close>

theorem retries_bounded:
  assumes "exec_inv db" "r \<in> set (task_executions db)" "t_id r = tid" "t_status r = Running"
    "length requests = nat (t_remaining_tries r)" "\<forall>q \<in> set requests. rreq_task_execution_id q = tid"
  shows "\<exists>db'. report_failures requests db = (db', replicate (length requests - 1) True @ [False]) \<and> exec_inv db'
     \<and> (\<exists>u \<in> set (task_executions db'). t_id u = tid \<and> t_status u = Failed)
     \<and> (\<exists>w \<in> set (workflow_executions db'). w_id w = t_workflow_execution_id r \<and> w_status w = WfFailed)"
proof -
  have "t_remaining_tries r > 0"
    using exec_invD(2) [OF assms(1)] assms(2,4) by (auto simp: progress_ok_def row_ok_def)
  then obtain n where n: "t_remaining_tries r = int (Suc n)" by (metis zero_less_imp_eq_int gr0_conv_Suc)
  then have "length requests = Suc n" using assms(5) by simp
  with failures_bounded [OF assms(1-4) refl n this assms(6)] show ?thesis by simp
qed

theorem retries_bounded_witness:
  "\<exists>db'. report_failures
       [\<lparr>rreq_task_execution_id = Uuid 11, rreq_error_message = Some ''first'', rreq_completed_at = 20\<rparr>,
        \<lparr>rreq_task_execution_id = Uuid 11, rreq_error_message = Some ''second'', rreq_completed_at = 30\<rparr>] db_running =
       (db', replicate (2 - 1) True @ [False]) \<and> exec_inv db'
     \<and> (\<exists>u \<in> set (task_executions db'). t_id u = Uuid 11 \<and> t_status u = Failed)
     \<and> (\<exists>w \<in> set (workflow_executions db').
           w_id w = t_workflow_execution_id (extract_row Running None (Some 9) None) \<and> w_status w = WfFailed)"
  using retries_bounded [OF walk_exec_inv(2), of "extract_row Running None (Some 9) None" "Uuid 11"
      "[\<lparr>rreq_task_execution_id = Uuid 11, rreq_error_message = Some ''first'', rreq_completed_at = 20\<rparr>,
        \<lparr>rreq_task_execution_id = Uuid 11, rreq_error_message = Some ''second'', rreq_completed_at = 30\<rparr>]"]
  by (simp add: db_running_def extract_row_def)

text \<open>
  C19. The last failure ends the workflow. When a running task with one try left fails, one
  transaction marks it failed with its message, marks the workflow failed, cancels every task of
  the workflow that is pending or running, and touches no other row; the caller is told not to
  retry.
\<close>

theorem last_failure_effect:
  assumes "exec_inv db" "r \<in> set (task_executions db)" "t_id r = rreq_task_execution_id request"
    "t_status r = Running" "t_remaining_tries r = 1"
  shows "retry_task request db =
     (db\<lparr>task_executions := map (\<lambda>t.
            if t = r then t\<lparr>t_remaining_tries := 0, t_status := Failed,
               t_error_message := rreq_error_message request, t_completed_at := Some (rreq_completed_at request)\<rparr>
            else if t_workflow_execution_id t = t_workflow_execution_id r \<and> \<not> terminal_task (t_status t)
            then t\<lparr>t_status := Cancelled, t_completed_at := Some (rreq_completed_at request)\<rparr>
            else t) (task_executions db),
         workflow_executions := map (\<lambda>w.
            if w_id w = t_workflow_execution_id r
            then w\<lparr>w_status := WfFailed, w_completed_at := Some (rreq_completed_at request)\<rparr> else w)
              (workflow_executions db)\<rparr>,
      Inr \<lparr>rres_should_retry = False, rres_workflow_failed = True\<rparr>)"
proof -
  let ?wid = "t_workflow_execution_id r" and ?at = "rreq_completed_at request"
  note parts = exec_invD [OF assms(1)]
  have running: "workflow_running db ?wid" by (rule running_task_running_workflow [OF parts(3) assms(2,4)])
  have one: "t = r" if "t \<in> set (task_executions db)" "t_id t = rreq_task_execution_id request" for t
    using same_id_same_row [OF parts(4) that(1) assms(2)] that(2) assms(3) by simp
  have tasks: "cancel_row ?wid ?at (retry_row request t) =
      (if t = r then t\<lparr>t_remaining_tries := 0, t_status := Failed,
               t_error_message := rreq_error_message request, t_completed_at := Some (rreq_completed_at request)\<rparr>
       else if t_workflow_execution_id t = ?wid \<and> \<not> terminal_task (t_status t)
       then t\<lparr>t_status := Cancelled, t_completed_at := Some ?at\<rparr> else t)"
    if "t \<in> set (task_executions db)" for t
  proof (cases "t = r")
    case True
    then show ?thesis using assms(3-5) by (simp add: cancel_row_def retry_row_def)
  next
    case False
    then have "retry_row request t = t" using one [OF that] by (auto simp: retry_row_def)
    then show ?thesis using False not_terminal_task_iff [of "t_status t"] by (simp add: cancel_row_def)
  qed
  have wf: "fail_workflow_row ?wid ?at w =
      (if w_id w = ?wid then w\<lparr>w_status := WfFailed, w_completed_at := Some ?at\<rparr> else w)"
    if "w \<in> set (workflow_executions db)" for w
  proof -
    obtain v where v: "v \<in> set (workflow_executions db)" "w_id v = ?wid" "w_status v = WfRunning"
      using running by (auto simp: workflow_running_def)
    have "w = v" if "w_id w = ?wid"
      using distinct_key_eq [OF parts(5) \<open>w \<in> set (workflow_executions db)\<close> v(1)] v(2) that by simp
    then show ?thesis using v(3) by (auto simp: fail_workflow_row_def)
  qed
  have tasks_eq: "map (cancel_row ?wid ?at) (map (retry_row request) (task_executions db)) =
      map (\<lambda>t. if t = r then t\<lparr>t_remaining_tries := 0, t_status := Failed,
               t_error_message := rreq_error_message request, t_completed_at := Some (rreq_completed_at request)\<rparr>
       else if t_workflow_execution_id t = ?wid \<and> \<not> terminal_task (t_status t)
       then t\<lparr>t_status := Cancelled, t_completed_at := Some ?at\<rparr> else t) (task_executions db)"
    unfolding map_map comp_def by (rule map_cong [OF refl tasks])
  have wfs_eq: "map (fail_workflow_row ?wid ?at) (workflow_executions db) =
      map (\<lambda>w. if w_id w = ?wid then w\<lparr>w_status := WfFailed, w_completed_at := Some ?at\<rparr> else w) (workflow_executions db)"
    by (rule map_cong [OF refl wf])
  show ?thesis
    unfolding retry_task_last [OF parts(4,5) assms(2-5) running] by (simp only: tasks_eq wfs_eq)
qed

theorem last_failure_effect_witness:
  "\<exists>db'. retry_task \<lparr>rreq_task_execution_id = Uuid 12, rreq_error_message = Some ''broken'', rreq_completed_at = 20\<rparr> db_loading =
       (db', Inr \<lparr>rres_should_retry = False, rres_workflow_failed = True\<rparr>)
     \<and> map t_status (task_executions db') = [Completed, Failed] \<and> map w_status (workflow_executions db') = [WfFailed]"
  using last_failure_effect [OF walk_exec_inv(4), of walk_load
      "\<lparr>rreq_task_execution_id = Uuid 12, rreq_error_message = Some ''broken'', rreq_completed_at = 20\<rparr>"]
  by (simp add: db_loading_def walk_load_def load_row_def walk_extract_def extract_row_def)

end
