(* ===== verification/Draining.thy ===== *)
theory Draining
  imports Runtime_Loops Execution_Properties
begin

text \<open>
  A single worker left alone with the queue: as long as every task that can run is queued and no
  lease is live, each round of its loop that finds an entry uses up a try or takes an entry away
  for good, and nothing that becomes runnable is forgotten. After enough rounds the queue is empty
  and every workflow has ended.
\<close>

section \<open>What processing an entry leaves to do\<close>

definition open_ids :: "task_row list \<Rightarrow> uuid set" where
  "open_ids ts = t_id ` set (filter (\<lambda>t. \<not> terminal_task (t_status t)) ts)"

definition runnable_in :: "task_row list \<Rightarrow> uuid set" where
  "runnable_in ts = t_id ` set (filter (\<lambda>t. t_status t = Pending \<and> t_remaining_dependencies t = 0) ts)"

lemma open_ids_eq: "open_ids ts = {t_id t | t. t \<in> set ts \<and> \<not> terminal_task (t_status t)}"
  by (auto simp: open_ids_def)

lemma runnable_in_eq:
  "runnable_in ts = {t_id t | t. t \<in> set ts \<and> t_status t = Pending \<and> t_remaining_dependencies t = 0}"
  by (auto simp: runnable_in_def)

lemma runnable_open: "runnable_in ts \<subseteq> open_ids ts"
  by (auto simp: runnable_in_eq open_ids_eq)

lemma open_ids_map:
  assumes "\<And>t. t_id (f t) = t_id t" "\<And>t. terminal_task (t_status t) \<Longrightarrow> terminal_task (t_status (f t))"
  shows "open_ids (map f ts) \<subseteq> open_ids ts"
  using assms by (auto simp: open_ids_eq)

lemma finished_not_open: "distinct (task_ids ts) \<Longrightarrow> finished ts i \<Longrightarrow> i \<notin> open_ids ts"
  unfolding finished_def open_ids_eq using same_id_same_row by blast

lemma runnable_in_map:
  assumes "\<And>t. t_id (f t) = t_id t"
    and "\<And>t. t_status (f t) = Pending \<Longrightarrow> t_status t = Pending \<and> t_remaining_dependencies (f t) = t_remaining_dependencies t"
  shows "runnable_in (map f ts) \<subseteq> runnable_in ts"
  using assms by (force simp: runnable_in_eq)

definition work_of :: "task_row list \<Rightarrow> nat" where
  "work_of ts = sum_list (map task_work ts)"

lemma work_of_map: "less_work f \<Longrightarrow> work_of (map f ts) \<le> work_of ts"
  unfolding work_of_def less_work_def by (simp add: sum_list_mono comp_def)

lemma work_of_map_less:
  assumes f: "less_work f" and r: "r \<in> set ts" "task_work (f r) < task_work r"
  shows "work_of (map f ts) < work_of ts"
proof -
  obtain xs ys where split: "ts = xs @ r # ys" using r(1) by (meson split_list)
  have "work_of (map f zs) \<le> work_of zs" for zs by (rule work_of_map [OF f])
  from this [of xs] this [of ys] show ?thesis using r(2) by (simp add: split work_of_def)
qed

lemma terminal_rows:
  "terminal_task (t_status t) \<Longrightarrow> start_row tid now t = t"
  "terminal_task (t_status t) \<Longrightarrow> complete_row creq t = t"
  "terminal_task (t_status t) \<Longrightarrow> release_row cs t = t"
  "terminal_task (t_status t) \<Longrightarrow> retry_row rreq t = t"
  "terminal_task (t_status t) \<Longrightarrow> cancel_row wid at t = t"
  by (auto simp: start_row_def complete_row_def release_row_def retry_row_def cancel_row_def)

text \<open>A result of a running task, persisted.\<close>

lemma success_effect:
  assumes inv: "exec_inv db" and r: "r \<in> set (task_executions db)" "t_id r = tid" "t_status r = Running"
    and p: "persist_result tid now res db = (db', Inr pr)" and success: "result_succeeded res"
  shows "runnable_in (task_executions db') \<subseteq> runnable_in (task_executions db) \<union> set (pr_enqueue_task_ids pr)"
    and "set (pr_enqueue_task_ids pr) \<subseteq> open_ids (task_executions db')"
    and "open_ids (task_executions db') \<subseteq> open_ids (task_executions db)"
    and "\<not> pr_should_retry pr"
proof -
  let ?request = "\<lparr>creq_task_execution_id = tid, creq_output = result_output res, creq_completed_at = now\<rparr>"
  let ?ts = "task_executions db"
  let ?us = "completion_rows ?request r ?ts"
  let ?ids = "filter (becomes_runnable (map (complete_row ?request) ?ts)) (t_child_task_ids r)"
  have id: "t_id r = creq_task_execution_id ?request" using r(2) by simp
  note table = completion_table [OF inv r(1) id r(3)]
  have db': "task_executions db' = ?us" and ids: "pr_enqueue_task_ids pr = ?ids"
    and "\<not> pr_should_retry pr"
    using p success table by (auto simp: persist_result_def service_complete_eq Let_def)
  then show "\<not> pr_should_retry pr" by simp
  show "set (pr_enqueue_task_ids pr) \<subseteq> open_ids (task_executions db')"
  proof
    fix i assume "i \<in> set (pr_enqueue_task_ids pr)"
    then obtain t where "t \<in> set ?us" "t_id t = i" "t_status t = Pending"
      using runnable_after_completion [OF inv r(1) id r(3), of i] ids by auto
    then show "i \<in> open_ids (task_executions db')" unfolding db' open_ids_eq by force
  qed
  show "runnable_in (task_executions db') \<subseteq> runnable_in ?ts \<union> set (pr_enqueue_task_ids pr)"
  proof
    fix i assume "i \<in> runnable_in (task_executions db')"
    then obtain t where t: "t \<in> set ?ts" "t_id t = i" "t_status (release_row (t_child_task_ids r) (complete_row ?request t)) = Pending"
      "t_remaining_dependencies (release_row (t_child_task_ids r) (complete_row ?request t)) = 0"
      unfolding db' runnable_in_eq completion_rows_def by auto
    have same: "complete_row ?request t = t" using t(3) by (auto simp: complete_row_def split: if_splits)
    show "i \<in> runnable_in ?ts \<union> set (pr_enqueue_task_ids pr)"
    proof (cases "t_remaining_dependencies t = 0")
      case True
      then show ?thesis using t(1,2,3) same by (auto simp: runnable_in_eq)
    next
      case False
      then have one: "i \<in> set (t_child_task_ids r)" "t_remaining_dependencies t = 1"
        using t(2,4) same by (auto simp: release_row_def split: if_splits)
      have "t \<in> set (map (complete_row ?request) ?ts)" using t(1) same by (metis image_eqI set_map)
      then have "becomes_runnable (map (complete_row ?request) ?ts) i"
        using t(2,3) same one(2) unfolding becomes_runnable_def by auto
      then show ?thesis using one(1) by (simp add: ids)
    qed
  qed
  show "open_ids (task_executions db') \<subseteq> open_ids ?ts"
    unfolding db' completion_rows_def map_map
    by (rule open_ids_map) (simp_all add: terminal_rows)
qed

lemma failure_effect:
  assumes inv: "exec_inv db" and r: "r \<in> set (task_executions db)" "t_id r = tid" "t_status r = Running"
    and p: "persist_result tid now res db = (db', Inr pr)" and failed: "\<not> result_succeeded res"
  shows "runnable_in (task_executions db') \<subseteq> runnable_in (task_executions db)"
    and "pr_enqueue_task_ids pr = []"
    and "open_ids (task_executions db') \<subseteq> open_ids (task_executions db)"
proof -
  let ?request = "\<lparr>rreq_task_execution_id = tid, rreq_error_message = result_message res, rreq_completed_at = now\<rparr>"
  let ?ts = "task_executions db"
  note parts = exec_invD [OF inv]
  have db': "db' = fst (retry_task ?request db)" and ids: "pr_enqueue_task_ids pr = []"
    using p failed by (auto simp: persist_result_def service_retry_eq Let_def split: sum.splits)
  show "pr_enqueue_task_ids pr = []" by (rule ids)
  have rows: "t_status (retry_row ?request t) = Pending \<Longrightarrow> t_status t = Pending
      \<and> t_remaining_dependencies (retry_row ?request t) = t_remaining_dependencies t"
    "t_status (cancel_row wid at t) = Pending \<Longrightarrow> t_status t = Pending
      \<and> t_remaining_dependencies (cancel_row wid at t) = t_remaining_dependencies t" for t wid at
    by (auto simp: retry_row_def cancel_row_def split: if_splits)
  have "runnable_in (task_executions db') \<subseteq> runnable_in ?ts \<and> open_ids (task_executions db') \<subseteq> open_ids ?ts"
  proof (cases "t_remaining_tries r > 1")
    case True
    then have "task_executions db' = map (retry_row ?request) ?ts"
      using db' retry_task_again [OF parts(4) r(1) _ r(3) True, of ?request] r(2) by simp
    then show ?thesis
      using runnable_in_map [of "retry_row ?request", OF _ rows(1)] open_ids_map [of "retry_row ?request"]
      by (simp add: terminal_rows)
  next
    case False
    have "t_remaining_tries r > 0" using parts(2) r by (auto simp: progress_ok_def row_ok_def)
    with False have one: "t_remaining_tries r = 1" by simp
    have running: "workflow_running db (t_workflow_execution_id r)"
      by (rule running_task_running_workflow [OF parts(3) r(1,3)])
    let ?c = "cancel_row (t_workflow_execution_id r) now"
    have us: "task_executions db' = map ?c (map (retry_row ?request) ?ts)"
      using db' retry_task_last [OF parts(4,5) r(1) _ r(3) one running, of ?request] r(2) by simp
    have "runnable_in (map ?c (map (retry_row ?request) ?ts)) \<subseteq> runnable_in (map (retry_row ?request) ?ts)"
      by (rule runnable_in_map) (use rows(2) in simp_all)
    also have "\<dots> \<subseteq> runnable_in ?ts" by (rule runnable_in_map) (use rows(1) in simp_all)
    finally have "runnable_in (task_executions db') \<subseteq> runnable_in ?ts" unfolding us .
    moreover have "open_ids (task_executions db') \<subseteq> open_ids ?ts"
      unfolding us map_map by (rule open_ids_map) (simp_all add: terminal_rows)
    ultimately show ?thesis by simp
  qed
  then show "runnable_in (task_executions db') \<subseteq> runnable_in ?ts" "open_ids (task_executions db') \<subseteq> open_ids ?ts"
    by simp_all
qed

text \<open>
  Processing a released task whose plugin returns: the call returns, the work does not grow and
  falls when the task is to be tried again; otherwise the task is finished. What has become
  runnable is among the identifiers to enqueue.
\<close>

lemma process_effect:
  assumes inv: "exec_inv db" and rel: "known_released (task_executions db) i"
    and plugins: "plugins_return treg (task_executions db)"
  obtains db' pr where "process treg t1 t2 i db = (db', Inr pr)"
    "runnable_in (task_executions db') \<subseteq> runnable_in (task_executions db) \<union> set (pr_enqueue_task_ids pr)"
    "set (pr_enqueue_task_ids pr) \<subseteq> open_ids (task_executions db')"
    "open_ids (task_executions db') \<subseteq> open_ids (task_executions db)"
    "work_of (task_executions db') \<le> work_of (task_executions db)"
    "pr_should_retry pr \<Longrightarrow> work_of (task_executions db') < work_of (task_executions db) \<and> pr_enqueue_task_ids pr = []"
    "\<not> pr_should_retry pr \<Longrightarrow> finished (task_executions db') i"
    "plugins_return treg (task_executions db')" "exec_inv db'"
proof -
  let ?ts = "task_executions db"
  obtain db1 x where s: "service_start_task i t1 db = (db1, Inr x)" "exec_inv db1" "started (task_executions db1) i"
    "x = None \<Longrightarrow> finished (task_executions db1) i"
    by (rule service_start_spec [OF inv rel]) blast
  show thesis
  proof (cases x)
    case None
    have "\<not> startable ?ts t" if t: "t \<in> set ?ts" "t_id t = i" for t
      using service_start_ok [OF inv t(1), of t1] s(1) t(2) None by auto
    moreover obtain t where t: "t \<in> set ?ts" "t_id t = i" "t_status t = Pending \<longrightarrow> t_remaining_dependencies t = 0"
      using rel by (auto simp: known_released_def)
    ultimately have "terminal_task (t_status t)"
      using counter_zero_iff_ready [OF exec_invD(2) [OF inv] t(1)] not_terminal_task_iff
      by (auto simp: startable_def)
    then have "service_start_task i t1 db = (db, Inr None)"
      using same_id_same_row [OF exec_invD(4) [OF inv] _ t(1)] t(2)
      by (intro service_start_finished [OF inv]) metis
    then have "process treg t1 t2 i db = (db, Inr no_result)" "db1 = db"
      using s(1) by (simp_all add: process_def andThen_def ret_def)
    then show thesis
      by (intro that [of db no_result]) (use s(4) None plugins inv in \<open>simp_all add: no_result_def\<close>)
  next
    case (Some task)
    obtain t where t: "t \<in> set ?ts" "t_id t = i" "startable ?ts t"
      by (rule service_start_Some [OF inv rel s(1) [unfolded Some]])
    note ok = service_start_ok [OF inv t(1,3), of t1, unfolded t(2)]
    let ?f = "start_row i t1"
    have ts1: "task_executions db1 = map ?f ?ts" using ok s(1) by auto
    have task: "sres_plugin_type task = t_plugin_type t \<and> sres_configuration task = t_configuration t"
      using ok s(1) Some by auto
    obtain res where res: "execute_plugin treg task = Inr res"
    proof -
      have "task = \<lparr>sres_plugin_type = t_plugin_type t, sres_configuration = t_configuration t,
          sres_parent_outputs = sres_parent_outputs task\<rparr>"
        using task by (cases task) simp
      then show thesis using plugins t(1) that unfolding plugins_return_def by metis
    qed
    obtain db' pr where p: "persist_result i t2 res db1 = (db', Inr pr)"
      "\<not> pr_should_retry pr \<Longrightarrow> finished (task_executions db') i" "exec_inv db'"
      by (rule persist_result_spec [OF s(2,3)]) blast
    let ?r = "?f t"
    have r: "?r \<in> set (task_executions db1)" "t_id ?r = i" "t_status ?r = Running"
      using t ts1 by (auto simp: startable_def start_row_def)
    obtain g where g: "task_executions db' = map g (task_executions db1)" "less_work g" "task_work (g ?r) < task_work ?r"
      by (rule persist_less_work [OF s(2) r p(1)])
    have "runnable_in (task_executions db1) \<subseteq> runnable_in ?ts"
      unfolding ts1 by (rule runnable_in_map) (auto simp: start_row_def split: if_splits)
    moreover have "open_ids (task_executions db1) \<subseteq> open_ids ?ts"
      unfolding ts1 by (rule open_ids_map) (simp_all add: terminal_rows)
    moreover have "runnable_in (task_executions db') \<subseteq> runnable_in (task_executions db1) \<union> set (pr_enqueue_task_ids pr)
        \<and> set (pr_enqueue_task_ids pr) \<subseteq> open_ids (task_executions db')
        \<and> open_ids (task_executions db') \<subseteq> open_ids (task_executions db1)"
      using success_effect [OF s(2) r p(1)] failure_effect [OF s(2) r p(1)] by (cases "result_succeeded res") auto
    moreover have "pr_should_retry pr \<Longrightarrow> pr_enqueue_task_ids pr = []"
      using success_effect(4) [OF s(2) r p(1)] failure_effect(2) [OF s(2) r p(1)] by (cases "result_succeeded res") auto
    moreover have "work_of (task_executions db') < work_of (task_executions db1)"
      unfolding g(1) by (rule work_of_map_less [OF g(2) r(1) g(3)])
    moreover have "work_of (task_executions db1) \<le> work_of ?ts"
      unfolding ts1 by (rule work_of_map) (rule less_work_rows)
    moreover have "task_shape ` set (task_executions db') = task_shape ` set ?ts"
      unfolding g(1) shapes_map [OF g(2)] ts1 by (rule shapes_map) (rule less_work_rows)
    ultimately show thesis
      using p(2,3) plugins_return_shapes [OF plugins]
      by (intro that [of db' pr]) (auto simp: process_def andThen_def ret_def s(1) Some res p(1))
  qed
qed

section \<open>The queue in the hands of one worker\<close>

lemma claimable_later: "claimable t e \<Longrightarrow> t \<le> u \<Longrightarrow> claimable u e"
  by (auto simp: claimable_def split: option.splits)

definition all_claimable :: "datetime \<Rightarrow> queue_table \<Rightarrow> bool" where
  "all_claimable t q \<longleftrightarrow> (\<forall>e \<in> set q. claimable t e)"

definition claimable_but :: "uuid \<Rightarrow> datetime \<Rightarrow> queue_table \<Rightarrow> bool" where
  "claimable_but i t q \<longleftrightarrow> (\<forall>e \<in> set q. qe_task_execution_id e \<noteq> i \<longrightarrow> claimable t e)"

lemma claim_all_claimable:
  assumes "all_claimable t q" "t \<le> now - lease" "q \<noteq> []"
  obtains q1 c where "claim lease (\<lambda>_. False) w token now q = (q1, Some c)"
    "claimable_but (cl_task_execution_id c) t q1"
proof -
  obtain q1 mc where cl: "claim lease (\<lambda>_. False) w token now q = (q1, mc)" by fastforce
  obtain c where c: "mc = Some c"
  proof (cases mc)
    case None
    with claim_NoneD [of lease "\<lambda>_. False" w token now q q1] cl assms(1,2) have "hd q \<notin> set q"
      unfolding all_claimable_def using claimable_later by blast
    then show thesis using assms(3) by simp
  qed (rule that)
  have "claimable_but (cl_task_execution_id c) t q1"
    by (rule claim_SomeD [OF cl [unfolded c]])
      (use assms(1) in \<open>auto simp: all_claimable_def claimable_but_def set_update_where split: if_splits\<close>)
  then show thesis using that cl c by blast
qed

lemma heartbeats_owned:
  assumes "queue_inv q" "pg.owns q c" "\<forall>h \<in> set hbs. hr_raises h = None"
    "claimable_but (cl_task_execution_id c) t q"
  shows "\<exists>q2. heartbeat_loop c hbs q = (q2, False) \<and> queue_inv q2 \<and> queue_leases q2 = queue_leases q
     \<and> claimable_but (cl_task_execution_id c) t q2"
  using assms
proof (induction hbs arbitrary: q)
  case (Cons h hbs)
  obtain q' owned where hb: "heartbeat c (hr_at h) q = (q', owned)" by fastforce
  have q': "queue_inv q'" "queue_leases q' = queue_leases q" "owned"
    using pg.inv_heartbeat [OF Cons.prems(1), of c "hr_at h"] pg.heartbeat_leases [OF Cons.prems(1), of c "hr_at h"]
      pg.heartbeat_result [OF Cons.prems(1), of c "hr_at h"] Cons.prems(2) hb by (simp_all add: pg.owns_def)
  have "claimable_but (cl_task_execution_id c) t q'"
    using Cons.prems(4) hb
    by (auto simp: heartbeat_def claimable_but_def set_update_where held_by_def split: if_splits)
  from Cons.IH [OF q'(1) _ _ this] q' Cons.prems(2,3) show ?case using hb by (auto simp: pg.owns_def)
qed simp

lemma claimable_inserted: "all_claimable t q \<Longrightarrow> all_claimable t (insert_on_conflict_do_nothing at ids q)"
proof (induction ids arbitrary: q)
  case (Cons i ids)
  let ?e = "\<lparr>qe_task_execution_id = i, qe_claim_token = None, qe_claimed_by = None,
      qe_queued_at = at, qe_claimed_at = None, qe_last_heartbeat = None\<rparr>"
  have "all_claimable t (q @ [?e])" using Cons.prems by (auto simp: all_claimable_def claimable_def)
  then show ?case using Cons by simp
qed simp

lemma claimable_entries: "all_claimable t q \<Longrightarrow> all_claimable t (insert_queue_entries ids at q)"
  by (simp add: insert_queue_entries_def claimable_inserted)

lemma settled_claimable:
  assumes inv: "queue_inv q" and owns: "pg.owns q c" and but: "claimable_but (cl_task_execution_id c) t q"
  shows "all_claimable t (worker_settles now c False pr q)"
proof -
  have held: "held_by c e" if "e \<in> set q" "qe_task_execution_id e = cl_task_execution_id c" for e
  proof -
    have "queue_leases q (qe_task_execution_id e) = Some (qe_claim_token e)"
      using that inv by (auto simp: queue_leases_Some_iff)
    then show ?thesis using owns that(2) by (simp add: pg.owns_def held_by_def)
  qed
  have "all_claimable t (delete_where (held_by c) q)"
    using held but by (auto simp: claimable_but_def all_claimable_def)
  then have "all_claimable t (finish c (pr_enqueue_task_ids pr) now q)"
    by (simp add: finish_def Let_def claimable_entries)
  moreover have "all_claimable t (release c q)"
    using held but
    by (auto simp: release_def claimable_but_def all_claimable_def set_update_where claimable_def split: if_splits)
  ultimately show ?thesis by (simp add: worker_settles_def)
qed

section \<open>One round\<close>

text \<open>A round in which nothing outside the worker interferes.\<close>

definition quiet_round :: "datetime \<Rightarrow> worker_round \<Rightarrow> bool" where
  "quiet_round since r \<longleftrightarrow>
     \<not> wr_stop r \<and> wr_claim_raises r = None \<and> wr_settle_raises r = None \<and> wr_locked r = (\<lambda>_. False)
     \<and> since \<le> wr_claimed_at r \<and> filter (\<lambda>h. hr_raises h \<noteq> None) (wr_heartbeats r) = []"

text \<open>Tries of open tasks, and tasks that are queued or open.\<close>

definition work_left :: "platform \<Rightarrow> nat" where
  "work_left p = (case p of (db, q) \<Rightarrow>
     work_of (task_executions db) + card (qe_task_execution_id ` set q \<union> open_ids (task_executions db)))"

text \<open>Nothing that can run is missing from the queue.\<close>

definition all_queued :: "platform \<Rightarrow> bool" where
  "all_queued p \<longleftrightarrow> (case p of (db, q) \<Rightarrow> runnable_in (task_executions db) \<subseteq> qe_task_execution_id ` set q)"

lemma finite_open [simp]: "finite (open_ids ts)"
  by (simp add: open_ids_eq)

lemma drain_round:
  assumes inv: "sys_inv s" and quiet: "quiet_round since r" and some: "sys_queue s \<noteq> []"
    and old: "all_claimable (since - lease) (sys_queue s)" and queued: "all_queued (sys_db s, sys_queue s)"
    and plugins: "plugins_return treg (sys_tasks s)"
  obtains q1 c db' q' where
    "claim lease (wr_locked r) w (wr_token r) (wr_claimed_at r) (sys_queue s) = (q1, Some c)"
    "worker_process_claim treg r c (sys_db s, q1) = ((db', q'), Inr ())"
    "all_claimable (since - lease) q'" "all_queued (db', q')" "plugins_return treg (task_executions db')"
    "work_left (db', q') < work_left (sys_db s, sys_queue s)"
proof -
  let ?q = "sys_queue s" and ?t = "since - lease"
  have r: "wr_locked r = (\<lambda>_. False)" "?t \<le> wr_claimed_at r - lease" "wr_settle_raises r = None"
    "\<forall>h \<in> set (wr_heartbeats r). hr_raises h = None"
    using quiet by (simp_all add: quiet_round_def filter_empty_conv)
  note qi = sys_invD(3) [OF inv]
  obtain q1 c where cl: "claim lease (\<lambda>_. False) w (wr_token r) (wr_claimed_at r) ?q = (q1, Some c)"
    "claimable_but (cl_task_execution_id c) ?t q1"
    by (rule claim_all_claimable [OF old r(2) some])
  let ?i = "cl_task_execution_id c"
  have c: "?i \<in> dom (queue_leases ?q)" "queue_leases q1 = (queue_leases ?q)(?i \<mapsto> Some (cl_claim_token c))"
    using pg.claim_Some [OF qi cl(1)] by simp_all
  have qi1: "queue_inv q1" using pg.inv_claim [OF qi, of lease "\<lambda>_. False" w "wr_token r" "wr_claimed_at r"] cl(1) by simp
  obtain q2 where q2: "heartbeat_loop c (wr_heartbeats r) q1 = (q2, False)" "queue_inv q2"
    "queue_leases q2 = queue_leases q1" "claimable_but ?i ?t q2"
    using heartbeats_owned [OF qi1 pg.claim_gives_ownership [OF qi cl(1)] r(4) cl(2)] by blast
  have owns: "pg.owns q2 c" using q2(3) pg.claim_gives_ownership [OF qi cl(1)] by (simp add: pg.owns_def)
  have dom2: "dom (queue_leases q2) = dom (queue_leases ?q)" using c q2(3) by (simp add: insert_absorb)
  have "known_released (sys_tasks s) ?i" using c(1) sys_invD(4) [OF inv] by (simp add: queued_def)
  then obtain db' pr where p: "process treg (wr_started_at r) (wr_completed_at r) ?i (sys_db s) = (db', Inr pr)"
    "runnable_in (task_executions db') \<subseteq> runnable_in (sys_tasks s) \<union> set (pr_enqueue_task_ids pr)"
    "set (pr_enqueue_task_ids pr) \<subseteq> open_ids (task_executions db')"
    "open_ids (task_executions db') \<subseteq> open_ids (sys_tasks s)"
    "work_of (task_executions db') \<le> work_of (sys_tasks s)"
    "pr_should_retry pr \<Longrightarrow> work_of (task_executions db') < work_of (sys_tasks s) \<and> pr_enqueue_task_ids pr = []"
    "\<not> pr_should_retry pr \<Longrightarrow> finished (task_executions db') ?i"
    "plugins_return treg (task_executions db')" "exec_inv db'"
    using process_effect [OF sys_invD(1) [OF inv] _ plugins] by metis
  let ?q' = "worker_settles (wr_settled_at r) c False pr q2"
  let ?ids = "\<lambda>q. qe_task_execution_id ` set q"
  have run: "worker_process_claim treg r c (sys_db s, q1) = ((db', ?q'), Inr ())"
    using q2(1) p(1) r(3) by (simp add: worker_process_claim_def)
  have "all_queued (db', ?q') \<and> work_left (db', ?q') < work_left (sys_db s, ?q)"
  proof (cases "pr_should_retry pr")
    case True
    then have "?ids ?q' = ?ids ?q"
      using owns pg.leases_release [OF q2(2), of c] dom2
      by (simp add: worker_settles_def dom_queue_leases [symmetric] pg.owns_def insert_absorb c(1))
    moreover have "card (?ids ?q \<union> open_ids (task_executions db')) \<le> card (?ids ?q \<union> open_ids (sys_tasks s))"
      by (rule card_mono) (use p(4) in auto)
    ultimately show ?thesis
      using p(2,6) True queued by (simp add: all_queued_def work_left_def)
  next
    case False
    then have dom': "?ids ?q' = ?ids ?q - {?i} \<union> set (pr_enqueue_task_ids pr)"
      using pg.finish_owner [OF q2(2) owns] dom2 by (simp add: worker_settles_def dom_queue_leases [symmetric])
    have i: "?i \<notin> open_ids (task_executions db')"
      using finished_not_open [OF exec_invD(4) [OF p(9)]] p(7) False by blast
    have "?ids ?q' \<union> open_ids (task_executions db') \<subset> ?ids ?q \<union> open_ids (sys_tasks s)"
      using dom' i p(3,4) c(1) by (auto simp: dom_queue_leases)
    then have "card (?ids ?q' \<union> open_ids (task_executions db')) < card (?ids ?q \<union> open_ids (sys_tasks s))"
      by (intro psubset_card_mono) simp_all
    moreover have "runnable_in (task_executions db') \<subseteq> ?ids ?q'"
      using dom' i p(2) queued runnable_open [of "task_executions db'"] by (auto simp: all_queued_def)
    ultimately show ?thesis using p(5) by (simp add: all_queued_def work_left_def)
  qed
  then show thesis
    using that [OF _ run settled_claimable [OF q2(2) owns q2(4)]] cl(1) r(1) p(8) by simp
qed

section \<open>The whole run\<close>

lemma idle_rounds:
  "\<forall>r \<in> set rounds. quiet_round since r \<Longrightarrow> worker_run treg lease w rounds (db, []) = ((db, []), Inr False)"
proof (induction rounds)
  case (Cons r rounds)
  have "claim lease (wr_locked r) w (wr_token r) (wr_claimed_at r) [] = ([], None)"
    by (simp add: claim_def select_where_def first_by_def)
  then show ?case using Cons by (simp add: quiet_round_def)
qed simp

lemma drained_already:
  assumes "sys_inv s" "sys_queue s = []" "all_queued (sys_db s, sys_queue s)" "\<forall>r \<in> set rounds. quiet_round since r"
  shows "\<exists>db'. worker_run treg lease w rounds (sys_db s, sys_queue s) = ((db', []), Inr False)
     \<and> all_queued (db', []) \<and> sys_inv (s\<lparr>sys_db := db', sys_queue := []\<rparr>)"
proof -
  have "s\<lparr>sys_db := sys_db s, sys_queue := []\<rparr> = s" using assms(2) by simp
  then have "sys_inv (s\<lparr>sys_db := sys_db s, sys_queue := []\<rparr>)" using assms(1) by (simp only:)
  then show ?thesis using idle_rounds [OF assms(4)] assms(2,3) by (intro exI [of _ "sys_db s"]) (simp only: simp_thms)
qed

lemma drained:
  assumes "sys_inv s" "sys_workers s w = Idle" "all_claimable (since - lease) (sys_queue s)"
    "all_queued (sys_db s, sys_queue s)" "plugins_return treg (sys_tasks s)"
    "\<forall>r \<in> set rounds. quiet_round since r" "distinct (map wr_token rounds)"
    "set (map wr_token rounds) \<inter> tokens_in_use s = {}"
    "work_left (sys_db s, sys_queue s) \<le> length rounds"
  shows "\<exists>db'. worker_run treg lease w rounds (sys_db s, sys_queue s) = ((db', []), Inr False)
     \<and> all_queued (db', []) \<and> sys_inv (s\<lparr>sys_db := db', sys_queue := []\<rparr>)"
  using assms
proof (induction rounds arbitrary: s)
  case Nil
  then have "sys_queue s = []" by (cases "sys_queue s") (auto simp: work_left_def)
  then show ?case by (rule drained_already [OF Nil.prems(1) _ Nil.prems(4,6)])
next
  case (Cons r rounds)
  show ?case
  proof (cases "sys_queue s = []")
    case True
    then show ?thesis by (rule drained_already [OF Cons.prems(1) _ Cons.prems(4,6)])
  next
    case False
    have quiet: "quiet_round since r" using Cons.prems(6) by simp
    have token: "wr_token r \<notin> tokens_in_use s" using Cons.prems(8) by simp
    obtain q1 c db' q' where cl: "claim lease (wr_locked r) w (wr_token r) (wr_claimed_at r) (sys_queue s) = (q1, Some c)"
      and p: "worker_process_claim treg r c (sys_db s, q1) = ((db', q'), Inr ())"
      and next_state: "all_claimable (since - lease) q'" "all_queued (db', q')" "plugins_return treg (task_executions db')"
        "work_left (db', q') < work_left (sys_db s, sys_queue s)"
      by (rule drain_round [OF Cons.prems(1) quiet False Cons.prems(3,4,5)])
    let ?s = "s\<lparr>sys_db := db', sys_queue := q'\<rparr>"
    note round = claimed_run [OF Cons.prems(2) cl token p]
    have inv: "sys_inv ?s" using run_advances [OF round(1) Cons.prems(1)] by blast
    have "tokens_in_use ?s \<subseteq> insert (wr_token r) (tokens_in_use s)"
      using round(2) by (auto simp: tokens_in_use_eq)
    moreover have "set (map wr_token rounds) \<inter> insert (wr_token r) (tokens_in_use s) = {}"
      using Cons.prems(7,8) by auto
    ultimately have tokens: "set (map wr_token rounds) \<inter> tokens_in_use ?s = {}" by blast
    have "\<exists>db''. worker_run treg lease w rounds (sys_db ?s, sys_queue ?s) = ((db'', []), Inr False)
        \<and> all_queued (db'', []) \<and> sys_inv (?s\<lparr>sys_db := db'', sys_queue := []\<rparr>)"
      by (rule Cons.IH [OF inv _ _ _ _ _ _ tokens]) (use Cons.prems next_state in simp_all)
    moreover have "worker_run treg lease w (r # rounds) (sys_db s, sys_queue s) =
        worker_run treg lease w rounds (db', q')"
      using cl p quiet by (simp add: quiet_round_def)
    moreover have "?s\<lparr>sys_db := db'', sys_queue := []\<rparr> = s\<lparr>sys_db := db'', sys_queue := []\<rparr>" for db''
      by (rule system.equality) simp_all
    ultimately show ?thesis by simp
  qed
qed

lemma nothing_left:
  assumes inv: "sys_inv s" and q: "sys_queue s = []" and queued: "all_queued (sys_db s, [])"
  shows "\<forall>wf \<in> set (workflow_executions (sys_db s)). w_status wf \<noteq> WfRunning"
    and "\<forall>t \<in> set (sys_tasks s). terminal_task (t_status t)"
proof -
  note parts = exec_invD [OF sys_invD(1) [OF inv]]
  have none: "\<not> startable (sys_tasks s) t" if t: "t \<in> set (sys_tasks s)" for t
  proof
    assume "startable (sys_tasks s) t"
    then consider "t_status t = Running" | "t_status t = Pending" "ready (sys_tasks s) t" by (auto simp: startable_def)
    then show False
    proof cases
      case 1
      then show False using sys_invD(7) [OF inv] t q by (simp add: running_queued_def queued_def dom_queue_leases)
    next
      case 2
      then have "t_id t \<in> runnable_in (sys_tasks s)"
        using counter_zero_iff_ready [OF parts(2) t] t by (auto simp: runnable_in_eq)
      then show False using queued by (auto simp: all_queued_def)
    qed
  qed
  then show ended: "\<forall>wf \<in> set (workflow_executions (sys_db s)). w_status wf \<noteq> WfRunning"
    using running_workflow_startable [OF sys_invD(1) [OF inv]] by (fastforce simp: tasks_of_def)
  show "\<forall>t \<in> set (sys_tasks s). terminal_task (t_status t)"
  proof
    fix t assume t: "t \<in> set (sys_tasks s)"
    then obtain wf where wf: "wf \<in> set (workflow_executions (sys_db s))" "t \<in> set (tasks_of (sys_tasks s) (w_id wf))"
      using parts(3) by (force simp: workflows_ok_def tasks_of_def)
    then have "workflow_ok (sys_tasks s) wf" "w_status wf \<noteq> WfRunning"
      using parts(3) ended by (simp_all add: workflows_ok_def)
    then show "terminal_task (t_status t)" using wf(2) by (cases "w_status wf") (auto simp: workflow_ok_def)
  qed
qed

section \<open>Recovery\<close>

lemma reconciled_run:
  "sys_run treg greg lease s (s\<lparr>sys_queue := enqueue (runnable_ids (sys_db s)) now (sys_queue s)\<rparr>)"
proof -
  let ?ids = "runnable_ids (sys_db s)"
  let ?s1 = "s\<lparr>sys_outbox := ?ids # sys_outbox s\<rparr>"
  let ?s2 = "?s1\<lparr>sys_queue := enqueue ?ids now (sys_queue ?s1), sys_outbox := remove1 ?ids (sys_outbox ?s1)\<rparr>"
  have "sys_run treg greg lease s ?s1" by (rule r_into_rtranclp) (rule sys_step.step_read_runnable)
  moreover have "sys_step treg greg lease ?s1 ?s2" by (rule sys_step.step_publish) simp
  ultimately have "sys_run treg greg lease s ?s2" by (rule run_step)
  moreover have "?s2 = s\<lparr>sys_queue := enqueue ?ids now (sys_queue s)\<rparr>" by (rule system.equality) simp_all
  ultimately show ?thesis by metis
qed


lemma walk_plugins_return: "plugins_return walk_tasks (sys_tasks walk9)"
  by (simp add: plugins_return_def walk9_def db_loading_def execute_plugin_def registry_get_def
      walk_tasks_def produce_value_task_def collect_inputs_task_def produce_value_execute_def
      collect_inputs_execute_def)

definition walk_rounds :: "worker_round list" where
  "walk_rounds = map (\<lambda>i. \<lparr>wr_stop = False, wr_claim_raises = None, wr_locked = (\<lambda>_. False),
     wr_token = Uuid (90 + i), wr_claimed_at = 100, wr_heartbeats = [\<lparr>hr_raises = None, hr_at = 110\<rparr>],
     wr_started_at = 105, wr_completed_at = 112, wr_settled_at = 113, wr_settle_raises = None\<rparr>) [0, 1]"


text \<open>
  From any reachable state, whatever rounds an idle worker's loop makes, the database and the queue
  it leaves are those of a reachable state.
\<close>

lemma worker_loop_reachable:
  assumes "reachable treg greg lease s" "sys_workers s w = Idle" "distinct (map wr_token rounds)"
    "\<forall>r \<in> set rounds. wr_token r \<notin> tokens_in_use s"
  shows "reachable treg greg lease
     (s\<lparr>sys_db := fst (fst (worker_run treg lease w rounds (sys_db s, sys_queue s))),
        sys_queue := snd (fst (worker_run treg lease w rounds (sys_db s, sys_queue s)))\<rparr>)"
proof -
  obtain db' q' x where run: "worker_run treg lease w rounds (sys_db s, sys_queue s) = ((db', q'), x)"
    by (metis surj_pair)
  have "set (map wr_token rounds) \<inter> tokens_in_use s = {}" using assms(4) by auto
  from worker_run_simulated [OF assms(2,3) this run, of greg] assms(1) show ?thesis
    unfolding run fst_conv snd_conv reachable_def by (rule rtranclp_trans [rotated])
qed

end
