(* ===== verification/Queue_Properties.thy ===== *)
theory Queue_Properties
  imports Execution_Queue
begin

text \<open>
  What the PostgreSQL queue promises its clients, stated on its table: what a claim takes, that a
  live lease cannot be taken away, that a stale claim changes nothing, and that it stays stale
  whatever is called afterwards. The laws come from the interpretation \<open>pg\<close> of the interface.
\<close>

section \<open>A concrete queue\<close>

definition leased_entry :: queue_entry where
  "leased_entry = \<lparr>qe_task_execution_id = Uuid 1, qe_claim_token = Some (Uuid 100),
     qe_claimed_by = Some (Uuid 7), qe_queued_at = 10, qe_claimed_at = Some 20, qe_last_heartbeat = Some 40\<rparr>"

definition expired_entry :: queue_entry where
  "expired_entry = \<lparr>qe_task_execution_id = Uuid 2, qe_claim_token = Some (Uuid 101),
     qe_claimed_by = Some (Uuid 8), qe_queued_at = 5, qe_claimed_at = Some 6, qe_last_heartbeat = Some 8\<rparr>"

definition free_entry :: queue_entry where
  "free_entry = \<lparr>qe_task_execution_id = Uuid 3, qe_claim_token = None, qe_claimed_by = None,
     qe_queued_at = 12, qe_claimed_at = None, qe_last_heartbeat = None\<rparr>"

definition sample_queue :: queue_table where
  "sample_queue = [free_entry, leased_entry, expired_entry]"

lemma sample_queue_inv: "queue_inv sample_queue"
  by (simp add: queue_inv_def sample_queue_def entry_ok_def free_entry_def leased_entry_def expired_entry_def)

definition reclaimed :: queue_claim where
  "reclaimed = \<lparr>cl_task_execution_id = Uuid 2, cl_claim_token = Uuid 200\<rparr>"

definition after_reclaim :: queue_table where
  "after_reclaim = [free_entry, leased_entry,
     \<lparr>qe_task_execution_id = Uuid 2, qe_claim_token = Some (Uuid 200), qe_claimed_by = Some (Uuid 9),
      qe_queued_at = 5, qe_claimed_at = Some 50, qe_last_heartbeat = Some 50\<rparr>]"

lemma sample_claim:
  "claim 30 (\<lambda>_. False) (Uuid 9) (Uuid 200) 50 sample_queue = (after_reclaim, Some reclaimed)"
  by code_simp

section \<open>What a claim takes\<close>

text \<open>
  C14. A claim takes the entry that has waited longest among those that are unclaimed or whose
  last heartbeat is at least the lease timeout ago, skipping rows other transactions have locked;
  it writes the worker, the token and both times into that entry and leaves all others alone. With
  no such entry it changes nothing.
\<close>

theorem claim_takes_oldest:
  assumes "claim timeout locked worker token now q = (q', r)"
  shows "case r of
       None \<Rightarrow> q' = q \<and> (\<forall>e \<in> set q. claimable (now - timeout) e \<longrightarrow> locked (qe_task_execution_id e))
     | Some c \<Rightarrow> \<exists>e \<in> set q. claimable (now - timeout) e \<and> \<not> locked (qe_task_execution_id e)
         \<and> (\<forall>d \<in> set q. claimable (now - timeout) d \<and> \<not> locked (qe_task_execution_id d) \<longrightarrow>
              qe_queued_at e \<le> qe_queued_at d)
         \<and> c = \<lparr>cl_task_execution_id = qe_task_execution_id e, cl_claim_token = token\<rparr>
         \<and> q' = map (\<lambda>d. if qe_task_execution_id d = qe_task_execution_id e
                         then d\<lparr>qe_claimed_by := Some worker, qe_claim_token := Some token,
                                qe_claimed_at := Some now, qe_last_heartbeat := Some now\<rparr> else d) q"
proof (cases r)
  case None
  show ?thesis using claim_NoneD [OF assms [unfolded None]] by (simp add: None)
next
  case (Some c)
  show ?thesis
    by (rule claim_SomeD [OF assms [unfolded Some]]) (auto simp: Some update_where_def)
qed

theorem claim_takes_oldest_witness:
  "case Some reclaimed of
       None \<Rightarrow> after_reclaim = sample_queue
         \<and> (\<forall>e \<in> set sample_queue. claimable (50 - 30) e \<longrightarrow> (\<lambda>_. False) (qe_task_execution_id e))
     | Some c \<Rightarrow> \<exists>e \<in> set sample_queue. claimable (50 - 30) e \<and> \<not> (\<lambda>_. False) (qe_task_execution_id e)
         \<and> (\<forall>d \<in> set sample_queue. claimable (50 - 30) d \<and> \<not> (\<lambda>_. False) (qe_task_execution_id d) \<longrightarrow>
              qe_queued_at e \<le> qe_queued_at d)
         \<and> c = \<lparr>cl_task_execution_id = qe_task_execution_id e, cl_claim_token = Uuid 200\<rparr>
         \<and> after_reclaim = map (\<lambda>d. if qe_task_execution_id d = qe_task_execution_id e
                         then d\<lparr>qe_claimed_by := Some (Uuid 9), qe_claim_token := Some (Uuid 200),
                                qe_claimed_at := Some 50, qe_last_heartbeat := Some 50\<rparr> else d) sample_queue"
  by (rule claim_takes_oldest [OF sample_claim])

text \<open>
  C15. A live lease is safe. A claim never takes an entry whose holder has sent a heartbeat less
  than the lease timeout ago.
\<close>

theorem live_lease_not_taken:
  assumes "queue_inv q" "claim timeout locked worker token now q = (q', Some c)"
    "e \<in> set q" "qe_claimed_by e = Some holder" "qe_last_heartbeat e = Some hb" "now < hb + timeout"
  shows "cl_task_execution_id c \<noteq> qe_task_execution_id e \<and> e \<in> set q'"
proof (rule claim_SomeD [OF assms(2)])
  fix d
  assume d: "d \<in> set q" "claimable (now - timeout) d"
    and c: "c = \<lparr>cl_task_execution_id = qe_task_execution_id d, cl_claim_token = token\<rparr>"
    and q': "q' = update_where (\<lambda>e. qe_task_execution_id e = qe_task_execution_id d)
       (\<lambda>e. e\<lparr>qe_claimed_by := Some worker, qe_claim_token := Some token,
              qe_claimed_at := Some now, qe_last_heartbeat := Some now\<rparr>) q"
  have "\<not> claimable (now - timeout) e" using assms(4-6) by (simp add: claimable_def)
  then have "d \<noteq> e" using d(2) by blast
  then have other: "qe_task_execution_id e \<noteq> qe_task_execution_id d"
    using assms(1,3) d(1) unfolding queue_inv_def by (metis distinct_key_eq)
  moreover have "e \<in> set q'"
    unfolding q' update_where_def set_map
    by (rule image_eqI [OF _ assms(3)]) (use other in simp)
  ultimately show ?thesis by (simp add: c)
qed

theorem live_lease_not_taken_witness:
  "cl_task_execution_id reclaimed \<noteq> qe_task_execution_id leased_entry \<and> leased_entry \<in> set after_reclaim"
  by (rule live_lease_not_taken [OF sample_queue_inv sample_claim, of _ "Uuid 7" 40])
    (simp_all add: sample_queue_def leased_entry_def)

section \<open>Stale claims\<close>

text \<open>
  A stale claim is inert. For a claim whose token no entry carries any more (its lease was
  claimed again, released or finished), a heartbeat reports that the lease is lost, and heartbeat,
  release and finish leave the whole table as it is: a worker that lost its lease enqueues nothing
  and removes nothing.
\<close>

lemma stale_claim_changes_nothing:
  assumes "\<forall>e \<in> set q. \<not> held_by c e"
  shows "heartbeat c now q = (q, False) \<and> release c q = q \<and> finish c ids now q = q"
proof -
  have none: "rowcount (held_by c) q = 0"
    using assms by (simp add: rowcount_def filter_empty_conv)
  have same: "update_where (held_by c) f q = q" for f
    using assms by (simp add: update_where_def map_idI)
  have kept: "delete_where (held_by c) q = q"
    using assms by (simp add: delete_where_def filter_id_conv)
  show ?thesis by (simp add: heartbeat_def release_def finish_def Let_def none same kept)
qed

fun run_queue_call :: "queue_call \<Rightarrow> queue_table \<Rightarrow> queue_table" where
  "run_queue_call (EnqueueCall ids now) q = enqueue ids now q"
| "run_queue_call (ClaimCall timeout locked worker token now) q = fst (claim timeout locked worker token now q)"
| "run_queue_call (HeartbeatCall c now) q = fst (heartbeat c now q)"
| "run_queue_call (ReleaseCall c) q = release c q"
| "run_queue_call (FinishCall c ids now) q = finish c ids now q"

lemma run_queue_call_pg: "run_queue_call = pg.run_call"
proof (rule ext, rule ext)
  show "run_queue_call call q = pg.run_call call q" for call q
    by (cases call) simp_all
qed

lemma pg_owns_iff: "queue_inv q \<Longrightarrow> pg.owns q c \<longleftrightarrow> (\<exists>e \<in> set q. held_by c e)"
  by (auto simp: pg.owns_def queue_leases_Some_iff held_by_def)

text \<open>
  C16. Fencing. Once a claim is stale, no sequence of calls on the queue makes it live again, as
  long as the tokens drawn by later claims are new: a slow worker can never act on an entry that
  has been handed to another.
\<close>

theorem stale_claim_stays_stale:
  assumes "queue_inv q" "\<forall>e \<in> set q. \<not> held_by c e"
    "\<forall>call \<in> set calls. call_token call \<noteq> Some (cl_claim_token c)"
  shows "\<forall>e \<in> set (fold run_queue_call calls q). \<not> held_by c e"
proof -
  have inv: "queue_inv (fold pg.run_call calls q)"
    using assms(1) by (induction calls arbitrary: q) (simp_all add: pg.inv_run_call)
  have "\<not> pg.owns (fold pg.run_call calls q) c"
    by (rule pg.lost_claim_forever [OF assms(1) _ assms(3)]) (use assms(1,2) pg_owns_iff in blast)
  then show ?thesis using pg_owns_iff [OF inv] by (simp add: run_queue_call_pg)
qed

definition later_calls :: "queue_call list" where
  "later_calls = [HeartbeatCall \<lparr>cl_task_execution_id = Uuid 2, cl_claim_token = Uuid 101\<rparr> 70,
     FinishCall reclaimed [Uuid 2] 80, ClaimCall 30 (\<lambda>_. False) (Uuid 9) (Uuid 201) 90]"

theorem stale_claim_stays_stale_witness:
  "filter (held_by \<lparr>cl_task_execution_id = Uuid 2, cl_claim_token = Uuid 101\<rparr>)
     (fold run_queue_call later_calls after_reclaim) = []"
  unfolding filter_empty_conv
  by (rule stale_claim_stays_stale)
    (simp_all add: queue_inv_def after_reclaim_def entry_ok_def held_by_def free_entry_def
      leased_entry_def later_calls_def)

section \<open>Enqueueing\<close>

lemma insert_keeps: "\<exists>es. insert_on_conflict_do_nothing at ids q = q @ es
   \<and> (\<forall>e \<in> set es. qe_claimed_by e = None \<and> qe_claim_token e = None \<and> qe_queued_at e = at
        \<and> qe_task_execution_id e \<in> set ids \<and> qe_task_execution_id e \<notin> qe_task_execution_id ` set q)
   \<and> set ids \<subseteq> qe_task_execution_id ` set (q @ es)"
proof (induction ids arbitrary: q)
  case Nil
  then show ?case by simp
next
  case (Cons i ids)
  let ?e = "\<lparr>qe_task_execution_id = i, qe_claim_token = None, qe_claimed_by = None,
                   qe_queued_at = at, qe_claimed_at = None, qe_last_heartbeat = None\<rparr>"
  show ?case
  proof (cases "i \<in> qe_task_execution_id ` set q")
    case True
    then show ?thesis using Cons.IH [of q] by fastforce
  next
    case False
    obtain es where es: "insert_on_conflict_do_nothing at ids (q @ [?e]) = (q @ [?e]) @ es"
      "\<forall>e \<in> set es. qe_claimed_by e = None \<and> qe_claim_token e = None \<and> qe_queued_at e = at
         \<and> qe_task_execution_id e \<in> set ids \<and> qe_task_execution_id e \<notin> qe_task_execution_id ` set (q @ [?e])"
      "set ids \<subseteq> qe_task_execution_id ` set ((q @ [?e]) @ es)"
      using Cons.IH [of "q @ [?e]"] by blast
    show ?thesis
      by (rule exI [of _ "?e # es"]) (use es False in auto)
  qed
qed

lemma insert_present: "set ids \<subseteq> qe_task_execution_id ` set q \<Longrightarrow> insert_on_conflict_do_nothing at ids q = q"
  by (induction ids) simp_all

text \<open>
  Enqueueing is idempotent and never disturbs a lease: the entries that are there stay as
  they are, in their order, missing identifiers are appended once each as unclaimed entries, and a
  second call with the same identifiers changes nothing.
\<close>

lemma enqueue_adds_missing:
  shows "\<exists>es. enqueue ids now q = q @ es
     \<and> (\<forall>e \<in> set es. qe_claimed_by e = None \<and> qe_claim_token e = None \<and> qe_queued_at e = now)
     \<and> qe_task_execution_id ` set es = set ids - qe_task_execution_id ` set q
     \<and> enqueue ids later (enqueue ids now q) = enqueue ids now q"
proof -
  obtain es where es: "insert_on_conflict_do_nothing now ids q = q @ es"
    "\<forall>e \<in> set es. qe_claimed_by e = None \<and> qe_claim_token e = None \<and> qe_queued_at e = now
       \<and> qe_task_execution_id e \<in> set ids \<and> qe_task_execution_id e \<notin> qe_task_execution_id ` set q"
    "set ids \<subseteq> qe_task_execution_id ` set (q @ es)"
    using insert_keeps by blast
  have eq: "enqueue ids at r = insert_on_conflict_do_nothing at ids r" for at r
    by (cases ids) (simp_all add: enqueue_def insert_queue_entries_def)
  have "enqueue ids later (enqueue ids now q) = enqueue ids now q"
    unfolding eq by (rule insert_present) (use es(1,3) in simp)
  moreover have "qe_task_execution_id ` set es = set ids - qe_task_execution_id ` set q"
    using es(2,3) by auto
  moreover have "enqueue ids now q = q @ es" using es(1) eq by simp
  ultimately show ?thesis using es(2) by (intro exI [of _ es]) simp
qed

end
