(* ===== verification/Definition_Properties.thy ===== *)
theory Definition_Properties
  imports Walkthrough
begin

text \<open>
  Workflow definitions, from the request to the stored rows and back: which requests validation
  accepts, that the cycle check decides acyclicity, what a successful creation stores, that a
  failed one stores nothing, which accepted definitions the repository cannot insert, and which
  definitions can be deleted.
\<close>

section \<open>Concrete requests\<close>

lemma walk_definitions_inv: "definitions_inv walk_definitions"
  using sys_invD(2) [OF sys_inv_reachable [OF walk1_reachable]] by (simp add: walk_defs)

definition task_extract :: create_task_definition where
  "task_extract = \<lparr>ct_plugin_type = ''produce_value'', ct_key = ''extract'',
     ct_configuration = [(''value'', JInt 7)], ct_dependencies = [], ct_max_tries = 2\<rparr>"

definition task_load :: create_task_definition where
  "task_load = \<lparr>ct_plugin_type = ''collect_inputs'', ct_key = ''load'', ct_configuration = [],
     ct_dependencies = [''extract''], ct_max_tries = 1\<rparr>"

lemma walk_request_tasks: "cw_tasks walk_request = [task_extract, task_load]"
  by (simp add: walk_request_def task_extract_def task_load_def)

text \<open>The same workflow with its tasks listed in the other order.\<close>

definition forward_request :: create_workflow_definition where
  "forward_request = walk_request\<lparr>cw_tasks := [task_load, task_extract]\<rparr>"

lemma walk_tasks_registry: "\<forall>conf e. pl_validate p conf = Inl e \<longrightarrow> (\<exists>m. e = InvalidPluginConfigurationError m)"
  if "(ty, p) \<in> set walk_tasks" for ty p
  using that
  by (auto simp: walk_tasks_def produce_value_task_def collect_inputs_task_def fail_task_def
      produce_value_validate_def collect_inputs_validate_def fail_validate_def
      split: if_splits option.splits)

section \<open>Validation\<close>

text \<open>
  C20. The cycle check is exact. On tasks whose dependencies are declared keys without
  repetitions, Kahn's algorithm as the service runs it (counters, child lists, a stack of ready
  keys, a count of processed ones) terminates without a \<open>KeyError\<close> and answers whether the
  dependency relation has a cycle.
\<close>

theorem cycle_check_exact:
  assumes "distinct (map ct_key tasks)"
    "\<forall>t \<in> set tasks. distinct (ct_dependencies t) \<and> set (ct_dependencies t) \<subseteq> ct_key ` set tasks"
  shows "has_dependency_cycle tasks =
     Inr (\<exists>k. (k, k) \<in> {(d, ct_key t) | d t. t \<in> set tasks \<and> d \<in> set (ct_dependencies t)}\<^sup>+)"
  using cycle_check_correct [of tasks] assms
  by (simp add: edges_declared_def acyclic_def dependency_edges_def)

theorem cycle_check_exact_witness:
  "has_dependency_cycle [task_extract\<lparr>ct_dependencies := [''load'']\<rparr>, task_load] =
     Inr (\<exists>k. (k, k) \<in> {(d, ct_key t) | d t. t \<in> set [task_extract\<lparr>ct_dependencies := [''load'']\<rparr>, task_load]
        \<and> d \<in> set (ct_dependencies t)}\<^sup>+)"
  by (rule cycle_check_exact) (simp_all add: task_extract_def task_load_def)

text \<open>
  C21. Which definitions are accepted. Validation succeeds exactly for a non-empty list of tasks
  with distinct keys, each with at least one try, a known plugin that accepts its configuration,
  and distinct dependencies on other declared tasks, such that the dependencies have no cycle.
\<close>

theorem validation_accepts_exactly:
  "validate_tasks reg tasks = Inr () \<longleftrightarrow>
     tasks \<noteq> [] \<and> distinct (map ct_key tasks)
     \<and> (\<forall>t \<in> set tasks. 1 \<le> ct_max_tries t
          \<and> (\<exists>p. registry_get reg (ct_plugin_type t) = Inr p \<and> pl_validate p (ct_configuration t) = Inr ())
          \<and> ct_key t \<notin> set (ct_dependencies t) \<and> distinct (ct_dependencies t)
          \<and> set (ct_dependencies t) \<subseteq> ct_key ` set tasks)
     \<and> acyclic {(d, ct_key t) | d t. t \<in> set tasks \<and> d \<in> set (ct_dependencies t)}"
  unfolding validate_tasks_acceptable tasks_acceptable_def task_acceptable_def dependency_edges_def ..

theorem validation_accepts_exactly_witness:
  "validate_tasks walk_tasks (cw_tasks walk_request) = Inr () \<longleftrightarrow>
     cw_tasks walk_request \<noteq> [] \<and> distinct (map ct_key (cw_tasks walk_request))
     \<and> (\<forall>t \<in> set (cw_tasks walk_request). 1 \<le> ct_max_tries t
          \<and> (\<exists>p. registry_get walk_tasks (ct_plugin_type t) = Inr p \<and> pl_validate p (ct_configuration t) = Inr ())
          \<and> ct_key t \<notin> set (ct_dependencies t) \<and> distinct (ct_dependencies t)
          \<and> set (ct_dependencies t) \<subseteq> ct_key ` set (cw_tasks walk_request))
     \<and> acyclic {(d, ct_key t) | d t. t \<in> set (cw_tasks walk_request) \<and> d \<in> set (ct_dependencies t)}"
  by (rule validation_accepts_exactly)

text \<open>
  Every rejection is an \<open>InvalidWorkflowDefinitionError\<close>. When the registered plugins refuse
  configurations only with \<open>InvalidPluginConfigurationError\<close>, whatever fails before the
  transaction of \<open>create\<close> (task validation, the cycle check, trigger validation) is reported as
  that one error: no \<open>KeyError\<close>, no plugin error escapes.
\<close>

lemma rejection_error:
  assumes "rejects_only task_reg" "rejects_only trigger_reg"
    "new_workflow_definition task_reg trigger_reg fresh request = Inl e"
  shows "\<exists>reason. e = InvalidWorkflowDefinitionError reason"
proof (cases "validate_tasks task_reg (cw_tasks request)")
  case (Inl e')
  then have "e' = e" using assms(3) by (simp add: new_workflow_definition_def Let_def)
  then show ?thesis using validate_tasks_Inl [OF assms(1) Inl] by simp
next
  case (Inr u)
  then have "tasks_acceptable task_reg (cw_tasks request)" by (simp add: validate_tasks_acceptable [symmetric])
  then have "create_task_definitions fresh (cw_tasks request) =
      Inr (map (definition_of fresh (cw_tasks request)) (cw_tasks request))"
    by (intro create_task_definitions_eq acceptable_edges_declared) (auto simp: tasks_acceptable_def)
  then have "create_trigger_definitions trigger_reg (\<lambda>i. fresh (length (cw_tasks request) + i))
      (cw_triggers request) = Inl e"
    using assms(3) Inr by (auto simp: new_workflow_definition_def Let_def bind_result_def split: sum.splits)
  then show ?thesis by (rule create_triggers_Inl [OF assms(2)])
qed

lemma walk_rejects_only: "rejects_only walk_tasks" "rejects_only walk_triggers"
  using walk_tasks_registry
  by (auto simp: rejects_only_def walk_triggers_def interval_trigger_def interval_validate_def
      split: if_splits option.splits json.splits)

section \<open>Creation\<close>

lemma walk_unused: "unused_definition_ids Uuid 2 1 empty_database"
  by (simp add: unused_definition_ids_def empty_database_def inj_on_def)

lemma created_definition_loaded:
  assumes "definitions_inv db"
    "unused_definition_ids fresh (length (cw_tasks request)) (length (cw_triggers request)) db"
    "\<forall>t \<in> set (cw_tasks request). int4 (ct_max_tries t)"
    "create_definition task_reg trigger_reg fresh clock request db = (db', Inr wid)"
  obtains wd resolved where "new_workflow_definition task_reg trigger_reg fresh request = Inr (wd, resolved)"
    "wid = wd_id wd" "load_definition wid db' = (db', Inr (Some wd))" "new_definition db wd" "definitions_inv db'"
proof (rule create_definition_ok [OF assms])
  fix wd resolved rows
  assume wd: "new_workflow_definition task_reg trigger_reg fresh request = Inr (wd, resolved)"
    and wid: "wid = wd_id wd" and new: "new_definition db wd"
    and db': "db' = with_schedule rows (with_definition wd db)" and inv': "definitions_inv db'"
  have "load_definition wid db' = (db', Inr (Some wd))"
    using load_new_definition [OF _ new] assms(1)
    by (simp add: db' wid load_definition_schedule definitions_inv_def)
  then show thesis by (rule that [OF wd wid _ new inv'])
qed



text \<open>
  Creation and deletion are atomic. When \<open>create\<close> or \<open>delete\<close> raises, at whatever point, the
  database is as it was before the call.
\<close>

lemma definition_requests_atomic:
  "(create_definition task_reg trigger_reg fresh clock request db = (db1, Inl e1) \<longrightarrow> db1 = db)
   \<and> (delete_workflow_definition wid stored = (db2, Inl e2) \<longrightarrow> db2 = stored)"
  using create_definition_atomic [of task_reg trigger_reg fresh clock request db db1 e1]
  by (auto simp: delete_workflow_definition_eq split: prod.splits sum.splits)

lemma failing_requests:
  "snd (create_definition walk_tasks walk_triggers Uuid (\<lambda>_. 0) forward_request empty_database) = Inl IntegrityError"
  "snd (delete_workflow_definition (Uuid 3) walk_definitions) = Inl IntegrityError"
  by code_simp+

lemma outcome_pair: "snd x = r \<Longrightarrow> x = (fst x, r)"
  by (cases x) simp

text \<open>
  C23. Forward references cannot be stored. A request that validation accepts but whose tasks are
  not listed after their dependencies is not created: inserting the dependency row of the earlier
  task breaks its foreign key, and \<open>create\<close> raises \<open>IntegrityError\<close> instead of an application
  error.
\<close>

theorem forward_reference_fails:
  assumes "definitions_inv db"
    "unused_definition_ids fresh (length (cw_tasks request)) (length (cw_triggers request)) db"
    "\<forall>t \<in> set (cw_tasks request). int4 (ct_max_tries t)"
    "new_workflow_definition task_reg trigger_reg fresh request = Inr (wd, resolved)"
    "\<not> dependency_ordered {} (wd_task_definitions wd)"
  shows "create_definition task_reg trigger_reg fresh clock request db = (db, Inl IntegrityError)"
proof -
  have new: "new_definition db wd" by (rule new_workflow_definition_new [OF assms(4,2,3)])
  have "snd (save_definition wd db) = Inl IntegrityError"
    by (rule save_new_definition(2) [OF _ new assms(5)]) (use assms(1) in \<open>simp add: definitions_inv_def\<close>)
  then obtain db' where save: "save_definition wd db = (db', Inl IntegrityError)"
    by (cases "save_definition wd db") simp
  show ?thesis
    by (simp add: create_definition_def assms(4) with_uow_def andThen_def in_uow_def save)
qed

lemma forward_definition:
  "map_option (\<lambda>p. map td_dependencies (wd_task_definitions (fst p)))
     (case new_workflow_definition walk_tasks walk_triggers Uuid forward_request of Inl e \<Rightarrow> None | Inr p \<Rightarrow> Some p)
     = Some [[Uuid 1], []]"
  by code_simp

theorem forward_reference_fails_witness:
  "create_definition walk_tasks walk_triggers Uuid (\<lambda>_. 0) forward_request empty_database =
     (empty_database, Inl IntegrityError)"
proof -
  obtain wd resolved where wd: "new_workflow_definition walk_tasks walk_triggers Uuid forward_request = Inr (wd, resolved)"
    "map td_dependencies (wd_task_definitions wd) = [[Uuid 1], []]"
    using forward_definition
    by (cases "new_workflow_definition walk_tasks walk_triggers Uuid forward_request") force+
  have "\<not> dependency_ordered {} (wd_task_definitions wd)"
    using wd(2) by (auto simp: map_eq_Cons_conv)
  moreover have "unused_definition_ids Uuid (length (cw_tasks forward_request)) (length (cw_triggers forward_request)) empty_database"
    using walk_unused by (simp add: forward_request_def walk_request_def numeral_2_eq_2)
  moreover have "\<forall>t \<in> set (cw_tasks forward_request). int4 (ct_max_tries t)"
    by (simp add: forward_request_def task_load_def task_extract_def int4_def)
  ultimately show ?thesis by (intro forward_reference_fails [OF definitions_inv_empty _ _ wd(1)])
qed

section \<open>Saving, loading and deleting\<close>

text \<open>Saving definitions one after the other, each new when its turn comes.\<close>

fun save_all :: "workflow_definition list \<Rightarrow> database \<Rightarrow> database" where
  "save_all [] db = db"
| "save_all (wd # wds) db = save_all wds (fst (save_definition wd db))"

fun savable_all :: "database \<Rightarrow> workflow_definition list \<Rightarrow> bool" where
  "savable_all db [] = True"
| "savable_all db (wd # wds) =
     (new_definition db wd \<and> dependency_ordered {} (wd_task_definitions wd)
      \<and> savable_all (fst (save_definition wd db)) wds)"

lemma save_all_fold: "save_all wds db = fold saved wds db"
  by (induction wds arbitrary: db) (simp_all add: saved_def)

lemma savable_all_iff: "savable_all db wds = definitions.storable_all db wds"
  by (induction wds arbitrary: db) (simp_all add: savable_def saved_def)

text \<open>
  C24. Saving and loading round-trips. After saving any sequence of new well-formed definitions
  whose tasks are listed after their dependencies, loading each gives back exactly what was saved,
  tasks, dependencies and triggers in their order; every other definition is loaded as before.
\<close>

theorem save_load_roundtrip:
  assumes "definitions_inv db" "savable_all db wds"
  shows "(\<forall>wd \<in> set wds. load_definition (wd_id wd) (save_all wds db) = (save_all wds db, Inr (Some wd)))
     \<and> (\<forall>wid. wid \<notin> wd_id ` set wds \<longrightarrow>
          load_definition wid (save_all wds db) = (save_all wds db, snd (load_definition wid db)))
     \<and> definitions_inv (save_all wds db)"
  using assms definitions.load_stored definitions.load_unstored definitions.inv_store_all
  by (simp add: load_definition_loaded save_all_fold savable_all_iff)

definition walk_definition :: workflow_definition where
  "walk_definition = \<lparr>wd_id = Uuid 3, wd_name = ''report'', wd_description = ''two tasks'',
     wd_task_definitions =
       [\<lparr>td_id = Uuid 0, td_plugin_type = ''produce_value'', td_key = ''extract'',
          td_configuration = [(''value'', JInt 7)], td_dependencies = [], td_max_tries = 2\<rparr>,
        \<lparr>td_id = Uuid 1, td_plugin_type = ''collect_inputs'', td_key = ''load'',
          td_configuration = [], td_dependencies = [Uuid 0], td_max_tries = 1\<rparr>],
     wd_trigger_definitions =
       [\<lparr>tr_id = Uuid 2, tr_plugin_type = ''interval'',
          tr_configuration = [(''interval_seconds'', JInt 60)], tr_enabled = True\<rparr>],
     wd_enabled = True\<rparr>"

lemma walk_definition_ok: "definition_ok (wd_task_definitions walk_definition)"
  using load_definition_ok(1) [OF walk_definitions_inv outcome_pair [OF walk_loaded]]
  by (simp add: walk_definition_def)

definition single_definition :: workflow_definition where
  "single_definition = \<lparr>wd_id = Uuid 8, wd_name = ''single'', wd_description = [],
     wd_task_definitions = [\<lparr>td_id = Uuid 7, td_plugin_type = ''fail'', td_key = ''only'',
        td_configuration = [], td_dependencies = [], td_max_tries = 3\<rparr>],
     wd_trigger_definitions = [], wd_enabled = False\<rparr>"

lemma two_definitions_savable: "savable_all empty_database [walk_definition, single_definition]"
proof -
  have new: "new_definition empty_database walk_definition"
    using walk_definition_ok
    by (simp add: new_definition_def empty_database_def) (simp add: walk_definition_def int4_def)
  have ordered: "dependency_ordered {} (wd_task_definitions walk_definition)" by (simp add: walk_definition_def)
  have "schema_ok empty_database" using definitions_inv_empty by (simp add: definitions_inv_def)
  note saved = save_new_definition(1) [OF this new ordered]
  have "definition_ok (wd_task_definitions single_definition)"
    by (simp add: definition_ok_def single_definition_def definition_edges_def acyclic_def)
  then have "new_definition (with_definition walk_definition empty_database) single_definition"
    by (simp add: new_definition_def with_definition_def empty_database_def walk_definition_def)
      (simp add: single_definition_def int4_def)
  then show ?thesis using new ordered saved by (simp add: single_definition_def)
qed

theorem save_load_roundtrip_witness:
  "definitions_inv (save_all [walk_definition, single_definition] empty_database)
   \<and> load_definition (Uuid 3) (save_all [walk_definition, single_definition] empty_database) =
       (save_all [walk_definition, single_definition] empty_database, Inr (Some walk_definition))"
proof -
  have "wd_id walk_definition = Uuid 3" by (simp add: walk_definition_def)
  then show ?thesis
    using save_load_roundtrip [OF definitions_inv_empty two_definitions_savable]
    by (simp del: save_all.simps)
qed

text \<open>
  C25. Which definitions can be deleted. Deleting an unknown definition does nothing. Deleting a
  known one removes it with its tasks, triggers and their scheduling state, and nothing else,
  unless a task of it has a dependency row or an execution of it exists: then the call raises
  \<open>IntegrityError\<close> and nothing changes.
\<close>

theorem delete_definition_outcome:
  "delete_workflow_definition wid db =
     (if wid \<notin> wdr_id ` set (workflow_definitions db) then (db, Inr ())
      else if definition_referenced wid db then (db, Inl IntegrityError)
      else (without_definition wid db, Inr ()))"
proof (cases "wid \<in> wdr_id ` set (workflow_definitions db)")
  case False
  then show ?thesis by (simp add: delete_workflow_definition_eq delete_missing_definition)
next
  case True
  then show ?thesis
    using delete_existing_definition [OF True]
    by (cases "definition_referenced wid db"; cases "delete_definition wid db")
      (auto simp: delete_workflow_definition_eq)
qed

end
