(* ===== verification/Execution_Lifecycle.thy ===== *)
theory Execution_Lifecycle
  imports Workflow_Start
begin

text \<open>
  The repository of workflow executions as a repository of whole executions: creating, loading and
  deleting keep the contract of \<open>Repository_Interface\<close>, and deleting an execution leaves the
  invariant of the execution tables.
\<close>

section \<open>Creating and loading\<close>

definition execution_rows_of :: "workflow_execution \<Rightarrow> task_row list" where
  "execution_rows_of we = map task_to_model (we_task_executions we)"

definition execution_row_of :: "workflow_execution \<Rightarrow> workflow_row" where
  "execution_row_of we = fst (workflow_to_model we)"

lemma workflow_to_model_rows: "workflow_to_model we = (execution_row_of we, execution_rows_of we)"
  by (simp add: execution_row_of_def execution_rows_of_def workflow_to_model_def)

definition creatable :: "database \<Rightarrow> workflow_execution \<Rightarrow> bool" where
  "creatable db we \<longleftrightarrow>
     new_execution db (execution_row_of we) (execution_rows_of we)
     \<and> we_workflow_definition_id we \<in> wdr_id ` set (workflow_definitions db)
     \<and> (\<forall>t \<in> set (execution_rows_of we). int4 (t_remaining_dependencies t) \<and> int4 (t_remaining_tries t)
          \<and> t_task_definition_id t \<in> tdr_id ` set (task_definitions db))"

definition creation :: "workflow_execution \<Rightarrow> database \<Rightarrow> database" where
  "creation we db = fst (create_execution we db)"

definition found_execution :: "uuid \<Rightarrow> database \<Rightarrow> workflow_execution option" where
  "found_execution wid db = (case snd (load_execution wid db) of Inl e \<Rightarrow> None | Inr x \<Rightarrow> x)"

definition discarded :: "uuid \<Rightarrow> database \<Rightarrow> database" where
  "discarded wid db = fst (delete_execution wid db)"

lemma execution_row_sel [simp]: "w_id (execution_row_of we) = we_id we"
  "w_workflow_definition_id (execution_row_of we) = we_workflow_definition_id we"
  by (simp_all add: execution_row_of_def workflow_to_model_def)

lemma create_execution_eq:
  assumes "creatable db we"
  shows "create_execution we db = (with_execution (execution_row_of we) (execution_rows_of we) db, Inr ())"
proof -
  let ?w = "execution_row_of we" and ?ts = "execution_rows_of we"
  let ?db = "db\<lparr>workflow_executions := workflow_executions db @ [?w]\<rparr>"
  have new: "new_execution db ?w ?ts" using assms by (simp add: creatable_def)
  have ins: "insert_workflow_row ?w db = (?db, Inr ())"
    using assms new by (simp add: insert_workflow_row_def creatable_def new_execution_def)
  have same: "for_each (\<lambda>t. insert_task_row (t\<lparr>t_workflow_execution_id := i\<rparr>)) us = for_each insert_task_row us"
    if "\<forall>t \<in> set us. t_workflow_execution_id t = i" for us :: "task_row list" and i
    using that by (induction us) auto
  have owner: "\<forall>t \<in> set ?ts. t_workflow_execution_id t = w_id ?w" using new by (simp add: new_execution_def)
  have "rows_insertable ?db ?ts"
    using assms new owner by (auto simp: rows_insertable_def creatable_def new_execution_def graph_ok_def)
  from insert_rows [OF this] show ?thesis
    unfolding create_execution_def workflow_to_model_rows prod.case same [OF owner]
    using ins by (simp add: andThen_def with_execution_def)
qed

lemma found_eq:
  "found_execution wid db = map_option (\<lambda>w. workflow_to_domain w (map task_to_domain (tasks_of (task_executions db) wid)))
     (lookup_row w_id wid (workflow_executions db))"
proof (cases "lookup_row w_id wid (workflow_executions db)")
  case None
  then show ?thesis by (simp add: found_execution_def load_execution_def)
next
  case (Some w)
  then have "w_id w = wid" by (auto dest: lookup_row_SomeD)
  with Some show ?thesis by (simp add: found_execution_def load_execution_def Let_def select_where_def tasks_of_def)
qed

lemma found_created:
  assumes inv: "exec_inv db" and ok: "creatable db we"
  shows "found_execution k (creation we db) = (if k = we_id we then Some we else found_execution k db)"
proof -
  let ?w = "execution_row_of we" and ?ts = "execution_rows_of we"
  have new: "new_execution db ?w ?ts" using ok by (simp add: creatable_def)
  have db': "creation we db = with_execution ?w ?ts db" by (simp add: creation_def create_execution_eq [OF ok])
  show ?thesis
  proof (cases "k = we_id we")
    case True
    have "lookup_row w_id k (workflow_executions db) = None"
      using new True by (simp add: lookup_row_None_iff new_execution_def)
    then have "lookup_row w_id k (workflow_executions (creation we db)) = Some ?w"
      using True by (simp add: db' with_execution_def lookup_row_append) (simp add: lookup_row_def)
    moreover have "t_workflow_execution_id t \<noteq> k" if "t \<in> set (task_executions db)" for t
      using exec_invD(3) [OF inv] that new True unfolding workflows_ok_def new_execution_def
      by (metis execution_row_sel(1))
    then have "tasks_of (task_executions db) k = []" by (simp add: tasks_of_def filter_empty_conv)
    then have "tasks_of (task_executions (creation we db)) k = ?ts"
      using new True by (simp add: db' with_execution_def tasks_of_def new_execution_def filter_id_conv)
    moreover have "map task_to_domain ?ts = we_task_executions we"
      by (simp add: execution_rows_of_def comp_def)
    ultimately show ?thesis
      using True by (simp add: found_eq workflow_to_domain_def execution_row_of_def workflow_to_model_def)
  next
    case False
    have "lookup_row w_id k [?w] = None" using False by (simp add: lookup_row_None_iff)
    moreover have "tasks_of ?ts k = []"
      using new False by (auto simp: tasks_of_def filter_empty_conv new_execution_def)
    ultimately show ?thesis
      using False by (simp add: found_eq db' with_execution_def lookup_row_append tasks_of_def split: option.split)
  qed
qed

section \<open>Deleting\<close>

definition other_tasks :: "uuid \<Rightarrow> task_row list \<Rightarrow> task_row list" where
  "other_tasks wid ts = filter (\<lambda>t. t_workflow_execution_id t \<noteq> wid) ts"

lemma discarded_eq:
  assumes "exec_inv db"
  shows "discarded wid db = db\<lparr>task_executions := other_tasks wid (task_executions db),
     workflow_executions := filter (\<lambda>w. w_id w \<noteq> wid) (workflow_executions db)\<rparr>"
proof (cases "lookup_row w_id wid (workflow_executions db)")
  case None
  then have none: "wid \<notin> w_id ` set (workflow_executions db)" by (simp add: lookup_row_None_iff)
  then have "filter (\<lambda>w. w_id w \<noteq> wid) (workflow_executions db) = workflow_executions db"
    by (auto simp: filter_id_conv)
  moreover have "other_tasks wid (task_executions db) = task_executions db"
    using exec_invD(3) [OF assms] none by (auto simp: other_tasks_def filter_id_conv workflows_ok_def)
  ultimately show ?thesis using None by (simp add: discarded_def delete_execution_def)
next
  case (Some w)
  then have "w_id w = wid" by (auto dest: lookup_row_SomeD)
  with Some show ?thesis
    by (simp add: discarded_def delete_execution_def delete_where_def other_tasks_def)
qed

text \<open>Parents and children stay inside one execution, so the remaining rows see no difference.\<close>

lemma relatives_kept:
  assumes "graph_ok ts" "t \<in> set (other_tasks wid ts)"
    "p \<in> set (t_parent_task_ids t) \<or> p \<in> set (t_child_task_ids t)" "u \<in> set ts" "t_id u = p"
  shows "u \<in> set (other_tasks wid ts)"
proof -
  have t: "t \<in> set ts" "t_workflow_execution_id t \<noteq> wid" using assms(2) by (simp_all add: other_tasks_def)
  obtain v where v: "v \<in> set ts" "t_id v = p" "t_workflow_execution_id v = t_workflow_execution_id t"
    using assms(1,3) t(1) unfolding graph_ok_def mirrored_def by metis
  have "v = u" using same_id_same_row [OF _ v(1) assms(4)] assms(1,5) v(2) by (simp add: graph_ok_def)
  then show ?thesis using v t by (simp add: other_tasks_def)
qed

lemma completed_other:
  assumes "graph_ok ts" "t \<in> set (other_tasks wid ts)" "p \<in> set (t_parent_task_ids t)"
  shows "completed (other_tasks wid ts) p = completed ts p"
proof -
  have "set (other_tasks wid ts) \<subseteq> set ts" by (auto simp: other_tasks_def)
  then show ?thesis using relatives_kept [OF assms(1,2)] assms(3) unfolding completed_def by blast
qed

lemma graph_ok_other:
  assumes ok: "graph_ok ts"
  shows "graph_ok (other_tasks wid ts)"
proof -
  let ?us = "other_tasks wid ts"
  have sub: "set ?us \<subseteq> set ts" by (auto simp: other_tasks_def)
  have "distinct (task_ids ?us)" "unique_keys ?us"
    using ok by (simp_all add: graph_ok_def unique_keys_def other_tasks_def distinct_map_filter)
  moreover have "acyclic_graph ?us" using ok sub unfolding graph_ok_def acyclic_graph_def by blast
  moreover have "mirrored ?us t" if t: "t \<in> set ?us" for t
  proof -
    have "mirrored ts t" using ok t sub by (auto simp: graph_ok_def)
    then show ?thesis using relatives_kept [OF ok t] unfolding mirrored_def by meson
  qed
  ultimately show ?thesis by (simp add: graph_ok_def)
qed

lemma progress_ok_other:
  assumes "graph_ok ts" "progress_ok ts"
  shows "progress_ok (other_tasks wid ts)"
  unfolding progress_ok_def
proof
  fix t assume t: "t \<in> set (other_tasks wid ts)"
  then have "row_ok ts t" using assms(2) by (simp add: progress_ok_def other_tasks_def)
  moreover have "open_parents (other_tasks wid ts) t = open_parents ts t"
    unfolding open_parents_def by (rule filter_cong [OF refl]) (simp add: completed_other [OF assms(1) t])
  moreover from this have "ready (other_tasks wid ts) t = ready ts t" by (simp add: ready_iff_no_open)
  ultimately show "row_ok (other_tasks wid ts) t" by (cases "t_status t") (simp_all add: row_ok_def)
qed

lemma tasks_of_other: "k \<noteq> wid \<Longrightarrow> tasks_of (other_tasks wid ts) k = tasks_of ts k"
  unfolding tasks_of_def other_tasks_def filter_filter by (rule filter_cong) auto

lemma exec_inv_discarded:
  assumes "exec_inv db"
  shows "exec_inv (discarded wid db)"
proof -
  note parts = exec_invD [OF assms]
  have "workflow_ok (other_tasks wid (task_executions db)) w = workflow_ok (task_executions db) w"
    if "w_id w \<noteq> wid" for w :: workflow_row
    unfolding workflow_ok_def tasks_of_other [OF that] ..
  then have "workflows_ok (discarded wid db)"
    using parts(3) by (auto simp: workflows_ok_def discarded_eq [OF assms] distinct_map_filter other_tasks_def)
  then show ?thesis
    using graph_ok_other [OF parts(1)] progress_ok_other [OF parts(1,2)]
    by (simp add: exec_inv_def discarded_eq [OF assms])
qed

lemma found_discarded:
  assumes "exec_inv db"
  shows "found_execution k (discarded wid db) = (if k = wid then None else found_execution k db)"
proof (cases "k = wid")
  case True
  have "lookup_row w_id wid (filter (\<lambda>w. w_id w \<noteq> wid) (workflow_executions db)) = None"
    by (auto simp: lookup_row_None_iff)
  then show ?thesis using True by (simp add: found_eq discarded_eq [OF assms])
next
  case False
  have "lookup_row w_id k (filter (\<lambda>w. w_id w \<noteq> wid) ws) = lookup_row w_id k ws" for ws :: "workflow_row list"
    using lookup_delete_other [OF False, of w_id ws] by (simp add: delete_where_def)
  then show ?thesis using False by (simp add: found_eq discarded_eq [OF assms] tasks_of_other)
qed

section \<open>The contract\<close>

interpretation executions: removable_repository exec_inv we_id creatable creation found_execution "\<lambda>_ _. True" discarded
proof
  fix db we k
  assume inv: "exec_inv db" and ok: "creatable db we"
  show "exec_inv (creation we db)"
    using exec_inv_create [OF inv] ok
    by (simp add: creation_def create_execution_eq [OF ok] with_execution_def creatable_def)
  show "found_execution k (creation we db) = (if k = we_id we then Some we else found_execution k db)"
    by (rule found_created [OF inv ok])
  have "lookup_row w_id (we_id we) (workflow_executions db) = None"
    using ok by (simp add: lookup_row_None_iff creatable_def new_execution_def)
  then show "found_execution (we_id we) db = None" by (simp add: found_eq)
next
  fix db wid k
  assume inv: "exec_inv db"
  show "exec_inv (discarded wid db)" by (rule exec_inv_discarded [OF inv])
  show "found_execution k (discarded wid db) = (if k = wid then None else found_execution k db)" by (rule found_discarded [OF inv])
qed

end
