(* ===== verification/Start_Properties.thy ===== *)
theory Start_Properties
  imports Definition_Properties Execution_Lifecycle
begin

text \<open>
  Starting workflows, by request or by a due trigger, and the plugins: the compiled execution, what
  refuses to start, the trigger that is due first, its next occurrence, the trigger that blocks
  the scheduler, and the registry of plugins.
\<close>

section \<open>Starting by request\<close>

lemma exec_id_at:
  "distinct (map td_id tds) \<Longrightarrow> i < length tds \<Longrightarrow> exec_id fresh tds (td_id (tds ! i)) = fresh i"
  by (simp add: exec_id_def exec_id_nth)

lemma compiled_parent:
  assumes ok: "definition_ok tds" and inj: "inj_on fresh {..<length tds}" and ij: "i < length tds" "j < length tds"
  shows "fresh j \<in> set (map (exec_id fresh tds) (td_dependencies (tds ! i)))
     \<longleftrightarrow> td_id (tds ! j) \<in> set (td_dependencies (tds ! i))"
proof -
  have d: "distinct (map td_id tds)" using ok by (simp add: definition_ok_def)
  have sub: "set (td_dependencies (tds ! i)) \<subseteq> td_id ` set tds" using ok ij(1) by (simp add: definition_ok_def)
  have j: "td_id (tds ! j) \<in> td_id ` set tds" using ij(2) by simp
  have "fresh j = exec_id fresh tds (td_id (tds ! j))" using exec_id_at [OF d ij(2)] by simp
  then show ?thesis
    using inj_on_image_mem_iff [OF exec_id_inj [OF d inj] j sub] by simp
qed

lemma compiled_child:
  assumes ok: "definition_ok tds" and inj: "inj_on fresh {..<length tds}" and ij: "i < length tds" "j < length tds"
  shows "fresh j \<in> set (map (\<lambda>u. exec_id fresh tds (td_id u)) (filter (\<lambda>u. td_id (tds ! i) \<in> set (td_dependencies u)) tds))
     \<longleftrightarrow> td_id (tds ! i) \<in> set (td_dependencies (tds ! j))"
proof -
  have d: "distinct (map td_id tds)" using ok by (simp add: definition_ok_def)
  have fj: "fresh j = exec_id fresh tds (td_id (tds ! j))" using exec_id_at [OF d ij(2)] by simp
  show ?thesis
  proof
    assume "fresh j \<in> set (map (\<lambda>u. exec_id fresh tds (td_id u)) (filter (\<lambda>u. td_id (tds ! i) \<in> set (td_dependencies u)) tds))"
    then obtain u where u: "u \<in> set tds" "td_id (tds ! i) \<in> set (td_dependencies u)"
      "exec_id fresh tds (td_id (tds ! j)) = exec_id fresh tds (td_id u)" using fj by auto
    have "td_id (tds ! j) = td_id u"
      by (rule inj_onD [OF exec_id_inj [OF d inj] u(3)]) (use u(1) ij(2) in simp_all)
    then have "tds ! j = u" using distinct_key_eq [OF d] u(1) ij(2) by simp
    then show "td_id (tds ! i) \<in> set (td_dependencies (tds ! j))" using u(2) by simp
  next
    assume "td_id (tds ! i) \<in> set (td_dependencies (tds ! j))"
    then show "fresh j \<in> set (map (\<lambda>u. exec_id fresh tds (td_id u)) (filter (\<lambda>u. td_id (tds ! i) \<in> set (td_dependencies u)) tds))"
      using ij(2) fj by auto
  qed
qed

lemma roots_at:
  "definition_ok tds \<Longrightarrow> set (root_ids fresh tds) = {fresh i | i. i < length tds \<and> td_dependencies (tds ! i) = []}"
  using exec_id_at [of tds _ fresh]
  by (auto simp: root_ids_def definition_ok_def in_set_conv_nth image_iff) metis+

text \<open>
  Rows compiled from task definitions: in their order, pending, under the identifiers drawn for
  them, with parents and children that mirror the dependencies.
\<close>

definition compiled_rows :: "(nat \<Rightarrow> uuid) \<Rightarrow> task_definition list \<Rightarrow> task_row list \<Rightarrow> bool" where
  "compiled_rows fresh tds rows \<longleftrightarrow>
     length rows = length tds
     \<and> (\<forall>i < length tds.
          t_id (rows ! i) = fresh (Suc i) \<and> t_workflow_execution_id (rows ! i) = fresh 0
          \<and> t_status (rows ! i) = Pending \<and> t_key (rows ! i) = td_key (tds ! i)
          \<and> t_plugin_type (rows ! i) = td_plugin_type (tds ! i)
          \<and> t_configuration (rows ! i) = td_configuration (tds ! i)
          \<and> t_remaining_tries (rows ! i) = td_max_tries (tds ! i)
          \<and> t_remaining_dependencies (rows ! i) = int (length (t_parent_task_ids (rows ! i)))
          \<and> (\<forall>j < length tds.
               (fresh (Suc j) \<in> set (t_parent_task_ids (rows ! i)) \<longleftrightarrow>
                  td_id (tds ! j) \<in> set (td_dependencies (tds ! i)))
               \<and> (fresh (Suc j) \<in> set (t_child_task_ids (rows ! i)) \<longleftrightarrow>
                  td_id (tds ! i) \<in> set (td_dependencies (tds ! j)))))"

lemma execution_rows_compiled:
  assumes ok: "definition_ok tds" and inj: "inj_on (\<lambda>i. fresh (Suc i)) {..<length tds}"
  shows "compiled_rows fresh tds (execution_rows (\<lambda>i. fresh (Suc i)) (fresh 0) tds)"
proof -
  have d: "distinct (map td_id tds)" using ok by (simp add: definition_ok_def)
  have row: "execution_rows (\<lambda>i. fresh (Suc i)) (fresh 0) tds ! i =
      task_to_model (execution_of (\<lambda>i. fresh (Suc i)) (fresh 0) tds (tds ! i))" if "i < length tds" for i
    using that by (simp add: execution_rows_def)
  have fields: "t_plugin_type (task_to_model (execution_of f w tds td)) = td_plugin_type td"
    "t_configuration (task_to_model (execution_of f w tds td)) = td_configuration td" for f w td
    by (simp_all add: task_to_model_def execution_of_def)
  show ?thesis
    unfolding compiled_rows_def
    by (simp add: execution_rows_def [where tds = tds, THEN arg_cong, of length] row fields exec_id_at [OF d]
        compiled_parent [OF ok inj] compiled_child [OF ok inj] del: set_map)
qed

text \<open>
  C26. Starting an enabled workflow. In one transaction an execution in status \<open>RUNNING\<close> is inserted
  with one pending task per task definition, in their order, with its key, plugin, configuration
  and tries; parents and children mirror the dependencies of the definition, each counter is the
  number of parents; after the commit exactly the tasks without dependencies are enqueued; the
  identifier of the execution is returned.
\<close>

theorem start_workflow_effect:
  assumes "definitions_inv db" "load_definition wid db = (db, Inr (Some wd))" "wd_enabled wd"
    "unused_ids fresh (length (wd_task_definitions wd)) db" "length (wd_task_definitions wd) < 2 ^ 31"
  shows "\<exists>rows ids. start_workflow fresh now at wid (db, q) =
       ((db\<lparr>workflow_executions := workflow_executions db @
              [\<lparr>w_id = fresh 0, w_workflow_definition_id = wid, w_status = WfRunning,
                w_created_at = now, w_started_at = None, w_completed_at = None\<rparr>],
            task_executions := task_executions db @ rows\<rparr>, enqueue ids at q), Inr (fresh 0))
     \<and> compiled_rows fresh (wd_task_definitions wd) rows
     \<and> set ids = {fresh (Suc i) | i. i < length (wd_task_definitions wd)
                      \<and> td_dependencies (wd_task_definitions wd ! i) = []}"
proof (intro exI conjI)
  let ?tds = "wd_task_definitions wd" and ?f = "\<lambda>i. fresh (Suc i)"
  have ok: "definition_ok ?tds" by (rule load_definition_ok(1) [OF assms(1,2)])
  show "start_workflow fresh now at wid (db, q) =
     ((db\<lparr>workflow_executions := workflow_executions db @
            [\<lparr>w_id = fresh 0, w_workflow_definition_id = wid, w_status = WfRunning,
              w_created_at = now, w_started_at = None, w_completed_at = None\<rparr>],
          task_executions := task_executions db @ execution_rows ?f (fresh 0) ?tds\<rparr>,
       enqueue (root_ids ?f ?tds) at q), Inr (fresh 0))"
    using start_workflow_ok [OF assms, of now at q] by (simp add: with_execution_def started_row_def)
  show "set (root_ids ?f ?tds) = {fresh (Suc i) | i. i < length ?tds \<and> td_dependencies (?tds ! i) = []}"
    by (rule roots_at [OF ok])
  show "compiled_rows fresh ?tds (execution_rows ?f (fresh 0) ?tds)"
    by (rule execution_rows_compiled [OF ok unused_ids_inj [OF assms(4)]])
qed

lemma walk_load:
  "load_definition (Uuid 3) walk_definitions = (walk_definitions, Inr (Some walk_definition))"
  using outcome_pair [OF walk_loaded] load_definition_eq [of "Uuid 3" walk_definitions]
  by (simp add: walk_definition_def)

lemma walk_unused_execution:
  "unused_ids (\<lambda>i. Uuid (10 + i)) (length (wd_task_definitions walk_definition)) walk_definitions"
  "length (wd_task_definitions walk_definition) < 2 ^ 31" "wd_enabled walk_definition"
  by (simp_all add: unused_ids_def walk_definitions_def inj_on_def walk_definition_def)

theorem start_workflow_effect_witness:
  "\<exists>rows ids. start_workflow (\<lambda>i. Uuid (10 + i)) 5 6 (Uuid 3) (walk_definitions, []) =
       ((walk_definitions\<lparr>workflow_executions := workflow_executions walk_definitions @
              [\<lparr>w_id = Uuid (10 + 0), w_workflow_definition_id = Uuid 3, w_status = WfRunning,
                w_created_at = 5, w_started_at = None, w_completed_at = None\<rparr>],
            task_executions := task_executions walk_definitions @ rows\<rparr>, enqueue ids 6 []), Inr (Uuid (10 + 0)))
     \<and> compiled_rows (\<lambda>i. Uuid (10 + i)) (wd_task_definitions walk_definition) rows
     \<and> set ids = {Uuid (10 + Suc i) | i. i < length (wd_task_definitions walk_definition)
                      \<and> td_dependencies (wd_task_definitions walk_definition ! i) = []}"
  by (rule start_workflow_effect [OF walk_definitions_inv walk_load walk_unused_execution(3,1,2)])

text \<open>
  Requests to start that are refused. Starting an unknown definition raises
  \<open>WorkflowDefinitionNotFoundError\<close>, a disabled one \<open>WorkflowDefinitionDisabledError\<close>; database and
  queue stay as they are. Whatever the error, a failed start leaves both as they were.
\<close>

lemma start_refused:
  "(load_definition wid db = (db, Inr None) \<longrightarrow>
      start_workflow fresh now at wid (db, q) = ((db, q), Inl (WorkflowDefinitionNotFoundError wid)))
   \<and> (\<forall>wd. load_definition wid db = (db, Inr (Some wd)) \<and> \<not> wd_enabled wd \<longrightarrow>
      start_workflow fresh now at wid (db, q) = ((db, q), Inl (WorkflowDefinitionDisabledError wid)))
   \<and> (\<forall>p e. start_workflow fresh now at wid (db, q) = (p, Inl e) \<longrightarrow> p = (db, q))"
proof -
  have "p = (db, q)" if run: "start_workflow fresh now at wid (db, q) = (p, Inl e)" for p e
  proof -
    obtain u' q' r where s: "start_and_commit fresh now at wid (uow_factory db, q) = ((u', q'), r)"
      by (metis surj_pair)
    with run have "r = Inl e" "p = (committed u', q')"
      by (simp_all add: start_workflow_def with_uow_and_queue_def)
    with s start_and_commit_Inl [of fresh now at wid "uow_factory db" q u' q' e] show ?thesis by simp
  qed
  then show ?thesis using start_workflow_rejected by blast
qed

text \<open>The execution compiled from a definition, and what a start stores of it.\<close>

definition compiled_execution :: "(nat \<Rightarrow> uuid) \<Rightarrow> datetime \<Rightarrow> workflow_definition \<Rightarrow> workflow_execution" where
  "compiled_execution fresh now wd =
     \<lparr>we_id = fresh 0, we_workflow_definition_id = wd_id wd, we_status = WfRunning,
      we_task_executions = map (execution_of (\<lambda>i. fresh (Suc i)) (fresh 0) (wd_task_definitions wd))
        (wd_task_definitions wd),
      we_created_at = now, we_started_at = None, we_completed_at = None\<rparr>"

lemma started_execution_stored:
  assumes "definitions_inv db" "exec_inv db" "load_definition wid db = (db, Inr (Some wd))" "wd_enabled wd"
    "unused_ids fresh (length (wd_task_definitions wd)) db" "length (wd_task_definitions wd) < 2 ^ 31"
  obtains db' q' where "start_workflow fresh now at wid (db, q) = ((db', q'), Inr (fresh 0))"
    "get_workflow_execution (fresh 0) db' = (db', Inr (compiled_execution fresh now wd))"
proof -
  let ?tds = "wd_task_definitions wd" and ?f = "\<lambda>i. fresh (Suc i)"
  let ?w = "started_row fresh now wid" and ?rows = "execution_rows ?f (fresh 0) ?tds"
  let ?db = "with_execution ?w ?rows db"
  have start: "start_workflow fresh now at wid (db, q) = ((?db, enqueue (root_ids ?f ?tds) at q), Inr (fresh 0))"
    by (rule start_workflow_ok [OF assms(1,3-6)])
  have new: "fresh 0 \<notin> w_id ` set (workflow_executions db)" using assms(5) by (simp add: unused_ids_def)
  have "distinct (map w_id (workflow_executions ?db))"
    using exec_invD(5) [OF exec_inv_with_execution [OF assms(2) load_definition_ok(1) [OF assms(1,3)] assms(5)]] .
  then have lookup: "lookup_row w_id (fresh 0) (workflow_executions ?db) = Some ?w"
    by (subst lookup_row_Some_iff) (simp_all add: with_execution_def started_row_def)
  have "t_workflow_execution_id t \<noteq> fresh 0" if "t \<in> set (task_executions db)" for t
    using exec_invD(3) [OF assms(2)] that new unfolding workflows_ok_def by metis
  then have old: "tasks_of (task_executions db) (fresh 0) = []" by (simp add: tasks_of_def filter_empty_conv)
  have rows: "tasks_of ?rows (fresh 0) = ?rows"
    by (auto simp: tasks_of_def execution_rows_def intro!: filter_True)
  have tasks: "tasks_of (task_executions ?db) (fresh 0) = ?rows"
    using old rows by (simp add: with_execution_def) (simp add: tasks_of_def)
  have domain: "map task_to_domain ?rows = map (execution_of ?f (fresh 0) ?tds) ?tds"
    by (simp add: execution_rows_def comp_def)
  have "get_workflow_execution (fresh 0) ?db = (?db, Inr (compiled_execution fresh now wd))"
    unfolding get_workflow_execution_eq lookup tasks domain
    using load_definition_SomeD(2) [OF assms(3)]
    by (simp add: workflow_to_domain_def started_row_def compiled_execution_def)
  then show thesis by (rule that [OF start])
qed

text \<open>After a successful start, the query service returns the execution that was compiled.\<close>

lemma started_execution_read_back:
  assumes "definitions_inv db" "exec_inv db" "load_definition wid db = (db, Inr (Some wd))" "wd_enabled wd"
    "unused_ids fresh (length (wd_task_definitions wd)) db" "length (wd_task_definitions wd) < 2 ^ 31"
  shows "\<exists>db' q' we ids. start_workflow fresh now at wid (db, q) = ((db', q'), Inr (we_id we))
     \<and> create_workflow_execution fresh now wd = Inr (we, ids)
     \<and> get_workflow_execution (we_id we) db' = (db', Inr we)"
proof (rule started_execution_stored [OF assms])
  fix db' q'
  assume stored: "start_workflow fresh now at wid (db, q) = ((db', q'), Inr (fresh 0))"
    "get_workflow_execution (fresh 0) db' = (db', Inr (compiled_execution fresh now wd))"
  have id: "we_id (compiled_execution fresh now wd) = fresh 0" by (simp add: compiled_execution_def)
  have "\<exists>ids. create_workflow_execution fresh now wd = Inr (compiled_execution fresh now wd, ids)"
    using create_workflow_execution_eq [OF load_definition_ok(1) [OF assms(1,3)]]
    by (simp add: compiled_execution_def Let_def)
  then show ?thesis using stored id by metis
qed

lemma walk_definitions_exec_inv: "exec_inv walk_definitions"
  using sys_invD(1) [OF sys_inv_reachable [OF walk1_reachable]] by (simp add: walk_defs)

section \<open>The stored executions\<close>

fun create_all :: "workflow_execution list \<Rightarrow> database \<Rightarrow> database" where
  "create_all [] db = db"
| "create_all (we # wes) db = create_all wes (fst (create_execution we db))"

fun creatable_all :: "database \<Rightarrow> workflow_execution list \<Rightarrow> bool" where
  "creatable_all db [] = True"
| "creatable_all db (we # wes) = (creatable db we \<and> creatable_all (fst (create_execution we db)) wes)"

lemma create_all_fold: "create_all wes db = fold creation wes db"
  by (induction wes arbitrary: db) (simp_all add: creation_def)

lemma creatable_all_iff: "creatable_all db wes = executions.storable_all db wes"
  by (induction wes arbitrary: db) (simp_all add: creation_def)

lemma load_execution_found: "load_execution wid db = (db, Inr (found_execution wid db))"
  by (cases "lookup_row w_id wid (workflow_executions db)") (simp_all add: found_execution_def load_execution_def Let_def)

text \<open>
  The repository of executions. After creating any sequence of new executions, each is loaded
  as it was created, output, times and all, and every other execution as before; deleting one
  then forgets that one and no other. The tables stay consistent throughout.
\<close>

lemma executions_stored:
  assumes "exec_inv db" "creatable_all db wes"
  shows "(\<forall>we \<in> set wes. load_execution (we_id we) (create_all wes db) = (create_all wes db, Inr (Some we)))
     \<and> (\<forall>k. k \<notin> we_id ` set wes \<longrightarrow>
          load_execution k (create_all wes db) = (create_all wes db, snd (load_execution k db)))
     \<and> (\<forall>wid k. snd (load_execution k (fst (delete_execution wid (create_all wes db)))) =
          (if k = wid then Inr None else snd (load_execution k (create_all wes db))))
     \<and> exec_inv (create_all wes db)
     \<and> (\<forall>wid. exec_inv (fst (delete_execution wid (create_all wes db))))"
proof -
  have inv: "exec_inv (create_all wes db)"
    using executions.inv_store_all assms by (simp add: create_all_fold creatable_all_iff)
  have removed: "fst (delete_execution wid (create_all wes db)) = discarded wid (create_all wes db)" for wid
    by (simp add: discarded_def)
  have "\<forall>we \<in> set wes. load_execution (we_id we) (create_all wes db) = (create_all wes db, Inr (Some we))"
    using executions.load_stored assms by (simp add: load_execution_found create_all_fold creatable_all_iff)
  moreover have "\<forall>k. k \<notin> we_id ` set wes \<longrightarrow>
      load_execution k (create_all wes db) = (create_all wes db, snd (load_execution k db))"
    using executions.load_unstored assms by (simp add: load_execution_found create_all_fold creatable_all_iff)
  ultimately show ?thesis
    using inv executions.inv_remove [OF inv] executions.load_remove [OF inv]
    by (simp add: load_execution_found removed)
qed

end
