(* ===== verification/Trigger_Properties.thy ===== *)
theory Trigger_Properties
  imports Start_Properties
begin

text \<open>
  Chronological triggers and plugins: which trigger is due first, what processing it does, what a
  failed call leaves, the trigger that blocks the scheduler, the arithmetic of intervals, the
  registry of plugins and what a validated configuration guarantees.
\<close>

section \<open>Due triggers\<close>

text \<open>
  C28. The due trigger. The scheduler gets an enabled trigger whose next run is not after now, not
  locked by another transaction, with the earliest next run (ties by identifier), and nothing
  exactly when there is none; reading it changes nothing.
\<close>

theorem next_due_is_earliest:
  "\<exists>r. get_next_due locked now db = (db, Inr r)
     \<and> (r = None \<longleftrightarrow> \<not> (\<exists>s t. due locked now db s t))
     \<and> (\<forall>d. r = Some d \<longrightarrow>
          (\<exists>s t. due locked now db s t
             \<and> d = \<lparr>due_trigger_definition_id = cts_trigger_definition_id s,
                   due_workflow_definition_id = trr_workflow_definition_id t,
                   due_plugin_type = trr_plugin_type t, due_configuration = trr_configuration t,
                   due_next_run_at = cts_next_run_at s\<rparr>
             \<and> (\<forall>s' t'. due locked now db s' t' \<longrightarrow>
                  (cts_next_run_at s, cts_trigger_definition_id s) \<le> (cts_next_run_at s', cts_trigger_definition_id s'))))"
proof -
  obtain r where r: "get_next_due locked now db = (db, Inr r)" using get_next_due_total by blast
  moreover have "r = None \<longleftrightarrow> \<not> (\<exists>s t. due locked now db s t)"
    using get_next_due_None_iff [of locked now db] r by auto
  moreover have "\<exists>s t. due locked now db s t
       \<and> d = \<lparr>due_trigger_definition_id = cts_trigger_definition_id s,
             due_workflow_definition_id = trr_workflow_definition_id t,
             due_plugin_type = trr_plugin_type t, due_configuration = trr_configuration t,
             due_next_run_at = cts_next_run_at s\<rparr>
       \<and> (\<forall>s' t'. due locked now db s' t' \<longrightarrow>
            (cts_next_run_at s, cts_trigger_definition_id s) \<le> (cts_next_run_at s', cts_trigger_definition_id s'))"
    if "r = Some d" for d
    by (rule get_next_due_SomeD [OF r [unfolded that]]) blast
  ultimately show ?thesis by blast
qed

lemma walk_due:
  "get_next_due (\<lambda>_. False) 60000000 walk_definitions =
     (walk_definitions, Inr (Some \<lparr>due_trigger_definition_id = Uuid 2, due_workflow_definition_id = Uuid 3,
        due_plugin_type = ''interval'', due_configuration = [(''interval_seconds'', JInt 60)],
        due_next_run_at = 60000000\<rparr>))"
  by code_simp

definition walk_due_trigger :: due_trigger where
  "walk_due_trigger = \<lparr>due_trigger_definition_id = Uuid 2, due_workflow_definition_id = Uuid 3,
     due_plugin_type = ''interval'', due_configuration = [(''interval_seconds'', JInt 60)],
     due_next_run_at = 60000000\<rparr>"

theorem next_due_is_earliest_witness:
  "\<exists>s t. due (\<lambda>_. False) 60000000 walk_definitions s t
     \<and> (\<forall>s' t'. due (\<lambda>_. False) 60000000 walk_definitions s' t' \<longrightarrow>
          (cts_next_run_at s, cts_trigger_definition_id s) \<le> (cts_next_run_at s', cts_trigger_definition_id s'))"
proof -
  have "Inr (Some walk_due_trigger) = snd (get_next_due (\<lambda>_. False) 60000000 walk_definitions)"
    by (simp add: walk_due walk_due_trigger_def)
  then show ?thesis
    using next_due_is_earliest [of "\<lambda>_. False" 60000000 walk_definitions] by force
qed

text \<open>
  C29. Processing a due trigger is advancing its schedule and starting its workflow, in one
  transaction. The next occurrence is computed from the occurrence that was due, not from the
  current time: occurrences missed while no scheduler ran are processed one by one.
\<close>

theorem process_due_effect:
  assumes "definitions_inv db" "get_next_due locked now db = (db, Inr (Some d))"
    "next_run reg d = Inr next_run_at"
    "load_definition (due_workflow_definition_id d) db = (db, Inr (Some wd))" "wd_enabled wd"
    "unused_ids fresh (length (wd_task_definitions wd)) db" "length (wd_task_definitions wd) < 2 ^ 31"
  shows "\<exists>p. process_next_due reg locked fresh now created at (db, q) = (p, Inr True)
     \<and> start_workflow fresh created at (due_workflow_definition_id d)
         (db\<lparr>chronological_trigger_state :=
            (case next_run_at of
               None \<Rightarrow> filter (\<lambda>s. cts_trigger_definition_id s \<noteq> due_trigger_definition_id d)
                         (chronological_trigger_state db)
             | Some t \<Rightarrow> map (\<lambda>s. if cts_trigger_definition_id s = due_trigger_definition_id d
                                 then s\<lparr>cts_next_run_at := t\<rparr> else s) (chronological_trigger_state db))\<rparr>, q)
         = (p, Inr (fresh 0))"
proof -
  let ?rows = "next_schedule (due_trigger_definition_id d) next_run_at (chronological_trigger_state db)"
  let ?db = "with_schedule ?rows db"
  have schema: "distinct (map cts_trigger_definition_id (chronological_trigger_state db))"
    "cts_trigger_definition_id ` set (chronological_trigger_state db) \<subseteq> trr_id ` set (trigger_definitions db)"
    using assms(1) by (simp_all add: definitions_inv_def schema_ok_def)
  have inv: "definitions_inv ?db"
    by (rule definitions_inv_schedule [OF assms(1) next_schedule_keys(1) [OF schema(1)]
          subset_trans [OF next_schedule_keys(2) schema(2)]])
  have load: "load_definition (due_workflow_definition_id d) ?db = (?db, Inr (Some wd))"
    by (simp add: load_definition_schedule assms(4))
  have unused: "unused_ids fresh (length (wd_task_definitions wd)) ?db"
    using assms(6) by (simp add: unused_ids_def)
  have db: "?db = db\<lparr>chronological_trigger_state :=
            (case next_run_at of
               None \<Rightarrow> filter (\<lambda>s. cts_trigger_definition_id s \<noteq> due_trigger_definition_id d)
                         (chronological_trigger_state db)
             | Some t \<Rightarrow> map (\<lambda>s. if cts_trigger_definition_id s = due_trigger_definition_id d
                                 then s\<lparr>cts_next_run_at := t\<rparr> else s) (chronological_trigger_state db))\<rparr>"
    by (simp add: with_schedule_def next_schedule_def delete_where_def update_where_def split: option.splits)
  show ?thesis
    using process_due_ok [OF assms, of created at q]
      start_workflow_ok [OF inv load assms(5) unused assms(7), of created at q]
    unfolding db [symmetric] by simp
qed

lemma walk_next_run: "next_run walk_triggers walk_due_trigger = Inr (Some 120000000)"
  by code_simp

theorem process_due_effect_witness:
  "\<exists>p. process_next_due walk_triggers (\<lambda>_. False) (\<lambda>i. Uuid (10 + i)) 60000000 61 62 (walk_definitions, []) = (p, Inr True)
     \<and> start_workflow (\<lambda>i. Uuid (10 + i)) 61 62 (Uuid 3)
         (walk_definitions\<lparr>chronological_trigger_state :=
            [\<lparr>cts_trigger_definition_id = Uuid 2, cts_next_run_at = 120000000\<rparr>]\<rparr>, []) = (p, Inr (Uuid 10))"
proof -
  have due: "get_next_due (\<lambda>_. False) 60000000 walk_definitions = (walk_definitions, Inr (Some walk_due_trigger))"
    by (simp add: walk_due walk_due_trigger_def)
  have load: "load_definition (due_workflow_definition_id walk_due_trigger) walk_definitions =
      (walk_definitions, Inr (Some walk_definition))"
    by (simp add: walk_due_trigger_def walk_load)
  have rows: "(case Some 120000000 of
               None \<Rightarrow> filter (\<lambda>s. cts_trigger_definition_id s \<noteq> due_trigger_definition_id walk_due_trigger)
                         (chronological_trigger_state walk_definitions)
             | Some t \<Rightarrow> map (\<lambda>s. if cts_trigger_definition_id s = due_trigger_definition_id walk_due_trigger
                                 then s\<lparr>cts_next_run_at := t\<rparr> else s) (chronological_trigger_state walk_definitions))
      = [\<lparr>cts_trigger_definition_id = Uuid 2, cts_next_run_at = 120000000\<rparr>]"
    by (simp add: walk_due_trigger_def walk_definitions_def)
  have wid: "due_workflow_definition_id walk_due_trigger = Uuid 3" by (simp add: walk_due_trigger_def)
  show ?thesis
    using process_due_effect [OF walk_definitions_inv due walk_next_run load walk_unused_execution(3,1,2), of 61 62 "[]"]
    unfolding rows wid by simp
qed

definition disabled_definitions :: database where
  "disabled_definitions = walk_definitions\<lparr>workflow_definitions :=
     [\<lparr>wdr_id = Uuid 3, wdr_name = ''report'', wdr_description = ''two tasks'', wdr_enabled = False\<rparr>]\<rparr>"

lemma disabled_fails:
  "process_next_due walk_triggers (\<lambda>_. False) Uuid 60000000 61 62 (disabled_definitions, []) =
     ((disabled_definitions, []), Inl (WorkflowDefinitionDisabledError (Uuid 3)))"
  by code_simp

lemma disabled_iteration:
  assumes "definitions_inv db" "get_next_due (\<lambda>_. False) now db = (db, Inr (Some d))"
    "next_run reg d = Inr next_run_at"
    "load_definition (due_workflow_definition_id d) db = (db, Inr (Some wd))" "\<not> wd_enabled wd" "now \<le> later"
  shows "scheduler_iteration (process_next_due reg (\<lambda>_. False) fresh later created at) (db, q) = ((db, q), True)"
  using process_due_disabled [OF get_next_due_later [OF assms(1,2,6)] assms(3-5)]
  by (simp add: scheduler_iteration_def)

text \<open>
  C30. A disabled workflow blocks the scheduler. When the trigger that is due first belongs to a
  disabled workflow, no later iteration of the scheduler does anything, whatever other triggers
  become due and however long it runs: each call fetches the same trigger and fails.
\<close>

theorem disabled_workflow_blocks_scheduler:
  assumes "definitions_inv db" "get_next_due (\<lambda>_. False) now db = (db, Inr (Some d))"
    "next_run reg d = Inr next_run_at"
    "load_definition (due_workflow_definition_id d) db = (db, Inr (Some wd))" "\<not> wd_enabled wd"
    "\<forall>(fresh, later, created, at) \<in> set calls. now \<le> later"
  shows "scheduler_run (map (\<lambda>(fresh, later, created, at).
           process_next_due reg (\<lambda>_. False) fresh later created at) calls) (db, q) = (db, q)"
  using assms(6)
proof (induction calls)
  case Nil
  then show ?case by simp
next
  case (Cons c calls)
  obtain fresh later created at where c: "c = (fresh, later, created, at)" by (metis surj_pair)
  then have "now \<le> later" using Cons.prems by simp
  from disabled_iteration [OF assms(1-5) this] Cons show ?case by (simp add: c)
qed

lemma disabled_inv: "definitions_inv disabled_definitions"
  using walk_definitions_inv
  by (simp add: definitions_inv_def schema_ok_def disabled_definitions_def stored_tasks_def
      stored_dependencies_def walk_definitions_def)

theorem disabled_workflow_blocks_scheduler_witness:
  "scheduler_run (map (\<lambda>(fresh, later, created, at).
       process_next_due walk_triggers (\<lambda>_. False) fresh later created at)
     [(Uuid, 60000000, 61, 62), (Uuid, 999999999999, 63, 64)]) (disabled_definitions, []) = (disabled_definitions, [])"
proof (rule disabled_workflow_blocks_scheduler [OF disabled_inv])
  show "get_next_due (\<lambda>_. False) 60000000 disabled_definitions = (disabled_definitions, Inr (Some walk_due_trigger))"
    by code_simp
  show "next_run walk_triggers walk_due_trigger = Inr (Some 120000000)" by (rule walk_next_run)
  show "load_definition (due_workflow_definition_id walk_due_trigger) disabled_definitions =
      (disabled_definitions, Inr (Some (walk_definition\<lparr>wd_enabled := False\<rparr>)))"
    by code_simp
qed simp_all

section \<open>Interval arithmetic\<close>

lemma div_le_bound:
  assumes "0 < (b :: int)"
  shows "a div b \<le> c \<longleftrightarrow> a < b * (c + 1)"
proof
  assume "a div b \<le> c"
  then have "b * (a div b) \<le> b * c" using assms by (intro mult_left_mono) simp_all
  moreover have "a = b * (a div b) + a mod b" by simp
  moreover have "a mod b < b" using assms by simp
  ultimately have "a < b * c + b" by linarith
  then show "a < b * (c + 1)" by (simp add: distrib_left)
next
  assume less: "a < b * (c + 1)"
  show "a div b \<le> c"
  proof (rule ccontr)
    assume "\<not> a div b \<le> c"
    then have "b * (c + 1) \<le> b * (a div b)" using assms by (intro mult_left_mono) simp_all
    moreover have "a = b * (a div b) + a mod b" by simp
    moreover have "0 \<le> a mod b" using assms by simp
    ultimately show False using less by linarith
  qed
qed

text \<open>
  C31. Occurrences of an interval. For a configuration that validation accepts, the next
  occurrence is the current one plus the interval, strictly later, as long as the interval is a
  \<open>timedelta\<close> and the sum a \<open>datetime\<close>; beyond these bounds, which validation does not check, the
  call raises \<open>OverflowError\<close>.
\<close>

theorem interval_occurrence_bounds:
  assumes "interval_validate configuration = Inr ()"
  shows "\<exists>n > 0. map_of configuration ''interval_seconds'' = Some (JInt n)
     \<and> interval_next_occurrence configuration after =
         (if n < 86400000000000 \<and> datetime_ok (after + n * 1000000)
          then Inr (Some (after + n * 1000000)) else Inl OverflowError)"
proof -
  obtain n where n: "map_of configuration ''interval_seconds'' = Some (JInt n)" "n > 0"
    using assms by (auto simp: interval_validate_ok_iff)
  have "n * 1000000 div 86400000000 \<le> 999999999 \<longleftrightarrow> n * 1000000 < 86400000000 * (999999999 + 1)"
    by (rule div_le_bound) simp
  then have "n * 1000000 div 86400000000 \<le> 999999999 \<longleftrightarrow> n < 86400000000000" by linarith
  then show ?thesis using interval_next_valid [OF n, of after] n by (intro exI [of _ n]) simp
qed

theorem interval_occurrence_bounds_witness:
  "\<exists>n > 0. map_of [(''interval_seconds'', JInt 86400000000000)] ''interval_seconds'' = Some (JInt n)
     \<and> interval_next_occurrence [(''interval_seconds'', JInt 86400000000000)] 0 =
         (if n < 86400000000000 \<and> datetime_ok (0 + n * 1000000)
          then Inr (Some (0 + n * 1000000)) else Inl OverflowError)"
  by (rule interval_occurrence_bounds) (simp add: interval_validate_def)

section \<open>Plugins\<close>

text \<open>
  Validated configurations run. For every task plugin of the platform, executing a
  configuration that its validation accepts returns a result, never an exception, for all inputs;
  so a worker always has something to persist for them.
\<close>

lemma validated_tasks_return:
  assumes "p \<in> {produce_value_task, collect_inputs_task, fail_task}" "pl_validate p configuration = Inr ()"
  shows "\<exists>r. pl_execute p \<lparr>context_configuration = configuration, context_inputs = inputs\<rparr> = Inr r"
proof -
  have "\<exists>r. fail_execute \<lparr>context_configuration = configuration, context_inputs = inputs\<rparr> = Inr r"
    if "fail_validate configuration = Inr ()"
    using that by (auto simp: fail_validate_def fail_execute_def is_string_def Let_def
        split: if_splits option.splits json.splits)
  then show ?thesis
    using assms by (auto simp: produce_value_task_def collect_inputs_task_def fail_task_def
        produce_value_execute_def collect_inputs_execute_def Let_def)
qed

end
