(* ===== verification/Loop_Refinement.thy ===== *)
theory Loop_Refinement
  imports Draining Queue_Properties Trigger_Properties
begin

text \<open>
  The loops of all three kinds of processes, of worker, reconciler and scheduler, are runs of
  \<open>System\<close>: whatever holds in every reachable state holds after any of them.
\<close>

section \<open>The reconciler\<close>

lemma reconciler_run_simulated:
  "reconciler_run (map reconcile cycles) (sys_db s, sys_queue s) = (db', q') \<Longrightarrow>
   sys_run treg greg lease s (s\<lparr>sys_db := db', sys_queue := q'\<rparr>)"
proof (induction cycles arbitrary: s)
  case Nil
  then have "s\<lparr>sys_db := db', sys_queue := q'\<rparr> = s" by simp
  then show ?case by simp
next
  case (Cons now cycles)
  let ?s = "s\<lparr>sys_queue := enqueue (runnable_ids (sys_db s)) now (sys_queue s)\<rparr>"
  have "reconciler_run (map reconcile cycles) (sys_db ?s, sys_queue ?s) = (db', q')"
    using Cons.prems by (simp add: reconciler_iteration_def reconcile_eq)
  from Cons.IH [OF this] have "sys_run treg greg lease ?s (s\<lparr>sys_db := db', sys_queue := q'\<rparr>)" by simp
  with reconciled_run show ?case by (rule rtranclp_trans)
qed

section \<open>The scheduler\<close>

record scheduler_round =
  sr_locked :: "uuid \<Rightarrow> bool"
  sr_fresh :: "nat \<Rightarrow> uuid"
  sr_now :: datetime
  sr_created_at :: datetime
  sr_enqueued_at :: datetime

definition due_call :: "(string \<times> trigger_plugin) list \<Rightarrow> scheduler_round \<Rightarrow> (platform, bool) op" where
  "due_call reg r = process_next_due reg (sr_locked r) (sr_fresh r) (sr_now r) (sr_created_at r) (sr_enqueued_at r)"

text \<open>In each round \<open>uuid4\<close> returns identifiers that are not in use.\<close>

fun rounds_unused :: "(string \<times> trigger_plugin) list \<Rightarrow> scheduler_round list \<Rightarrow> platform \<Rightarrow> bool" where
  "rounds_unused reg [] p \<longleftrightarrow> True"
| "rounds_unused reg (r # rs) p \<longleftrightarrow>
     (case snd (get_next_due (sr_locked r) (sr_now r) (fst p)) of
        Inr (Some d) \<Rightarrow> start_ids_unused (sr_fresh r) (fst p) (due_workflow_definition_id d)
      | _ \<Rightarrow> True)
     \<and> rounds_unused reg rs (fst (scheduler_iteration (due_call reg r) p))"

lemma insert_append:
  "insert_on_conflict_do_nothing at (xs @ ys) q = insert_on_conflict_do_nothing at ys (insert_on_conflict_do_nothing at xs q)"
  by (induction xs arbitrary: q) simp_all

lemma inserted_present: "i \<in> set xs \<Longrightarrow> i \<in> qe_task_execution_id ` set (insert_on_conflict_do_nothing at xs q)"
  using insert_keeps [of at xs q] by auto

text \<open>Enqueueing what has been collected in an empty queue is enqueueing at once.\<close>

lemma insert_collected:
  "insert_on_conflict_do_nothing at (map qe_task_execution_id (insert_on_conflict_do_nothing at ids r)) q =
   insert_on_conflict_do_nothing at (map qe_task_execution_id r @ ids) q"
proof (induction ids arbitrary: r)
  case (Cons i ids)
  show ?case
  proof (cases "i \<in> qe_task_execution_id ` set r")
    case True
    then have "i \<in> qe_task_execution_id ` set (insert_on_conflict_do_nothing at (map qe_task_execution_id r) q)"
      by (intro inserted_present) simp
    then show ?thesis using Cons.IH [of r] True by (simp add: insert_append)
  next
    case False
    then show ?thesis using Cons.IH by simp
  qed
qed simp

lemma enqueue_eq: "enqueue ids at q = insert_on_conflict_do_nothing at ids q"
  by (cases ids) (simp_all add: enqueue_def insert_queue_entries_def)

lemma publish_collected: "enqueue (published_ids (enqueue ids at [])) at q = enqueue ids at q"
  by (simp add: enqueue_eq published_ids_def insert_collected)

lemma process_due_published:
  assumes inv: "definitions_inv db"
    and unused: "\<And>d. get_next_due locked now db = (db, Inr (Some d)) \<Longrightarrow>
        start_ids_unused fresh db (due_workflow_definition_id d)"
    and ok: "process_next_due reg locked fresh now created at (db, q) = ((db', q'), Inr b)"
  shows "\<exists>q1. process_next_due reg locked fresh now created at (db, []) = ((db', q1), Inr b)
     \<and> q' = enqueue (published_ids q1) at q"
proof (rule process_due_cases [OF inv unused ok])
  assume none: "db' = db" "q' = q" "\<not> b" "get_next_due locked now db = (db, Inr None)"
  then show ?thesis using process_nothing_due [OF none(4), of reg fresh created at "[]"]
    by (intro exI [of _ "[]"]) (simp add: published_ids_def enqueue_eq)
next
  fix d wd next_run_at
  assume due: "b" "get_next_due locked now db = (db, Inr (Some d))" "next_run reg d = Inr next_run_at"
    "load_definition (due_workflow_definition_id d) db = (db, Inr (Some wd))" "wd_enabled wd"
    "unused_ids fresh (length (wd_task_definitions wd)) db"
  then have small: "length (wd_task_definitions wd) < 2 ^ 31"
    using unused [OF due(2)] by (simp add: start_ids_unused_def)
  note start = process_due_ok [OF inv due(2-6) small, of created at]
  show ?thesis using start [of "[]"] start [of q] ok due(1) by (simp add: publish_collected)
qed

lemma scheduler_iteration_simulated:
  assumes inv: "sys_inv s" and unused: "rounds_unused greg [r] (sys_db s, sys_queue s)"
    and run: "fst (scheduler_iteration (due_call greg r) (sys_db s, sys_queue s)) = (db', q')"
  shows "sys_run treg greg lease s (s\<lparr>sys_db := db', sys_queue := q'\<rparr>)"
proof -
  obtain p x where call: "due_call greg r (sys_db s, sys_queue s) = (p, x)" by (metis surj_pair)
  have p: "p = (db', q')" using run call by (simp add: scheduler_iteration_def split: sum.splits)
  show ?thesis
  proof (cases x)
    case (Inl e)
    have "p = (sys_db s, sys_queue s)"
      by (rule process_next_due_Inl [OF call [unfolded due_call_def Inl]])
    then have "s\<lparr>sys_db := db', sys_queue := q'\<rparr> = s" using p by simp
    then show ?thesis by simp
  next
    case (Inr b)
    have ids: "start_ids_unused (sr_fresh r) (sys_db s) (due_workflow_definition_id d)"
      if "get_next_due (sr_locked r) (sr_now r) (sys_db s) = (sys_db s, Inr (Some d))" for d
      using unused that by simp
    obtain q1 where q1: "process_next_due greg (sr_locked r) (sr_fresh r) (sr_now r) (sr_created_at r) (sr_enqueued_at r)
        (sys_db s, []) = ((db', q1), Inr b)" "q' = enqueue (published_ids q1) (sr_enqueued_at r) (sys_queue s)"
      using process_due_published [OF sys_invD(2) [OF inv] ids call [unfolded due_call_def p Inr]] by blast
    let ?s1 = "s\<lparr>sys_db := db', sys_outbox := published_ids q1 # sys_outbox s\<rparr>"
    have "sys_step treg greg lease s ?s1" by (rule sys_step.step_schedule [OF q1(1) ids])
    moreover have "sys_step treg greg lease ?s1 (?s1\<lparr>sys_queue := enqueue (published_ids q1) (sr_enqueued_at r) (sys_queue ?s1),
        sys_outbox := remove1 (published_ids q1) (sys_outbox ?s1)\<rparr>)"
      by (rule sys_step.step_publish) simp
    ultimately have "sys_run treg greg lease s (?s1\<lparr>sys_queue := enqueue (published_ids q1) (sr_enqueued_at r) (sys_queue ?s1),
        sys_outbox := remove1 (published_ids q1) (sys_outbox ?s1)\<rparr>)" by simp
    then show ?thesis by (simp add: q1(2))
  qed
qed

lemma scheduler_run_simulated:
  assumes "sys_inv s" "rounds_unused greg rounds (sys_db s, sys_queue s)"
    "scheduler_run (map (due_call greg) rounds) (sys_db s, sys_queue s) = (db', q')"
  shows "sys_run treg greg lease s (s\<lparr>sys_db := db', sys_queue := q'\<rparr>)"
  using assms
proof (induction rounds arbitrary: s)
  case Nil
  then have "s\<lparr>sys_db := db', sys_queue := q'\<rparr> = s" by simp
  then show ?case by simp
next
  case (Cons r rs)
  obtain db1 q1 where one: "fst (scheduler_iteration (due_call greg r) (sys_db s, sys_queue s)) = (db1, q1)" by force
  let ?s = "s\<lparr>sys_db := db1, sys_queue := q1\<rparr>"
  have first: "sys_run treg greg lease s ?s"
    by (rule scheduler_iteration_simulated [OF Cons.prems(1) _ one]) (use Cons.prems(2) in simp)
  have "sys_inv ?s" using run_advances [OF first Cons.prems(1)] by blast
  moreover have "rounds_unused greg rs (sys_db ?s, sys_queue ?s)" using Cons.prems(2) one by simp
  moreover have "scheduler_run (map (due_call greg) rs) (sys_db ?s, sys_queue ?s) = (db', q')"
    using Cons.prems(3) one by simp
  ultimately have "sys_run treg greg lease ?s (?s\<lparr>sys_db := db', sys_queue := q'\<rparr>)" by (rule Cons.IH)
  then have "sys_run treg greg lease ?s (s\<lparr>sys_db := db', sys_queue := q'\<rparr>)" by simp
  with first show ?case by (rule rtranclp_trans)
qed

section \<open>All loops\<close>

text \<open>What a process leaves behind: its loop, from the state it finds.\<close>

datatype process_loop =
    WorkerLoop uuid "worker_round list"
  | ReconcilerLoop "datetime list"
  | SchedulerLoop "scheduler_round list"

fun loop_result :: "(string \<times> task_plugin) list \<Rightarrow> (string \<times> trigger_plugin) list \<Rightarrow> timedelta \<Rightarrow> process_loop \<Rightarrow> platform \<Rightarrow> platform" where
  "loop_result treg greg lease (WorkerLoop w rounds) p = fst (worker_run treg lease w rounds p)"
| "loop_result treg greg lease (ReconcilerLoop cycles) p = reconciler_run (map reconcile cycles) p"
| "loop_result treg greg lease (SchedulerLoop rounds) p = scheduler_run (map (due_call greg) rounds) p"

text \<open>The worker is idle, and \<open>uuid4\<close> returns tokens and identifiers that are not in use.\<close>

fun may_run :: "(string \<times> trigger_plugin) list \<Rightarrow> process_loop \<Rightarrow> system \<Rightarrow> bool" where
  "may_run greg (WorkerLoop w rounds) s \<longleftrightarrow>
     sys_workers s w = Idle \<and> distinct (map wr_token rounds) \<and> (\<forall>r \<in> set rounds. wr_token r \<notin> tokens_in_use s)"
| "may_run greg (ReconcilerLoop cycles) s \<longleftrightarrow> True"
| "may_run greg (SchedulerLoop rounds) s \<longleftrightarrow> rounds_unused greg rounds (sys_db s, sys_queue s)"


text \<open>The scheduler finds the walk's trigger due, and the next round nothing.\<close>

definition walk_due_rounds :: "scheduler_round list" where
  "walk_due_rounds = map (\<lambda>now. \<lparr>sr_locked = (\<lambda>_. False), sr_fresh = (\<lambda>i. Uuid (10 + i)), sr_now = now,
     sr_created_at = now + 1, sr_enqueued_at = now + 2\<rparr>) [60000000, 60000010]"

lemma walk_rounds_unused: "rounds_unused walk_triggers walk_due_rounds (walk_definitions, [])"
proof -
  have "snd (get_next_due (\<lambda>_. False) 60000010 (fst (fst (scheduler_iteration (due_call walk_triggers (walk_due_rounds ! 0))
      (walk_definitions, []))))) = Inr None"
    by code_simp
  moreover have "snd (get_next_due (\<lambda>_. False) 60000000 walk_definitions) = Inr (Some walk_due_trigger)"
    by code_simp
  ultimately show ?thesis
    by (simp add: walk_due_rounds_def walk_start_unused) (simp add: walk_due_trigger_def walk_start_unused)
qed

lemma walk_scheduled:
  "map t_status (task_executions (fst (loop_result walk_tasks walk_triggers 30 (SchedulerLoop walk_due_rounds) (walk_definitions, []))))
     = [Pending, Pending]"
  by code_simp

definition failing_rounds :: "worker_round list" where
  "failing_rounds = [(walk_rounds ! 0)\<lparr>wr_settle_raises := Some (RuntimeError ''connection'')\<rparr>, walk_rounds ! 1]"


end
