(* ===== verification/Service_Contracts.thy ===== *)
theory Service_Contracts
  imports Start_Properties
begin

text \<open>
  The contract the application services share: a call that raises has changed nothing. A history
  of calls can therefore be read without its failed calls. The services of the API and of the
  scheduler are instances, one call after the other on the same database and queue.
\<close>

section \<open>Atomic services\<close>

locale atomic_service =
  fixes run :: "'r \<Rightarrow> 's \<Rightarrow> 's \<times> ('e + 'a)"
  assumes failed_unchanged: "run r s = (s', Inl e) \<Longrightarrow> s' = s"
begin

fun after_calls :: "'r list \<Rightarrow> 's \<Rightarrow> 's" where
  "after_calls [] s = s"
| "after_calls (r # rs) s = after_calls rs (fst (run r s))"

fun succeeding :: "'s \<Rightarrow> 'r list \<Rightarrow> 'r list" where
  "succeeding s [] = []"
| "succeeding s (r # rs) =
     (case run r s of (s', Inl e) \<Rightarrow> succeeding s rs | (s', Inr x) \<Rightarrow> r # succeeding s' rs)"

lemma after_succeeding: "after_calls (succeeding s rs) s = after_calls rs s"
proof (induction rs arbitrary: s)
  case (Cons r rs)
  obtain s' y where run: "run r s = (s', y)" by force
  show ?case
  proof (cases y)
    case (Inl e)
    then have "s' = s" using run failed_unchanged by simp
    then show ?thesis using run Inl Cons by simp
  next
    case (Inr x)
    then show ?thesis using run Cons by simp
  qed
qed simp

fun all_succeed :: "'s \<Rightarrow> 'r list \<Rightarrow> bool" where
  "all_succeed s [] = True"
| "all_succeed s (r # rs) = (case run r s of (s', Inl e) \<Rightarrow> False | (s', Inr x) \<Rightarrow> all_succeed s' rs)"

lemma succeeding_succeed: "all_succeed s (succeeding s rs)"
  by (induction rs arbitrary: s) (auto split: sum.split prod.split)

end

text \<open>An atomic service whose successful calls keep an invariant keeps it in every history.\<close>

locale invariant_service = atomic_service +
  fixes inv :: "'b \<Rightarrow> bool"
    and admissible :: "'b \<Rightarrow> 'a \<Rightarrow> bool"
  assumes inv_success: "inv s \<Longrightarrow> admissible s r \<Longrightarrow> run r s = (s', Inr x) \<Longrightarrow> inv s'"
begin

fun admissible_all :: "'b \<Rightarrow> 'a list \<Rightarrow> bool" where
  "admissible_all s [] = True"
| "admissible_all s (r # rs) = (admissible s r \<and> admissible_all (fst (run r s)) rs)"

lemma inv_after_calls: "inv s \<Longrightarrow> admissible_all s rs \<Longrightarrow> inv (after_calls rs s)"
proof (induction rs arbitrary: s)
  case (Cons r rs)
  obtain s' y where run: "run r s = (s', y)" by force
  have "inv s'"
  proof (cases y)
    case (Inl e)
    then show ?thesis using run failed_unchanged Cons.prems(1) by blast
  next
    case (Inr x)
    show ?thesis by (rule inv_success [OF Cons.prems(1) _ run [unfolded Inr]]) (use Cons.prems(2) in simp)
  qed
  then show ?case using Cons run by simp
qed simp

end

section \<open>The services of the platform\<close>

datatype service_call =
    CreateDefinition "nat \<Rightarrow> uuid" "nat \<Rightarrow> datetime" create_workflow_definition
  | DeleteDefinition uuid
  | StartWorkflow "nat \<Rightarrow> uuid" datetime datetime uuid
  | ProcessNextDue "uuid \<Rightarrow> bool" "nat \<Rightarrow> uuid" datetime datetime datetime

datatype service_answer = Identifier uuid | Nothing | Processed bool

definition on_database :: "(database, 'a) op \<Rightarrow> ('a \<Rightarrow> service_answer) \<Rightarrow> (platform, service_answer) op" where
  "on_database m f p = (case m (fst p) of (db', Inl e) \<Rightarrow> ((db', snd p), Inl e) | (db', Inr x) \<Rightarrow> ((db', snd p), Inr (f x)))"

definition on_platform :: "(platform, 'a) op \<Rightarrow> ('a \<Rightarrow> service_answer) \<Rightarrow> (platform, service_answer) op" where
  "on_platform m f p = (case m p of (p', Inl e) \<Rightarrow> (p', Inl e) | (p', Inr x) \<Rightarrow> (p', Inr (f x)))"

fun serve :: "(string \<times> task_plugin) list \<Rightarrow> (string \<times> trigger_plugin) list \<Rightarrow> service_call
    \<Rightarrow> (platform, service_answer) op" where
  "serve task_reg trigger_reg (CreateDefinition fresh clock request) =
     on_database (create_definition task_reg trigger_reg fresh clock request) Identifier"
| "serve task_reg trigger_reg (DeleteDefinition wid) = on_database (delete_workflow_definition wid) (\<lambda>_. Nothing)"
| "serve task_reg trigger_reg (StartWorkflow fresh now enqueued_at wid) =
     on_platform (start_workflow fresh now enqueued_at wid) Identifier"
| "serve task_reg trigger_reg (ProcessNextDue locked fresh now created_at enqueued_at) =
     on_platform (process_next_due trigger_reg locked fresh now created_at enqueued_at) Processed"

lemma delete_definition_atomic: "delete_workflow_definition wid db = (db', Inl e) \<Longrightarrow> db' = db"
  by (auto simp: delete_workflow_definition_eq split: prod.splits sum.splits)

lemma start_workflow_atomic:
  assumes "start_workflow fresh now at wid (db, q) = (p, Inl e)"
  shows "p = (db, q)"
proof -
  obtain u' q' r where s: "start_and_commit fresh now at wid (uow_factory db, q) = ((u', q'), r)"
    by (metis surj_pair)
  with assms have "r = Inl e" "p = (committed u', q')"
    by (simp_all add: start_workflow_def with_uow_and_queue_def)
  with s start_and_commit_Inl [of fresh now at wid "uow_factory db" q u' q' e] show ?thesis by simp
qed

lemma serve_failed:
  assumes "serve task_reg trigger_reg call p = (p', Inl e)"
  shows "p' = p"
proof (cases call)
  case (CreateDefinition fresh clock request)
  then show ?thesis
    using assms create_definition_atomic [of task_reg trigger_reg fresh clock request "fst p" _ e]
    by (cases p) (auto simp: on_database_def split: prod.splits sum.splits)
next
  case (DeleteDefinition wid)
  then show ?thesis
    using assms delete_definition_atomic [of wid "fst p" _ e]
    by (cases p) (auto simp: on_database_def split: prod.splits sum.splits)
next
  case (StartWorkflow fresh now enqueued_at wid)
  then show ?thesis
    using assms start_workflow_atomic [of fresh now enqueued_at wid "fst p" "snd p" p' e]
    by (auto simp: on_platform_def split: prod.splits sum.splits)
next
  case (ProcessNextDue locked fresh now created_at enqueued_at)
  then show ?thesis
    using assms process_next_due_Inl [of trigger_reg locked fresh now created_at enqueued_at "fst p" "snd p" p' e]
    by (auto simp: on_platform_def split: prod.splits sum.splits)
qed

text \<open>
  What the platform keeps between calls, and what a call may rely on: unused identifiers from
  \<open>uuid4\<close>, counters inside their \<open>INTEGER\<close> columns.
\<close>

definition platform_inv :: "platform \<Rightarrow> bool" where
  "platform_inv p \<longleftrightarrow> definitions_inv (fst p) \<and> exec_inv (fst p) \<and> queue_inv (snd p)"

fun admissible_call :: "platform \<Rightarrow> service_call \<Rightarrow> bool" where
  "admissible_call p (CreateDefinition fresh clock request) \<longleftrightarrow>
     unused_definition_ids fresh (length (cw_tasks request)) (length (cw_triggers request)) (fst p)
     \<and> (\<forall>t \<in> set (cw_tasks request). int4 (ct_max_tries t))"
| "admissible_call p (DeleteDefinition wid) \<longleftrightarrow> True"
| "admissible_call p (StartWorkflow fresh now enqueued_at wid) \<longleftrightarrow> start_ids_unused fresh (fst p) wid"
| "admissible_call p (ProcessNextDue locked fresh now created_at enqueued_at) \<longleftrightarrow>
     (\<forall>d. get_next_due locked now (fst p) = (fst p, Inr (Some d)) \<longrightarrow>
        start_ids_unused fresh (fst p) (due_workflow_definition_id d))"

lemma platform_inv_started:
  assumes "definitions_inv db" "workflow_executions db = workflow_executions db0"
    "task_executions db = task_executions db0" "exec_inv db0" "queue_inv q"
    "definition_ok tds" "unused_ids fresh (length tds) db"
  shows "platform_inv (with_execution (started_row fresh now wid)
     (execution_rows (\<lambda>i. fresh (Suc i)) (fresh 0) tds) db, enqueue ids at q)"
  using exec_inv_with_execution [of db tds fresh now wid] exec_inv_tables [OF assms(2,3)] assms
    pg.inv_enqueue [OF assms(5)]
  by (simp add: platform_inv_def with_execution_def definitions_inv_cong)

lemma created_definition_platform_inv:
  assumes "platform_inv (db, q)" "admissible_call (db, q) (CreateDefinition fresh clock request)"
    "create_definition task_reg trigger_reg fresh clock request db = (db', Inr wid)"
  shows "platform_inv (db', q)"
proof (rule create_definition_ok [of db fresh request task_reg trigger_reg clock db' wid])
  fix wd rows
  assume db': "db' = with_schedule rows (with_definition wd db)" and inv': "definitions_inv db'"
  have "exec_inv db'"
    using exec_inv_tables [of db' db] assms(1) by (simp add: db' platform_inv_def with_definition_def)
  then show ?thesis using inv' assms(1) by (simp add: platform_inv_def)
qed (use assms in \<open>simp_all add: platform_inv_def\<close>)

lemma deleted_definition_platform_inv:
  assumes "platform_inv (db, q)" "delete_workflow_definition wid db = (db', Inr ())"
  shows "platform_inv (db', q)"
  using delete_cases [OF assms(2)] definitions_inv_delete [of db wid] exec_inv_tables [of db' db] assms(1)
  by (auto simp: platform_inv_def without_definition_def)

lemma processed_due_platform_inv:
  assumes inv: "platform_inv (db, q)"
    and unused: "admissible_call (db, q) (ProcessNextDue locked fresh now created_at at)"
    and ok: "process_next_due reg locked fresh now created_at at (db, q) = ((db', q'), Inr b)"
  shows "platform_inv (db', q')"
proof -
  note i = inv [unfolded platform_inv_def, simplified]
  have u: "start_ids_unused fresh db (due_workflow_definition_id d)"
    if "get_next_due locked now db = (db, Inr (Some d))" for d
    using unused that by simp
  show ?thesis
  proof (rule process_due_cases [OF _ u ok])
    show "definitions_inv db" using i by simp
    show "platform_inv (db', q')" if "db' = db" "q' = q" using that inv by simp
  next
    fix d wd n
    assume wd: "definition_ok (wd_task_definitions wd)" "unused_ids fresh (length (wd_task_definitions wd)) db"
      and "db' = with_execution (started_row fresh created_at (due_workflow_definition_id d))
           (execution_rows (\<lambda>i. fresh (Suc i)) (fresh 0) (wd_task_definitions wd))
           (with_schedule (next_schedule (due_trigger_definition_id d) n (chronological_trigger_state db)) db)"
        "q' = enqueue (root_ids (\<lambda>i. fresh (Suc i)) (wd_task_definitions wd)) at q"
    moreover have "definitions_inv (with_schedule (next_schedule (due_trigger_definition_id d) n
        (chronological_trigger_state db)) db)"
      using definitions_inv_next_schedule i by simp
    ultimately show "platform_inv (db', q')"
      using platform_inv_started [OF _ _ _ _ _ wd(1), of _ db q fresh] i by (simp add: unused_ids_def)
  qed
qed

lemma serve_platform_inv:
  assumes "platform_inv p" "admissible_call p call" "serve task_reg trigger_reg call p = (p', Inr x)"
  shows "platform_inv p'"
proof (cases call)
  case (CreateDefinition fresh clock request)
  then show ?thesis
    using assms created_definition_platform_inv [of "fst p" "snd p" fresh clock request task_reg trigger_reg]
    by (auto simp: on_database_def split: prod.splits sum.splits)
next
  case (DeleteDefinition wid)
  then show ?thesis
    using assms deleted_definition_platform_inv [of "fst p" "snd p" wid]
    by (auto simp: on_database_def split: prod.splits sum.splits)
next
  case (StartWorkflow fresh now enqueued_at wid)
  obtain db q db' q' where p: "p = (db, q)" "p' = (db', q')" by fastforce
  obtain i where ok: "start_workflow fresh now enqueued_at wid (db, q) = ((db', q'), Inr i)"
    using assms(3) StartWorkflow p by (auto simp: on_platform_def split: prod.splits sum.splits)
  have inv: "definitions_inv db" "exec_inv db" "queue_inv q" using assms(1) p by (simp_all add: platform_inv_def)
  have "start_ids_unused fresh db wid" using assms(2) StartWorkflow p by simp
  from start_workflow_cases [OF inv(1) this ok] show ?thesis
    using platform_inv_started [OF inv(1) refl refl inv(2,3)] p(2) by metis
next
  case (ProcessNextDue locked fresh now created_at enqueued_at)
  then show ?thesis
    using assms processed_due_platform_inv [of "fst p" "snd p" locked fresh now created_at enqueued_at trigger_reg]
    by (cases p') (auto simp: on_platform_def split: prod.splits sum.splits)
qed

interpretation services: invariant_service "serve task_reg trigger_reg" platform_inv admissible_call
  for task_reg trigger_reg
  by unfold_locales (rule serve_failed, assumption, rule serve_platform_inv)

section \<open>Histories of calls\<close>

fun run_calls :: "(string \<times> task_plugin) list \<Rightarrow> (string \<times> trigger_plugin) list
    \<Rightarrow> service_call list \<Rightarrow> platform \<Rightarrow> platform \<times> (exn + service_answer) list" where
  "run_calls task_reg trigger_reg [] p = (p, [])"
| "run_calls task_reg trigger_reg (c # cs) p =
     (let (p1, answer) = serve task_reg trigger_reg c p; (p2, answers) = run_calls task_reg trigger_reg cs p1
      in (p2, answer # answers))"

fun admissible_calls :: "(string \<times> task_plugin) list \<Rightarrow> (string \<times> trigger_plugin) list
    \<Rightarrow> platform \<Rightarrow> service_call list \<Rightarrow> bool" where
  "admissible_calls task_reg trigger_reg p [] \<longleftrightarrow> True"
| "admissible_calls task_reg trigger_reg p (c # cs) \<longleftrightarrow>
     admissible_call p c \<and> admissible_calls task_reg trigger_reg (fst (serve task_reg trigger_reg c p)) cs"

definition successful :: "(exn + service_answer) \<Rightarrow> bool" where
  "successful answer \<longleftrightarrow> (case answer of Inl e \<Rightarrow> False | Inr x \<Rightarrow> True)"

text \<open>The calls of a history that succeeded in it.\<close>

definition successful_calls :: "(string \<times> task_plugin) list \<Rightarrow> (string \<times> trigger_plugin) list
    \<Rightarrow> service_call list \<Rightarrow> platform \<Rightarrow> service_call list" where
  "successful_calls task_reg trigger_reg cs p =
     map fst (filter (\<lambda>(c, answer). successful answer) (zip cs (snd (run_calls task_reg trigger_reg cs p))))"

lemma fst_run_calls: "fst (run_calls task_reg trigger_reg cs p) = services.after_calls task_reg trigger_reg cs p"
  by (induction cs arbitrary: p) (simp_all add: split_beta Let_def)

lemma admissible_calls_iff:
  "admissible_calls task_reg trigger_reg p cs = services.admissible_all task_reg trigger_reg p cs"
  by (induction cs arbitrary: p) simp_all

lemma successful_calls_eq:
  "successful_calls task_reg trigger_reg cs p = services.succeeding task_reg trigger_reg p cs"
proof (induction cs arbitrary: p)
  case (Cons c cs)
  obtain p1 answer where s: "serve task_reg trigger_reg c p = (p1, answer)" by fastforce
  then show ?case using Cons [of p1]
    by (cases answer) (auto simp: successful_calls_def split_beta Let_def successful_def dest: serve_failed)
qed (simp add: successful_calls_def)

lemma answers_successful:
  "services.all_succeed task_reg trigger_reg p cs \<Longrightarrow>
   filter (\<lambda>answer. \<not> successful answer) (snd (run_calls task_reg trigger_reg cs p)) = []"
proof (induction cs arbitrary: p)
  case (Cons c cs)
  obtain p1 answer where s: "serve task_reg trigger_reg c p = (p1, answer)" by fastforce
  then show ?case using Cons by (cases answer) (simp_all add: successful_def split_beta Let_def)
qed simp


definition walk_calls :: "service_call list" where
  "walk_calls = [CreateDefinition Uuid (\<lambda>_. 0) walk_request, DeleteDefinition (Uuid 3),
     StartWorkflow (\<lambda>i. Uuid (10 + i)) 5 6 (Uuid 9), StartWorkflow (\<lambda>i. Uuid (10 + i)) 5 6 (Uuid 3)]"

lemma walk_refused:
  "delete_workflow_definition (Uuid 3) walk_definitions = (walk_definitions, Inl IntegrityError)"
  "load_definition (Uuid 9) walk_definitions = (walk_definitions, Inr None)"
  "start_workflow (\<lambda>i. Uuid (10 + i)) 5 6 (Uuid 9) (walk_definitions, []) =
     ((walk_definitions, []), Inl (WorkflowDefinitionNotFoundError (Uuid 9)))"
  by code_simp+

lemma walk_serve:
  "serve walk_tasks walk_triggers (CreateDefinition Uuid (\<lambda>_. 0) walk_request) (empty_database, []) =
     ((walk_definitions, []), Inr (Identifier (Uuid 3)))"
  "serve walk_tasks walk_triggers (DeleteDefinition (Uuid 3)) (walk_definitions, []) =
     ((walk_definitions, []), Inl IntegrityError)"
  "serve walk_tasks walk_triggers (StartWorkflow (\<lambda>i. Uuid (10 + i)) 5 6 (Uuid 9)) (walk_definitions, []) =
     ((walk_definitions, []), Inl (WorkflowDefinitionNotFoundError (Uuid 9)))"
  "serve walk_tasks walk_triggers (StartWorkflow (\<lambda>i. Uuid (10 + i)) 5 6 (Uuid 3)) (walk_definitions, []) =
     ((db_started, [waiting_entry (Uuid 11) 6]), Inr (Identifier (Uuid 10)))"
  by (simp_all add: on_database_def on_platform_def walk_create walk_start walk_refused)

lemma walk_ids_unused: "start_ids_unused (\<lambda>i. Uuid (10 + i)) walk_definitions (Uuid 3)"
  using walk_load walk_unused_execution by (simp add: start_ids_unused_def)


end
