(* ===== verification/Read_Committed.thy ===== *)
theory Read_Committed
  imports Execution_Properties
begin

text \<open>
  The engine opens transactions at PostgreSQL's default level, READ COMMITTED
  (\<open>infrastructure/database/engine.py\<close> sets no other): a statement sees the rows committed when it
  starts and the transaction's own versions, and a row that a transaction has written is locked
  until it ends. Here the statements of two transactions interleave. Two workers that complete the
  last two tasks of a workflow at the same time each see the other's task as still running, and
  neither completes the workflow; in a serial order the second does.
\<close>

section \<open>Transactions with their own row versions\<close>

record transaction =
  own_tasks :: "task_row list"
  own_workflows :: "workflow_row list"

definition begin_transaction :: transaction where
  "begin_transaction = \<lparr>own_tasks = [], own_workflows = []\<rparr>"

definition overlay :: "('r \<Rightarrow> uuid) \<Rightarrow> 'r list \<Rightarrow> 'r list \<Rightarrow> 'r list" where
  "overlay key own rows = map (\<lambda>r. case find (\<lambda>v. key v = key r) own of None \<Rightarrow> r | Some v \<Rightarrow> v) rows"

text \<open>What the next statement of a transaction sees; committing makes that the committed state.\<close>

definition view :: "transaction \<Rightarrow> database \<Rightarrow> database" where
  "view tx db = db\<lparr>task_executions := overlay t_id (own_tasks tx) (task_executions db),
                   workflow_executions := overlay w_id (own_workflows tx) (workflow_executions db)\<rparr>"

definition statement :: "(database \<Rightarrow> database \<times> 'a) \<Rightarrow> database \<Rightarrow> transaction \<Rightarrow> transaction \<times> 'a" where
  "statement f db tx =
     (case f (view tx db) of
        (db', x) \<Rightarrow>
          (\<lparr>own_tasks = filter (\<lambda>t. t \<notin> set (task_executions db)) (task_executions db'),
            own_workflows = filter (\<lambda>w. w \<notin> set (workflow_executions db)) (workflow_executions db')\<rparr>, x))"

text \<open>A transaction waits for a row the other has written; a schedule without waiting writes apart.\<close>

definition no_lock_conflict :: "transaction \<Rightarrow> transaction \<Rightarrow> bool" where
  "no_lock_conflict tx ty \<longleftrightarrow>
     t_id ` set (own_tasks tx) \<inter> t_id ` set (own_tasks ty) = {}
     \<and> w_id ` set (own_workflows tx) \<inter> w_id ` set (own_workflows ty) = {}"

text \<open>
  Two calls of \<open>complete_task\<close>, statement by statement in turns, then both commits. The second
  component tells whether any call completed the workflow.
\<close>

definition concurrent_completions :: "complete_request \<Rightarrow> complete_request \<Rightarrow> database \<Rightarrow> (database \<times> bool) option" where
  "concurrent_completions request1 request2 db =
     (let (x1, r1) = statement (complete_task_helper request1) db begin_transaction;
          (y1, r2) = statement (complete_task_helper request2) db begin_transaction;
          (x2, c1) = statement (update_child_dependencies (chr_child_task_ids r1)) db x1;
          (y2, c2) = statement (update_child_dependencies (chr_child_task_ids r2)) db y1;
          (x3, done1) = statement (complete_workflow_if_finished (chr_workflow_execution_id r1)
                                     (creq_completed_at request1)) db x2;
          (y3, done2) = statement (complete_workflow_if_finished (chr_workflow_execution_id r2)
                                     (creq_completed_at request2)) db y2
      in if chr_succeeded r1 \<and> chr_succeeded r2 \<and> no_lock_conflict x1 y1 \<and> no_lock_conflict x2 y2
            \<and> no_lock_conflict x3 y3
         then Some (view y3 (view x3 db), done1 \<or> done2) else None)"

section \<open>The versions one completion writes\<close>

lemma filter_one:
  "distinct xs \<Longrightarrow> r \<in> set xs \<Longrightarrow> (\<And>x. x \<in> set xs \<Longrightarrow> P x \<longleftrightarrow> x = r) \<Longrightarrow> filter P xs = [r]"
  by (induction xs) (auto simp: filter_empty_conv)

lemma completed_version:
  assumes ids: "distinct (task_ids ts)" and r: "r \<in> set ts" "t_id r = creq_task_execution_id request" "t_status r = Running"
  shows "filter (\<lambda>t. t \<notin> set ts) (map (complete_row request) ts) = [complete_row request r]"
proof -
  have changed: "complete_row request t \<notin> set ts \<longleftrightarrow> t = r" if t: "t \<in> set ts" for t
  proof
    assume "complete_row request t \<notin> set ts"
    then have "complete_row request t \<noteq> t" using t by metis
    then have "t_id t = t_id r" using r(2) by (auto simp: complete_row_def split: if_splits)
    then show "t = r" by (rule same_id_same_row [OF ids t r(1)])
  next
    assume [simp]: "t = r"
    show "complete_row request t \<notin> set ts"
    proof
      assume "complete_row request t \<in> set ts"
      then have "complete_row request r = r" using same_id_same_row [OF ids _ r(1)] by simp
      moreover have "t_status (complete_row request r) = Completed" using r(2,3) by (simp add: complete_row_def)
      ultimately show False using r(3) by simp
    qed
  qed
  have "distinct ts" using ids by (simp add: distinct_map)
  from filter_one [OF this r(1) changed] show ?thesis by (simp add: filter_map comp_def)
qed

lemma overlay_completed:
  assumes ids: "distinct (task_ids ts)" and r: "r \<in> set ts" "t_id r = creq_task_execution_id request" "t_status r = Running"
  shows "overlay t_id [complete_row request r] ts = map (complete_row request) ts"
  unfolding overlay_def
proof (rule map_cong [OF refl])
  fix t assume t: "t \<in> set ts"
  show "(case find (\<lambda>v. t_id v = t_id t) [complete_row request r] of None \<Rightarrow> t | Some v \<Rightarrow> v) = complete_row request t"
  proof (cases "t_id t = t_id r")
    case True
    then have "t = r" by (rule same_id_same_row [OF ids t r(1)])
    then show ?thesis by simp
  next
    case False
    then show ?thesis using r(2) by (simp add: complete_row_def)
  qed
qed

lemma overlay_none [simp]: "overlay key [] rows = rows"
  by (simp add: overlay_def)

definition completion_transaction :: "complete_request \<Rightarrow> task_row \<Rightarrow> transaction" where
  "completion_transaction request r = \<lparr>own_tasks = [complete_row request r], own_workflows = []\<rparr>"

lemma view_begin [simp]: "view begin_transaction db = db"
  by (simp add: view_def begin_transaction_def)

lemma view_completion:
  "distinct (task_ids (task_executions db)) \<Longrightarrow> r \<in> set (task_executions db) \<Longrightarrow>
   t_id r = creq_task_execution_id request \<Longrightarrow> t_status r = Running \<Longrightarrow>
   view (completion_transaction request r) db =
     db\<lparr>task_executions := map (complete_row request) (task_executions db)\<rparr>"
  by (simp add: view_def completion_transaction_def overlay_completed)

lemma statement_completion:
  assumes "distinct (task_ids (task_executions db))" "r \<in> set (task_executions db)"
    "t_id r = creq_task_execution_id request" "t_status r = Running"
    "f (view tx db) = (db\<lparr>task_executions := map (complete_row request) (task_executions db)\<rparr>, x)"
  shows "statement f db tx = (completion_transaction request r, x)"
  using completed_version [OF assms(1-4)] assms(5)
  by (simp add: statement_def completion_transaction_def filter_empty_conv)

lemma helper_completion:
  assumes "distinct (task_ids (task_executions db))" "r \<in> set (task_executions db)"
    "t_id r = creq_task_execution_id request" "t_status r = Running"
  shows "statement (complete_task_helper request) db begin_transaction =
     (completion_transaction request r, \<lparr>chr_succeeded = True, chr_child_task_ids = t_child_task_ids r,
        chr_workflow_execution_id = Some (t_workflow_execution_id r)\<rparr>)"
proof (rule statement_completion [OF assms])
  have "find (\<lambda>t. t_id t = creq_task_execution_id request \<and> t_status t = Running) (task_executions db) = Some r"
    using assms by (simp add: find_key_Some_iff [OF assms(1)])
  then show "complete_task_helper request (view begin_transaction db) =
      (db\<lparr>task_executions := map (complete_row request) (task_executions db)\<rparr>,
       \<lparr>chr_succeeded = True, chr_child_task_ids = t_child_task_ids r,
        chr_workflow_execution_id = Some (t_workflow_execution_id r)\<rparr>)"
    by (simp add: complete_task_helper_def Let_def one_or_none_returning complete_update_eq)
qed

text \<open>With another running task in sight, the workflow is not completed.\<close>

lemma unfinished_statement:
  assumes r: "distinct (task_ids (task_executions db))" "r \<in> set (task_executions db)"
    "t_id r = creq_task_execution_id request" "t_status r = Running"
    and other: "u \<in> set (task_executions db)" "t_id u \<noteq> t_id r" "t_status u = Running"
      "t_workflow_execution_id u = t_workflow_execution_id r"
  shows "statement (complete_workflow_if_finished (Some (t_workflow_execution_id r)) at) db (completion_transaction request r)
     = (completion_transaction request r, False)"
proof (rule statement_completion [OF r])
  have "complete_row request u \<in> set (map (complete_row request) (task_executions db))" using other(1) by simp
  moreover have "complete_row request u = u" using other(2) r(3) by (simp add: complete_row_def)
  ultimately have "u \<in> set (map (complete_row request) (task_executions db))" by simp
  moreover have "t_status u \<noteq> Completed" using other(3) by simp
  ultimately have open_task: "\<exists>t \<in> set (map (complete_row request) (task_executions db)).
      Some (t_workflow_execution_id t) = Some (t_workflow_execution_id r) \<and> t_status t \<noteq> Completed"
    using other(4) by blast
  show "complete_workflow_if_finished (Some (t_workflow_execution_id r)) at (view (completion_transaction request r) db)
      = (db\<lparr>task_executions := map (complete_row request) (task_executions db)\<rparr>, False)"
    using open_task
    by (simp add: view_completion [OF r] complete_workflow_if_finished_def Let_def rowcount_def update_where_def)
qed

section \<open>Both last tasks at once\<close>

lemma view_both:
  assumes ids: "distinct (task_ids (task_executions db))"
    and r1: "r1 \<in> set (task_executions db)" "t_id r1 = creq_task_execution_id request1" "t_status r1 = Running"
    and r2: "r2 \<in> set (task_executions db)" "t_id r2 = creq_task_execution_id request2" "t_status r2 = Running"
    and ne: "t_id r1 \<noteq> t_id r2"
  shows "view (completion_transaction request2 r2) (view (completion_transaction request1 r1) db) =
     db\<lparr>task_executions := map (\<lambda>t. complete_row request2 (complete_row request1 t)) (task_executions db)\<rparr>"
proof -
  let ?ts = "map (complete_row request1) (task_executions db)"
  have same: "complete_row request1 r2 = r2" using ne r1(2) by (simp add: complete_row_def)
  have "r2 \<in> set ?ts" using imageI [OF r2(1), of "complete_row request1"] same by simp
  moreover have "distinct (task_ids ?ts)" using ids by (simp add: comp_def)
  ultimately show ?thesis
    using view_completion [of "view (completion_transaction request1 r1) db" r2 request2] r2(2,3)
      view_completion [OF ids r1] by (simp add: comp_def)
qed

lemma not_runnable:
  "(\<And>u. u \<in> set (task_executions db) \<Longrightarrow> t_id u = i \<Longrightarrow> t_status u \<noteq> Pending) \<Longrightarrow> i \<notin> set (runnable_ids db)"
  by (auto simp: runnable_ids_eq)

text \<open>
  C40. Two last tasks at once. Let the only unfinished tasks of a workflow be two running tasks
  without children, and let two workers report them as completed in transactions that overlap.
  Neither waits for the other, both commit, and neither completes the workflow: all its tasks are
  completed and its status stays \<open>RUNNING\<close>, which the serial order excludes. Nothing ends it later:
  no task of it is runnable, and no later result for any task changes the database.
\<close>

theorem concurrent_completions_leave_running:
  assumes "exec_inv db" "r1 \<in> set (task_executions db)" "r2 \<in> set (task_executions db)"
    "t_id r1 = creq_task_execution_id request1" "t_id r2 = creq_task_execution_id request2" "t_id r1 \<noteq> t_id r2"
    "t_status r1 = Running" "t_status r2 = Running" "t_child_task_ids r1 = []" "t_child_task_ids r2 = []"
    "t_workflow_execution_id r1 = wid" "t_workflow_execution_id r2 = wid"
    "\<forall>t \<in> set (task_executions db). t_workflow_execution_id t = wid \<longrightarrow> t = r1 \<or> t = r2 \<or> t_status t = Completed"
  shows "\<exists>db'. concurrent_completions request1 request2 db = Some (db', False)
     \<and> (\<forall>t \<in> set (task_executions db'). t_workflow_execution_id t = wid \<longrightarrow> t_status t = Completed
          \<and> t_id t \<notin> set (runnable_ids db')
          \<and> (\<forall>res now. fst (persist_result (t_id t) now res db') = db'))
     \<and> (\<exists>w \<in> set (workflow_executions db'). w_id w = wid \<and> w_status w = WfRunning)"
proof -
  note parts = exec_invD [OF assms(1)] and ids = exec_invD(4) [OF assms(1)]
  let ?x = "completion_transaction request1 r1" and ?y = "completion_transaction request2 r2"
  let ?f = "\<lambda>t. complete_row request2 (complete_row request1 t)"
  let ?db = "db\<lparr>task_executions := map ?f (task_executions db)\<rparr>"
  have children: "statement (update_child_dependencies []) db (completion_transaction request r) =
      (completion_transaction request r, [])"
    if "r \<in> set (task_executions db)" "t_id r = creq_task_execution_id request" "t_status r = Running" for request r
    by (rule statement_completion [OF ids that]) (simp add: view_completion [OF ids that])
  have apart: "no_lock_conflict ?x ?y"
    using assms(6) by (simp add: no_lock_conflict_def completion_transaction_def)
  have run: "concurrent_completions request1 request2 db = Some (?db, False)"
    using helper_completion [OF ids assms(2,4,7)] helper_completion [OF ids assms(3,5,8)]
      children [OF assms(2,4,7)] children [OF assms(3,5,8)]
      unfinished_statement [OF ids assms(2,4,7) assms(3), of "creq_completed_at request1"]
      unfinished_statement [OF ids assms(3,5,8) assms(2), of "creq_completed_at request2"]
      view_both [OF ids assms(2,4,7) assms(3,5,8,6)] assms(6-12) apart
    by (simp add: concurrent_completions_def)
  have completed: "t_status (?f t) = Completed"
    if "t \<in> set (task_executions db)" "t_workflow_execution_id t = wid" for t
    using assms(4-8,13) that by (auto simp: complete_row_def)
  have ids': "distinct (task_ids (task_executions ?db))" using ids by (simp add: comp_def)
  have tasks: "t_status t = Completed \<and> t_id t \<notin> set (runnable_ids ?db)
      \<and> (\<forall>res now. fst (persist_result (t_id t) now res ?db) = ?db)"
    if t: "t \<in> set (task_executions ?db)" "t_workflow_execution_id t = wid" for t
  proof -
    have st: "t_status t = Completed" using t completed by auto
    have only: "u = t" if "u \<in> set (task_executions ?db)" "t_id u = t_id t" for u
      by (rule same_id_same_row [OF ids' that(1) t(1) that(2)])
    have "t_id t \<notin> set (runnable_ids ?db)" by (rule not_runnable) (drule only, assumption, use st in simp)
    moreover have "fst (persist_result (t_id t) now res ?db) = ?db" for res now
    proof -
      have nr: "t_status u \<noteq> Running" if "u \<in> set (task_executions ?db)" "t_id u = t_id t" for u
        using only [OF that] st by simp
      have "complete_task \<lparr>creq_task_execution_id = t_id t, creq_output = result_output res, creq_completed_at = now\<rparr> ?db
          = (?db, Inr \<lparr>cres_runnable_task_execution_ids = [], cres_workflow_completed = False\<rparr>)"
        by (rule complete_task_inactive) (use nr in simp)
      moreover have "retry_task \<lparr>rreq_task_execution_id = t_id t, rreq_error_message = result_message res, rreq_completed_at = now\<rparr> ?db
          = (?db, Inr \<lparr>rres_should_retry = False, rres_workflow_failed = False\<rparr>)"
        by (rule retry_task_inactive) (use nr in simp)
      ultimately show ?thesis
        by (simp add: persist_result_def service_complete_eq service_retry_eq Let_def)
    qed
    ultimately show ?thesis using st by blast
  qed
  have "workflow_running db wid"
    using running_task_running_workflow [OF parts(3) assms(2,7)] assms(11) by simp
  then have w: "\<exists>w \<in> set (workflow_executions ?db). w_id w = wid \<and> w_status w = WfRunning"
    by (simp add: workflow_running_def)
  show ?thesis by (intro exI conjI ballI impI, rule run) (use tasks w in \<open>blast+\<close>)
qed

definition left_row :: task_row where
  "left_row = (extract_row Running None (Some 9) None)\<lparr>t_child_task_ids := []\<rparr>"

definition right_row :: task_row where
  "right_row = (load_row Running 0 (Some 9))\<lparr>t_parent_task_ids := []\<rparr>"

lemma two_roots_exec_inv: "exec_inv (walk_db [left_row, right_row])"
proof -
  have "mirrored [left_row, right_row] left_row" "mirrored [left_row, right_row] right_row"
    by (simp_all add: mirrored_def left_row_def right_row_def extract_row_def load_row_def)
  moreover have "acyclic_graph [left_row, right_row]"
    by (simp add: acyclic_graph_def left_row_def right_row_def extract_row_def load_row_def)
  moreover have "unique_keys [left_row, right_row]" "distinct (task_ids [left_row, right_row])"
    by (simp_all add: unique_keys_def left_row_def right_row_def extract_row_def load_row_def)
  ultimately have "graph_ok [left_row, right_row]" by (simp add: graph_ok_def)
  moreover have "progress_ok [left_row, right_row]"
    by (simp add: progress_ok_def row_ok_def ready_def left_row_def right_row_def extract_row_def load_row_def)
  moreover have "workflows_ok (walk_db [left_row, right_row])"
    by (simp add: workflows_ok_def workflow_ok_def tasks_of_def walk_db_def walk_workflow_def
        left_row_def right_row_def extract_row_def load_row_def)
  ultimately show ?thesis by (simp add: exec_inv_def walk_db_def)
qed

definition left_request :: complete_request where
  "left_request = \<lparr>creq_task_execution_id = Uuid 11, creq_output = \<lparr>output_values = []\<rparr>, creq_completed_at = 20\<rparr>"

definition right_request :: complete_request where
  "right_request = \<lparr>creq_task_execution_id = Uuid 12, creq_output = \<lparr>output_values = []\<rparr>, creq_completed_at = 21\<rparr>"

theorem concurrent_completions_leave_running_witness:
  "\<exists>db'. concurrent_completions left_request right_request (walk_db [left_row, right_row]) = Some (db', False)
     \<and> (\<forall>t \<in> set (task_executions db'). t_workflow_execution_id t = Uuid 10 \<longrightarrow> t_status t = Completed
          \<and> t_id t \<notin> set (runnable_ids db')
          \<and> (\<forall>res now. fst (persist_result (t_id t) now res db') = db'))
     \<and> (\<exists>w \<in> set (workflow_executions db'). w_id w = Uuid 10 \<and> w_status w = WfRunning)"
  by (rule concurrent_completions_leave_running [OF two_roots_exec_inv, of left_row right_row])
    (simp_all add: walk_db_def left_row_def right_row_def extract_row_def load_row_def
      left_request_def right_request_def)

end
