(* ===== verification/Concurrent_Transitions.thy ===== *)
theory Concurrent_Transitions
  imports Read_Committed
begin

text \<open>
  What READ COMMITTED does guarantee. Any number of transactions that start, complete and retry or
  fail tasks run statement by statement in any order, wait for the rows another one has written,
  commit or are rolled back at any point. This theory holds the step relation and describes what a
  transaction in progress has written as a function of the committed rows, its effect;
  \<open>Concurrent_Effects\<close> shows that effects of different transactions do not disturb each other and
  that each statement extends one; \<open>Concurrent_Safety\<close> draws the conclusions.
\<close>

section \<open>Row versions of a function on rows\<close>

definition versions :: "('r \<Rightarrow> 'r) \<Rightarrow> 'r list \<Rightarrow> 'r list" where
  "versions f rows = map f (filter (\<lambda>r. f r \<noteq> r) rows)"

lemma new_rows_versions:
  assumes "distinct (map key rows)" "\<And>r. key (f r) = key r"
  shows "filter (\<lambda>v. v \<notin> set rows) (map f rows) = versions f rows"
proof -
  have "f r \<in> set rows \<longleftrightarrow> f r = r" if "r \<in> set rows" for r
    using that distinct_key_eq [OF assms(1), of "f r" r] assms(2) by auto
  then have "filter (\<lambda>r. f r \<notin> set rows) rows = filter (\<lambda>r. f r \<noteq> r) rows" by (intro filter_cong) auto
  then show ?thesis by (simp add: versions_def filter_map comp_def)
qed

lemma in_versions: "v \<in> set (versions f rows) \<longleftrightarrow> (\<exists>r \<in> set rows. v = f r \<and> f r \<noteq> r)"
  by (auto simp: versions_def)

lemma version_keys: "(\<And>r. key (f r) = key r) \<Longrightarrow> key ` set (versions f rows) = key ` {r \<in> set rows. f r \<noteq> r}"
  by (simp add: versions_def image_image cong: image_cong_simp)

lemma overlay_versions:
  assumes "distinct (map key rows)" "\<And>r. key (f r) = key r"
  shows "overlay key (versions f rows) rows = map f rows"
  unfolding overlay_def
proof (rule map_cong [OF refl])
  fix r assume r: "r \<in> set rows"
  have same: "v = f r" if own: "v \<in> set (versions f rows)" "key v = key r" for v
  proof -
    obtain u where u: "u \<in> set rows" "v = f u" using own(1) by (auto simp: in_versions)
    then have "u = r" using distinct_key_eq [OF assms(1) u(1) r] own(2) assms(2) by simp
    then show ?thesis by (simp add: u(2))
  qed
  show "(case find (\<lambda>v. key v = key r) (versions f rows) of None \<Rightarrow> r | Some v \<Rightarrow> v) = f r"
  proof (cases "find (\<lambda>v. key v = key r) (versions f rows)")
    case None
    then have "f r \<notin> set (versions f rows)" using assms(2) by (auto simp: find_None_iff)
    then have "f r = r" using r by (auto simp: in_versions)
    then show ?thesis using None by simp
  next
    case (Some v)
    then have "v \<in> set (versions f rows)" "key v = key r" by (auto simp: find_Some_iff)
    then show ?thesis using same Some by simp
  qed
qed

text \<open>Another transaction that commits rows this one has not written leaves its versions as they are.\<close>

lemma versions_other:
  assumes "\<And>r. r \<in> set rows \<Longrightarrow> f r = r \<or> g r = r" "\<And>r. r \<in> set rows \<Longrightarrow> f r = r \<Longrightarrow> f (g r) = g r"
  shows "versions f (map g rows) = versions f rows"
proof -
  have "filter (\<lambda>r. f (g r) \<noteq> g r) rows = filter (\<lambda>r. f r \<noteq> r) rows"
    using assms by (intro filter_cong refl) metis
  moreover have "f (g r) = f r" if "r \<in> set rows" "f r \<noteq> r" for r using assms(1) that by metis
  ultimately show ?thesis by (simp add: versions_def filter_map comp_def)
qed

section \<open>Transactions in progress\<close>

text \<open>
  Where a transaction stands: the statement it executes next. \<open>AtChildren\<close> lists the children that
  are still to be decremented; when none is left the check of the workflow follows.
\<close>

datatype phase =
    AtStart uuid datetime
  | AtComplete complete_request
  | AtChildren complete_request "uuid list" "uuid option"
  | AtRetry retry_request
  | AtFail retry_request "uuid option"
  | AtEnd
  | AtError

record active =
  ac_transaction :: transaction
  ac_phase :: phase
  ac_runnable :: "uuid list"

text \<open>One statement of \<open>start_task\<close>, \<open>complete_task\<close> or \<open>retry_task\<close>: the operations of the repository.\<close>

fun next_statement :: "phase \<Rightarrow> database \<Rightarrow> database \<times> phase \<times> uuid list" where
  "next_statement (AtStart i at) db =
     (case start_task i at db of
        (db', Inl e) \<Rightarrow> (db', AtError, [])
      | (db', Inr r) \<Rightarrow> (db', AtEnd, []))"
| "next_statement (AtComplete request) db =
     (case complete_task_helper request db of
        (db', r) \<Rightarrow>
          (db', if chr_succeeded r then AtChildren request (chr_child_task_ids r) (chr_workflow_execution_id r)
                else AtEnd, []))"
| "next_statement (AtChildren request (c # cs) wid) db =
     (case update_child_dependencies [c] db of (db', ids) \<Rightarrow> (db', AtChildren request cs wid, ids))"
| "next_statement (AtChildren request [] wid) db =
     (case complete_workflow_if_finished wid (creq_completed_at request) db of (db', b) \<Rightarrow> (db', AtEnd, []))"
| "next_statement (AtRetry request) db =
     (case retry_task_helper request db of
        (db', r) \<Rightarrow>
          (db', if rhr_succeeded r \<and> \<not> rhr_should_retry r then AtFail request (rhr_workflow_execution_id r)
                else AtEnd, []))"
| "next_statement (AtFail request wid) db =
     (case fail_workflow wid (rreq_completed_at request) db of (db', b) \<Rightarrow> (db', AtEnd, []))"
| "next_statement AtEnd db = (db, AtEnd, [])"
| "next_statement AtError db = (db, AtError, [])"

record rc_state =
  rc_db :: database
  rc_active :: "nat \<Rightarrow> active option"
  rc_published :: "uuid list"

text \<open>
  A transaction begins with a call. Only released tasks are started: the queue holds no others
  (\<open>sys_inv\<close>). What a transaction returns as runnable is published when it has committed.
\<close>

definition may_begin :: "database \<Rightarrow> phase \<Rightarrow> bool" where
  "may_begin db p \<longleftrightarrow>
     (case p of
        AtStart i at \<Rightarrow> known_released (task_executions db) i
      | AtComplete request \<Rightarrow> True
      | AtRetry request \<Rightarrow> True
      | _ \<Rightarrow> False)"

text \<open>
  A statement that would write a row another transaction has written waits: it is executed, on what
  is committed by then, when no conflict is left. The two updates of \<open>fail_workflow\<close> are one step:
  between them no other transaction can see or change the workflow row, so that they take effect
  together at the second. A transaction can end without effect at any time, because its process
  dies or because the database breaks a deadlock.
\<close>

inductive rc_step :: "rc_state \<Rightarrow> rc_state \<Rightarrow> bool" where
  rc_begin:
    "rc_active s k = None \<Longrightarrow> may_begin (rc_db s) p \<Longrightarrow>
     rc_step s (s\<lparr>rc_active := (rc_active s)(k \<mapsto>
       \<lparr>ac_transaction = begin_transaction, ac_phase = p, ac_runnable = []\<rparr>)\<rparr>)"
| rc_statement:
    "rc_active s k = Some a \<Longrightarrow> ac_phase a \<noteq> AtEnd \<Longrightarrow> ac_phase a \<noteq> AtError \<Longrightarrow>
     statement (next_statement (ac_phase a)) (rc_db s) (ac_transaction a) = (tx, (p, ids)) \<Longrightarrow>
     (\<And>j b. j \<noteq> k \<Longrightarrow> rc_active s j = Some b \<Longrightarrow> no_lock_conflict tx (ac_transaction b)) \<Longrightarrow>
     rc_step s (s\<lparr>rc_active := (rc_active s)(k \<mapsto>
       \<lparr>ac_transaction = tx, ac_phase = p, ac_runnable = ac_runnable a @ ids\<rparr>)\<rparr>)"
| rc_commit:
    "rc_active s k = Some a \<Longrightarrow> ac_phase a = AtEnd \<Longrightarrow>
     rc_step s (s\<lparr>rc_db := view (ac_transaction a) (rc_db s), rc_active := (rc_active s)(k := None),
                 rc_published := ac_runnable a @ rc_published s\<rparr>)"
| rc_rollback:
    "rc_step s (s\<lparr>rc_active := (rc_active s)(k := None)\<rparr>)"

definition rc_initial :: "database \<Rightarrow> rc_state" where
  "rc_initial db = \<lparr>rc_db = db, rc_active = (\<lambda>_. None), rc_published = []\<rparr>"

section \<open>A transaction alone is the call\<close>

text \<open>Without interleaving, the statements of a completion are \<open>complete_task\<close>.\<close>

fun run_statements :: "nat \<Rightarrow> phase \<Rightarrow> uuid list \<Rightarrow> database \<Rightarrow> database \<times> phase \<times> uuid list" where
  "run_statements 0 p ids db = (db, p, ids)"
| "run_statements (Suc n) p ids db =
     (case next_statement p db of (db', p', ids') \<Rightarrow> run_statements n p' (ids @ ids') db')"

lemma run_children:
  "run_statements (Suc (length cs)) (AtChildren request cs wid) ids db =
     (case update_child_dependencies cs db of
        (db1, runnable) \<Rightarrow> (fst (complete_workflow_if_finished wid (creq_completed_at request) db1), AtEnd, ids @ runnable))"
proof (induction cs arbitrary: ids db)
  case Nil
  then show ?case by (simp split: prod.splits)
next
  case (Cons c cs)
  obtain db1 xs where one: "update_child_dependencies [c] db = (db1, xs)" by fastforce
  have "update_child_dependencies (c # cs) db =
      (case update_child_dependencies cs db1 of (db2, ys) \<Rightarrow> (db2, xs @ ys))"
    using one by (auto simp: Let_def split: prod.splits if_splits)
  then show ?case using Cons.IH [of "ids @ xs" db1] one by (simp split: prod.splits del: update_child_dependencies.simps)
qed

lemma run_completion:
  assumes "complete_task_helper request db = (db1, r)" "chr_succeeded r"
  shows "\<exists>n. run_statements n (AtComplete request) [] db =
     (fst (complete_task request db), AtEnd,
      case snd (complete_task request db) of Inl e \<Rightarrow> [] | Inr res \<Rightarrow> cres_runnable_task_execution_ids res)"
proof -
  have "run_statements (Suc (Suc (length (chr_child_task_ids r)))) (AtComplete request) [] db =
      run_statements (Suc (length (chr_child_task_ids r)))
        (AtChildren request (chr_child_task_ids r) (chr_workflow_execution_id r)) [] db1"
    using assms by simp
  also have "\<dots> = (fst (complete_task request db), AtEnd,
      case snd (complete_task request db) of Inl e \<Rightarrow> [] | Inr res \<Rightarrow> cres_runnable_task_execution_ids res)"
    unfolding run_children using assms by (simp add: complete_task_def ret_def split: prod.splits)
  finally show ?thesis by blast
qed

section \<open>The effect of a transaction so far\<close>

text \<open>
  What a transaction has written is one function on the committed task rows and one on the
  workflow rows. \<open>Completes\<close> lists the children decremented so far.
\<close>

datatype effect =
    NoEffect
  | Starts uuid datetime
  | Completes complete_request "uuid list"
  | Finishes complete_request "uuid list" uuid
  | Retries retry_request
  | Fails retry_request uuid

fun on_task :: "effect \<Rightarrow> task_row \<Rightarrow> task_row" where
  "on_task NoEffect t = t"
| "on_task (Starts i at) t = start_row i at t"
| "on_task (Completes request released) t = release_row released (complete_row request t)"
| "on_task (Finishes request released wid) t = release_row released (complete_row request t)"
| "on_task (Retries request) t = retry_row request t"
| "on_task (Fails request wid) t = cancel_row wid (rreq_completed_at request) (retry_row request t)"

fun on_workflow :: "effect \<Rightarrow> workflow_row \<Rightarrow> workflow_row" where
  "on_workflow (Finishes request released wid) w =
     (if w_id w = wid \<and> w_status w = WfRunning
      then w\<lparr>w_status := WfCompleted, w_completed_at := Some (creq_completed_at request)\<rparr> else w)"
| "on_workflow (Fails request wid) w = fail_workflow_row wid (rreq_completed_at request) w"
| "on_workflow _ w = w"

definition apply_effect :: "effect \<Rightarrow> database \<Rightarrow> database" where
  "apply_effect e db =
     db\<lparr>task_executions := map (on_task e) (task_executions db),
        workflow_executions := map (on_workflow e) (workflow_executions db)\<rparr>"

lemma apply_effect_simps [simp]:
  "task_executions (apply_effect e db) = map (on_task e) (task_executions db)"
  "workflow_executions (apply_effect e db) = map (on_workflow e) (workflow_executions db)"
  by (simp_all add: apply_effect_def)

lemma on_task_NoEffect [simp]: "on_task NoEffect = (\<lambda>t. t)" "on_workflow NoEffect = (\<lambda>w. w)"
  by (simp_all add: fun_eq_iff)

lemma on_task_eqs:
  "on_task (Starts i at) = start_row i at"
  "on_task (Retries rq) = retry_row rq"
  "on_task (Completes request cs) = (\<lambda>t. release_row cs (complete_row request t))"
  "on_task (Finishes request cs wid) = (\<lambda>t. release_row cs (complete_row request t))"
  "on_task (Fails rq wid) = (\<lambda>t. cancel_row wid (rreq_completed_at rq) (retry_row rq t))"
  by (rule ext, simp)+

lemma apply_NoEffect [simp]: "apply_effect NoEffect db = db"
  by (simp add: apply_effect_def)

lemma shape_on_task [row_shape]: "task_shape (on_task e t) = task_shape t"
  by (cases e) (simp_all add: row_shape)

lemmas on_task_keeps [simp] = shape_eqD [OF shape_on_task]

lemma on_workflow_keeps [simp]: "w_id (on_workflow e w) = w_id w"
  by (cases e) simp_all

lemma row_advances_on_task: "row_advances t (on_task e t)"
  by (cases e) (auto intro: row_advances_trans row_advances_rows)

text \<open>The task a transaction is about is as it was when the transaction wrote it.\<close>

definition running_row :: "task_row list \<Rightarrow> uuid \<Rightarrow> task_row \<Rightarrow> bool" where
  "running_row ts i r \<longleftrightarrow> r \<in> set ts \<and> t_id r = i \<and> t_status r = Running"

fun enabled :: "effect \<Rightarrow> task_row list \<Rightarrow> bool" where
  "enabled NoEffect ts \<longleftrightarrow> True"
| "enabled (Starts i at) ts \<longleftrightarrow> (\<exists>r \<in> set ts. t_id r = i \<and> t_status r = Pending \<and> t_remaining_dependencies r = 0)"
| "enabled (Completes request released) ts \<longleftrightarrow>
     (\<exists>r rest. running_row ts (creq_task_execution_id request) r \<and> t_child_task_ids r = released @ rest)"
| "enabled (Finishes request released wid) ts \<longleftrightarrow>
     (\<exists>r. running_row ts (creq_task_execution_id request) r \<and> t_child_task_ids r = released
        \<and> t_workflow_execution_id r = wid)
   \<and> (\<forall>t \<in> set ts. t_workflow_execution_id t = wid \<longrightarrow> t_status (complete_row request t) = Completed)"
| "enabled (Retries request) ts \<longleftrightarrow>
     (\<exists>r. running_row ts (rreq_task_execution_id request) r \<and> t_remaining_tries r > 0)"
| "enabled (Fails request wid) ts \<longleftrightarrow>
     (\<exists>r. running_row ts (rreq_task_execution_id request) r \<and> t_remaining_tries r = 1
        \<and> t_workflow_execution_id r = wid)"

text \<open>How far the effect has got when the transaction stands at a statement.\<close>

fun fits :: "task_row list \<Rightarrow> phase \<Rightarrow> effect \<Rightarrow> bool" where
  "fits ts (AtStart i at) e \<longleftrightarrow> e = NoEffect \<and> known_released ts i"
| "fits ts (AtComplete request) e \<longleftrightarrow> e = NoEffect"
| "fits ts (AtChildren request cs wid) e \<longleftrightarrow>
     (\<exists>released r. e = Completes request released \<and> running_row ts (creq_task_execution_id request) r
        \<and> t_child_task_ids r = released @ cs \<and> wid = Some (t_workflow_execution_id r))"
| "fits ts (AtRetry request) e \<longleftrightarrow> e = NoEffect"
| "fits ts (AtFail request wid) e \<longleftrightarrow>
     (\<exists>r. e = Retries request \<and> running_row ts (rreq_task_execution_id request) r \<and> t_remaining_tries r = 1
        \<and> wid = Some (t_workflow_execution_id r))"
| "fits ts AtEnd e \<longleftrightarrow>
     (case e of
        Completes request released \<Rightarrow>
          (\<exists>r. running_row ts (creq_task_execution_id request) r \<and> t_child_task_ids r = released)
      | Retries request \<Rightarrow>
          (\<exists>r. running_row ts (rreq_task_execution_id request) r \<and> t_remaining_tries r > 1)
      | _ \<Rightarrow> True)"
| "fits ts AtError e \<longleftrightarrow> True"

fun released_by :: "effect \<Rightarrow> task_row list \<Rightarrow> uuid list" where
  "released_by (Completes request released) ts = filter (becomes_runnable ts) released"
| "released_by (Finishes request released wid) ts = filter (becomes_runnable ts) released"
| "released_by _ ts = []"

end
