(* ===== verification/Concurrent_Effects.thy ===== *)
theory Concurrent_Effects
  imports Concurrent_Transitions
begin

text \<open>
  Transactions side by side. What one transaction has written stays what it is when another one
  commits (\<open>transaction_other\<close>, \<open>standing_other\<close>), a commit keeps the execution tables consistent
  (\<open>consistent_effect\<close>), and each statement of the repository extends the effect of its
  transaction (\<open>statement_effect\<close>).
\<close>

section \<open>Other commits leave it alone\<close>

lemma running_row_changes:
  assumes "running_row ts i r"
  shows "i = creq_task_execution_id request \<Longrightarrow> on_task (Completes request cs) r \<noteq> r"
    and "i = creq_task_execution_id request \<Longrightarrow> on_task (Finishes request cs wid) r \<noteq> r"
    and "i = rreq_task_execution_id rq \<Longrightarrow> 0 < t_remaining_tries r \<Longrightarrow> on_task (Retries rq) r \<noteq> r"
    and "i = rreq_task_execution_id rq \<Longrightarrow> 0 < t_remaining_tries r \<Longrightarrow> on_task (Fails rq wid) r \<noteq> r"
proof -
  have r: "t_id r = i" "t_status r = Running" using assms by (simp_all add: running_row_def)
  show "i = creq_task_execution_id request \<Longrightarrow> on_task (Completes request cs) r \<noteq> r"
    using r by (auto simp: complete_row_status dest: arg_cong [of _ r t_status])
  then show "i = creq_task_execution_id request \<Longrightarrow> on_task (Finishes request cs wid) r \<noteq> r" by simp
  have tries: "t_remaining_tries (cancel_row w at t) = t_remaining_tries t" for w at t by (simp add: cancel_row_def)
  show "i = rreq_task_execution_id rq \<Longrightarrow> 0 < t_remaining_tries r \<Longrightarrow> on_task (Retries rq) r \<noteq> r"
    using r by (auto simp: retry_row_def dest: arg_cong [of _ r t_remaining_tries])
  show "i = rreq_task_execution_id rq \<Longrightarrow> 0 < t_remaining_tries r \<Longrightarrow> on_task (Fails rq wid) r \<noteq> r"
    using r by (auto simp: retry_row_def tries dest: arg_cong [of _ r t_remaining_tries])
qed

lemma untouched_stays:
  assumes ids: "distinct (task_ids ts)" and ok: "progress_ok ts" and e: "enabled e ts"
    and t: "t \<in> set ts" "on_task e t = t" and u: "row_advances t u"
  shows "on_task e u = u"
proof -
  note same = shape_eqD [OF conjunct1 [OF u [unfolded row_advances_def]]]
  have adv: "terminal_task (t_status t) \<Longrightarrow> u = t" "t_status u = Pending \<Longrightarrow> t_status t = Pending"
    "t_remaining_dependencies t = 0 \<Longrightarrow> t_remaining_dependencies u = 0"
    using u by (auto simp: row_advances_def)
  have other: "t_id t \<noteq> i" if "running_row ts i r" "on_task e r \<noteq> r" for i r
    using same_id_same_row [OF ids t(1), of r] that t(2) by (auto simp: running_row_def)
  have counter: "0 \<le> t_remaining_dependencies t" if "t_status t = Pending"
    using ok t(1) that by (force simp: progress_ok_def row_ok_def)
  have released: "release_row cs (complete_row request u) = u"
    if "t_id t \<noteq> creq_task_execution_id request" "release_row cs (complete_row request t) = t" for request cs
  proof -
    have c: "complete_row request t = t" "complete_row request u = u" using that(1) same(1) by (simp_all add: complete_row_def)
    have "t_id t \<notin> set cs \<or> t_status t \<noteq> Pending \<or> t_remaining_dependencies t \<le> 0"
      using that(2) unfolding c by (auto simp: release_row_def dest: arg_cong [of _ t t_remaining_dependencies] split: if_splits)
    then show ?thesis unfolding c using same(1) adv(2,3) counter by (auto simp: release_row_def)
  qed
  show ?thesis
  proof (cases e)
    case (Starts i at)
    then obtain r where r: "r \<in> set ts" "t_id r = i" "t_status r = Pending" using e by auto
    then have "start_row i at r \<noteq> r" by (auto simp: start_row_def dest: arg_cong [of _ r t_status])
    then have "t_id t \<noteq> i" using same_id_same_row [OF ids t(1) r(1)] r(2) t(2) Starts by auto
    then show ?thesis using same(1) Starts by (simp add: start_row_def)
  next
    case (Completes request cs)
    then obtain r where r: "running_row ts (creq_task_execution_id request) r" using e by auto
    show ?thesis
      using released [OF other [OF r]] running_row_changes(1) [OF r] t(2) Completes by simp
  next
    case (Finishes request cs wid)
    then obtain r where r: "running_row ts (creq_task_execution_id request) r" using e by auto
    show ?thesis
      using released [OF other [OF r]] running_row_changes(2) [OF r] t(2) Finishes by simp
  next
    case (Retries request)
    then obtain r where r: "running_row ts (rreq_task_execution_id request) r" "0 < t_remaining_tries r" using e by auto
    then have "t_id t \<noteq> rreq_task_execution_id request" using other running_row_changes(3) Retries by blast
    then show ?thesis using same(1) Retries by (simp add: retry_row_def)
  next
    case (Fails request wid)
    then obtain r where r: "running_row ts (rreq_task_execution_id request) r" "t_remaining_tries r = 1" using e by auto
    then have "on_task e r \<noteq> r" using running_row_changes(4) [OF r(1) refl, of wid] Fails by simp
    then have id: "t_id t \<noteq> rreq_task_execution_id request" by (rule other [OF r(1)])
    then have keep: "retry_row request t = t" "retry_row request u = u" using same(1) by (simp_all add: retry_row_def)
    have "t_workflow_execution_id t \<noteq> wid \<or> terminal_task (t_status t)"
    proof (rule ccontr)
      assume open_task: "\<not> (t_workflow_execution_id t \<noteq> wid \<or> terminal_task (t_status t))"
      then have "t_status (cancel_row wid (rreq_completed_at request) t) = Cancelled"
        by (simp add: cancel_row_def not_terminal_task_iff)
      moreover have "cancel_row wid (rreq_completed_at request) t = t" using t(2) Fails keep(1) by simp
      ultimately show False using open_task by simp
    qed
    then show ?thesis
    proof
      assume "t_workflow_execution_id t \<noteq> wid"
      then show ?thesis using same(2) Fails keep(2) by (simp add: cancel_row_def)
    next
      assume "terminal_task (t_status t)"
      then have "u = t" by (rule adv(1))
      then show ?thesis using t(2) by simp
    qed
  qed simp
qed

lemma untouched_workflow_stays: "on_workflow e w = w \<Longrightarrow> on_workflow e (on_workflow e' w) = on_workflow e' w"
  by (cases e; cases e') (auto simp: fail_workflow_row_def split: if_splits dest: arg_cong [of _ w w_status])

text \<open>Two transactions whose writes do not conflict.\<close>

definition apart :: "effect \<Rightarrow> effect \<Rightarrow> database \<Rightarrow> bool" where
  "apart e e' db \<longleftrightarrow>
     (\<forall>t \<in> set (task_executions db). on_task e t = t \<or> on_task e' t = t)
     \<and> (\<forall>w \<in> set (workflow_executions db). on_workflow e w = w \<or> on_workflow e' w = w)"

lemma apart_sym: "apart e e' db \<Longrightarrow> apart e' e db"
  by (auto simp: apart_def)

definition transaction_of :: "effect \<Rightarrow> database \<Rightarrow> transaction" where
  "transaction_of e db =
     \<lparr>own_tasks = versions (on_task e) (task_executions db),
      own_workflows = versions (on_workflow e) (workflow_executions db)\<rparr>"

lemma no_conflict_apart: "no_lock_conflict (transaction_of e db) (transaction_of e' db) \<Longrightarrow> apart e e' db"
  unfolding no_lock_conflict_def apart_def transaction_of_def transaction.simps
    version_keys [of t_id, OF on_task_keeps(1)] version_keys [of w_id, OF on_workflow_keeps]
  by blast

lemma view_transaction:
  assumes "distinct (task_ids (task_executions db))" "distinct (map w_id (workflow_executions db))"
  shows "view (transaction_of e db) db = apply_effect e db"
  by (simp add: view_def transaction_of_def apply_effect_def overlay_versions [OF assms(1)] overlay_versions [OF assms(2)])

lemma running_row_other:
  assumes "running_row ts i r" "on_task e' r = r"
  shows "running_row (map (on_task e') ts) i r"
proof -
  have "on_task e' r \<in> set (map (on_task e') ts)" using assms(1) by (simp add: running_row_def)
  then show ?thesis using assms by (simp add: running_row_def)
qed

lemma transaction_other:
  assumes ids: "distinct (task_ids (task_executions db))" and ok: "progress_ok (task_executions db)"
    and e: "enabled e (task_executions db)" and ap: "apart e e' db"
  shows "transaction_of e (apply_effect e' db) = transaction_of e db"
proof -
  have "versions (on_task e) (map (on_task e') (task_executions db)) = versions (on_task e) (task_executions db)"
    using ap untouched_stays [OF ids ok e _ _ row_advances_on_task] by (intro versions_other) (auto simp: apart_def)
  moreover have "versions (on_workflow e) (map (on_workflow e') (workflow_executions db))
      = versions (on_workflow e) (workflow_executions db)"
    using ap untouched_workflow_stays by (intro versions_other) (auto simp: apart_def)
  ultimately show ?thesis by (simp add: transaction_of_def)
qed

lemma becomes_runnable_iff:
  "distinct (task_ids ts) \<Longrightarrow> u \<in> set ts \<Longrightarrow> t_id u = c \<Longrightarrow>
   becomes_runnable ts c \<longleftrightarrow> t_status u = Pending \<and> t_remaining_dependencies u = 1"
  by (auto simp: becomes_runnable_def dest: same_id_same_row)

lemma pending_child_waits:
  assumes graph: "graph_ok ts" and ok: "progress_ok ts" and r: "running_row ts i r"
    and u: "u \<in> set ts" "t_id u \<in> set (t_child_task_ids r)" "t_status u = Pending"
  shows "0 < t_remaining_dependencies u"
proof -
  have r': "r \<in> set ts" "t_status r = Running" using r by (simp_all add: running_row_def)
  have "\<not> completed ts (t_id r)" using graph r' completed_iff_status [of ts r] by (simp add: graph_ok_def)
  moreover have "t_id r \<in> set (t_parent_task_ids u)" using parent_child_iff [OF graph r'(1) u(1)] u(2) by simp
  ultimately have "t_id r \<in> set (open_parents ts u)" by (simp add: open_parents_def)
  then have "0 < length (open_parents ts u)" by (auto intro: length_pos_if_in_set)
  then show ?thesis using ok u(1,3) by (force simp: progress_ok_def row_ok_def)
qed

lemma child_row:
  assumes "graph_ok ts" "running_row ts i r" "c \<in> set (t_child_task_ids r)"
  obtains u where "u \<in> set ts" "t_id u = c"
proof -
  have "mirrored ts r" using assms(1,2) by (simp add: graph_ok_def running_row_def)
  then show thesis using assms(3) that unfolding mirrored_def by blast
qed

text \<open>A child that is still pending is locked once it has been decremented.\<close>

lemma released_child_written:
  assumes "graph_ok ts" "progress_ok ts" "running_row ts (creq_task_execution_id request) r"
    "set released \<subseteq> set (t_child_task_ids r)" "u \<in> set ts" "t_id u \<in> set released" "t_status u = Pending"
  shows "release_row released (complete_row request u) \<noteq> u"
proof -
  have "0 < t_remaining_dependencies u"
    by (rule pending_child_waits [OF assms(1-3,5)]) (use assms(4,6,7) in auto)
  moreover have "complete_row request u = u" using assms(7) by (simp add: complete_row_def)
  ultimately show ?thesis
    using assms(6,7) by (auto simp: release_row_def dest: arg_cong [of _ u t_remaining_dependencies])
qed

lemma becomes_runnable_other:
  assumes graph: "graph_ok ts" and ok: "progress_ok ts" and r: "running_row ts (creq_task_execution_id request) r"
    and sub: "set released \<subseteq> set (t_child_task_ids r)" and c: "c \<in> set released"
    and ap: "\<And>t. t \<in> set ts \<Longrightarrow> release_row released (complete_row request t) = t \<or> on_task e' t = t"
  shows "becomes_runnable (map (on_task e') ts) c \<longleftrightarrow> becomes_runnable ts c"
proof -
  have ids: "distinct (task_ids ts)" using graph by (simp add: graph_ok_def)
  then have ids': "distinct (task_ids (map (on_task e') ts))" by (simp add: comp_def)
  obtain u where u: "u \<in> set ts" "t_id u = c" using child_row [OF graph r] sub c by blast
  have u': "on_task e' u \<in> set (map (on_task e') ts)" "t_id (on_task e' u) = c" using u by simp_all
  show ?thesis
  proof (cases "t_status u = Pending")
    case True
    then have "on_task e' u = u" using released_child_written [OF graph ok r sub u(1)] c u ap by blast
    then show ?thesis using becomes_runnable_iff [OF ids u] becomes_runnable_iff [OF ids' u'] by simp
  next
    case False
    then have "t_status (on_task e' u) \<noteq> Pending" using row_advances_on_task [of u e'] by (auto simp: row_advances_def)
    then show ?thesis using False becomes_runnable_iff [OF ids u] becomes_runnable_iff [OF ids' u'] by simp
  qed
qed

lemma standing_other:
  assumes graph: "graph_ok (task_executions db)" and ok: "progress_ok (task_executions db)"
    and e: "enabled e (task_executions db)" and f: "fits (task_executions db) p e" and ap: "apart e e' db"
  shows "enabled e (task_executions (apply_effect e' db))" "fits (task_executions (apply_effect e' db)) p e"
    "released_by e (task_executions (apply_effect e' db)) = released_by e (task_executions db)"
proof -
  let ?ts = "task_executions db" and ?ts' = "map (on_task e') (task_executions db)"
  have kept: "running_row ?ts' i r" if "running_row ?ts i r" "on_task e r \<noteq> r" for i r
    by (rule running_row_other [OF that(1)]) (use that ap in \<open>unfold apart_def running_row_def, blast\<close>)
  have kept1: "running_row ?ts' (creq_task_execution_id request) r"
    if "running_row ?ts (creq_task_execution_id request) r" "e = Completes request cs \<or> e = Finishes request cs wid"
    for request cs wid r
    by (rule kept [OF that(1)])
      (use that(2) running_row_changes(1) [OF that(1) refl, of cs] running_row_changes(2) [OF that(1) refl, of cs wid] in blast)
  have kept2: "running_row ?ts' (rreq_task_execution_id request) r"
    if "running_row ?ts (rreq_task_execution_id request) r" "0 < t_remaining_tries r" "e = Retries request \<or> e = Fails request wid"
    for request wid r
    by (rule kept [OF that(1)])
      (use that(3) running_row_changes(3) [OF that(1) refl that(2)] running_row_changes(4) [OF that(1) refl that(2), of wid] in blast)
  show "enabled e (task_executions (apply_effect e' db))"
  proof (cases e)
    case (Starts i at)
    then obtain r where r: "r \<in> set ?ts" "t_id r = i" "t_status r = Pending" "t_remaining_dependencies r = 0" using e by auto
    then have "on_task e r \<noteq> r" using Starts by (auto simp: start_row_def dest: arg_cong [of _ r t_status])
    then have "on_task e' r = r" using ap r(1) by (auto simp: apart_def)
    then have "r \<in> set ?ts'" using r(1) by (metis imageI set_map)
    then show ?thesis using r Starts by auto
  next
    case (Completes request cs)
    then show ?thesis using e kept1 by auto
  next
    case (Finishes request cs wid)
    obtain r where r: "running_row ?ts (creq_task_execution_id request) r" "t_child_task_ids r = cs" "t_workflow_execution_id r = wid"
      and all: "\<forall>t \<in> set ?ts. t_workflow_execution_id t = wid \<longrightarrow> t_status (complete_row request t) = Completed"
      using e Finishes by auto
    have "t_status (complete_row request (on_task e' t)) = Completed"
      if t: "t \<in> set ?ts" "t_workflow_execution_id t = wid" for t
    proof (cases "on_task e' t = t")
      case False
      then have "on_task e t = t" using ap t(1) by (auto simp: apart_def)
      moreover have "t_status (on_task e t) = Completed" using all t Finishes by (simp add: release_row_def)
      ultimately have "terminal_task (t_status t)" by simp
      then show ?thesis using False row_advances_on_task [of t e'] by (simp add: row_advances_def)
    qed (use all t in simp)
    then show ?thesis using kept1 [OF r(1)] r Finishes by auto
  next
    case (Retries request)
    then show ?thesis using e kept2 by auto
  next
    case (Fails request wid)
    then show ?thesis using e kept2 by fastforce
  qed simp
  show "fits (task_executions (apply_effect e' db)) p e"
  proof (cases p)
    case (AtStart i at)
    then show ?thesis
      using f known_released_advances [OF table_advances_map [OF row_advances_on_task]] by simp
  next
    case AtEnd
    show ?thesis
    proof (cases e)
      case (Completes request cs)
      then show ?thesis using f AtEnd kept1 by auto
    next
      case (Retries request)
      then obtain r where "running_row ?ts (rreq_task_execution_id request) r" "1 < t_remaining_tries r"
        using f AtEnd by auto
      then show ?thesis using AtEnd kept2 [of request r] Retries by auto
    qed (use AtEnd in simp_all)
  next
    case (AtChildren request cs wid)
    then show ?thesis using f kept1 by fastforce
  next
    case (AtFail request wid)
    then show ?thesis using f kept2 by fastforce
  qed (use f in simp_all)
  have filter: "filter (becomes_runnable ?ts') cs = filter (becomes_runnable ?ts) cs"
    if r: "running_row ?ts (creq_task_execution_id request) r" "set cs \<subseteq> set (t_child_task_ids r)"
      and on: "on_task e = (\<lambda>t. release_row cs (complete_row request t))" for request cs r
    by (rule filter_cong [OF refl], rule becomes_runnable_other [OF graph ok r]) (use ap on in \<open>auto simp: apart_def\<close>)
  show "released_by e (task_executions (apply_effect e' db)) = released_by e (task_executions db)"
  proof (cases e)
    case (Completes request cs)
    then obtain r rest where "running_row ?ts (creq_task_execution_id request) r" "t_child_task_ids r = cs @ rest" using e by auto
    then show ?thesis using filter [of request r cs] Completes by (simp add: fun_eq_iff)
  next
    case (Finishes request cs wid)
    then obtain r where "running_row ?ts (creq_task_execution_id request) r" "t_child_task_ids r = cs" using e by auto
    then show ?thesis using filter [of request r cs] Finishes by (simp add: fun_eq_iff)
  qed simp_all
qed

section \<open>Committing keeps the tables consistent\<close>

text \<open>
  The invariant of the execution tables without the clause that a running workflow has an
  unfinished task.
\<close>

definition workflow_consistent :: "task_row list \<Rightarrow> workflow_row \<Rightarrow> bool" where
  "workflow_consistent ts w \<longleftrightarrow>
     (case w_status w of
        WfRunning \<Rightarrow> \<forall>t \<in> set (tasks_of ts (w_id w)). t_status t \<noteq> Failed \<and> t_status t \<noteq> Cancelled
      | WfCompleted \<Rightarrow> \<forall>t \<in> set (tasks_of ts (w_id w)). t_status t = Completed
      | WfFailed \<Rightarrow> (\<forall>t \<in> set (tasks_of ts (w_id w)). terminal_task (t_status t))
                    \<and> (\<exists>t \<in> set (tasks_of ts (w_id w)). t_status t = Failed)
      | WfCancelled \<Rightarrow> False)"

definition consistent :: "database \<Rightarrow> bool" where
  "consistent db \<longleftrightarrow>
     graph_ok (task_executions db) \<and> progress_ok (task_executions db)
     \<and> distinct (map w_id (workflow_executions db))
     \<and> (\<forall>t \<in> set (task_executions db). t_workflow_execution_id t \<in> w_id ` set (workflow_executions db))
     \<and> (\<forall>w \<in> set (workflow_executions db). workflow_consistent (task_executions db) w)"

lemma exec_inv_consistent: "exec_inv db \<Longrightarrow> consistent db"
  by (auto simp: exec_inv_def consistent_def workflows_ok_def workflow_ok_def workflow_consistent_def
      split: workflow_status.splits)

lemma consistent_ids:
  "consistent db \<Longrightarrow> distinct (task_ids (task_executions db))"
  "consistent db \<Longrightarrow> distinct (map w_id (workflow_executions db))"
  by (simp_all add: consistent_def graph_ok_def)

lemma ended_workflow_consistent:
  assumes "workflow_consistent ts w" "w_status w \<noteq> WfRunning"
  shows "\<forall>t \<in> set ts. t_workflow_execution_id t = w_id w \<longrightarrow> terminal_task (t_status t)"
    "workflow_consistent (map (on_task e) ts) w"
proof -
  show end_tasks: "\<forall>t \<in> set ts. t_workflow_execution_id t = w_id w \<longrightarrow> terminal_task (t_status t)"
    using assms by (cases "w_status w") (auto simp: workflow_consistent_def tasks_of_def)
  have "on_task e t = t" if "t \<in> set ts" "t_workflow_execution_id t = w_id w" for t
    using row_advances_on_task [of t e] end_tasks that by (simp add: row_advances_def)
  then have "on_task e ` set (tasks_of ts (w_id w)) = set (tasks_of ts (w_id w))"
    by (simp add: tasks_of_def cong: image_cong_simp)
  then have "set (tasks_of (map (on_task e) ts) (w_id w)) = set (tasks_of ts (w_id w))"
    by (simp only: tasks_of_map [OF shape_on_task])
  then show "workflow_consistent (map (on_task e) ts) w"
    using assms(1) by (simp add: workflow_consistent_def split: workflow_status.splits)
qed

text \<open>The workflow of a running task runs.\<close>

lemma running_row_workflow:
  assumes "consistent db" "running_row (task_executions db) i r"
  shows "workflow_running db (t_workflow_execution_id r)"
proof -
  have r: "r \<in> set (task_executions db)" "t_status r = Running" using assms(2) by (simp_all add: running_row_def)
  then obtain w where w: "w \<in> set (workflow_executions db)" "w_id w = t_workflow_execution_id r"
    using assms(1) unfolding consistent_def by (metis imageE)
  then have "workflow_consistent (task_executions db) w" using assms(1) by (simp add: consistent_def)
  then have "w_status w = WfRunning" using ended_workflow_consistent(1) r w(2) by fastforce
  then show ?thesis using w by (auto simp: workflow_running_def)
qed

text \<open>Which statuses an effect leaves alone: only \<open>Fails\<close> and the last try write failures.\<close>

lemma on_task_status_kept:
  assumes "distinct (task_ids ts)" "fits ts AtEnd e" "t \<in> set ts" "t_status t \<noteq> Failed" "t_status t \<noteq> Cancelled"
    "\<And>request wid. e = Fails request wid \<Longrightarrow> t_id t \<noteq> rreq_task_execution_id request \<and> t_workflow_execution_id t \<noteq> wid"
  shows "t_status (on_task e t) \<noteq> Failed \<and> t_status (on_task e t) \<noteq> Cancelled"
proof (cases e)
  case (Retries request)
  then obtain r where r: "running_row ts (rreq_task_execution_id request) r" "1 < t_remaining_tries r" using assms(2) by auto
  then have "t_id t = rreq_task_execution_id request \<Longrightarrow> t = r"
    using same_id_same_row [OF assms(1,3)] by (simp add: running_row_def)
  then show ?thesis using r assms(4,5) Retries by (auto simp: retry_row_def)
next
  case (Fails request wid)
  then show ?thesis using assms(4-6) by (simp add: retry_row_def cancel_row_def)
qed (use assms(4,5) in \<open>auto simp: start_row_def complete_row_def release_row_def\<close>)

lemma progress_ok_effect:
  assumes graph: "graph_ok ts" and ok: "progress_ok ts" and e: "enabled e ts" and f: "fits ts AtEnd e"
  shows "progress_ok (map (on_task e) ts)"
proof -
  have ids: "distinct (task_ids ts)" using graph by (simp add: graph_ok_def)
  have completion: "progress_ok (map (\<lambda>t. release_row (t_child_task_ids r) (complete_row request t)) ts)"
    if "running_row ts (creq_task_execution_id request) r" for request r
    using progress_ok_complete [OF graph ok, of r request] that by (simp add: completion_rows_eq_map running_row_def)
  show ?thesis
  proof (cases e)
    case (Starts i at)
    then obtain r where "r \<in> set ts" "t_id r = i" "t_remaining_dependencies r = 0" using e by auto
    then have "progress_ok (map (start_row i at) ts)"
      by (intro progress_ok_start [OF ok]) (metis same_id_same_row [OF ids])
    then show ?thesis using Starts by (simp add: on_task_eqs)
  next
    case (Completes request cs)
    then obtain r where "running_row ts (creq_task_execution_id request) r" "t_child_task_ids r = cs" using f by auto
    then show ?thesis using completion [of request r] Completes by (simp add: on_task_eqs)
  next
    case (Finishes request cs wid)
    then obtain r where "running_row ts (creq_task_execution_id request) r" "t_child_task_ids r = cs" using e by auto
    then show ?thesis using completion [of request r] Finishes by (simp add: on_task_eqs)
  next
    case (Retries request)
    then show ?thesis using progress_ok_retry [OF ok, of request] by (simp add: on_task_eqs)
  next
    case (Fails request wid)
    then show ?thesis
      using progress_ok_cancel [OF progress_ok_retry [OF ok], of wid "rreq_completed_at request" request]
      by (simp add: on_task_eqs comp_def)
  qed (use ok in simp)
qed

lemma workflow_consistent_effect:
  assumes c: "consistent db" and e: "enabled e (task_executions db)" and f: "fits (task_executions db) AtEnd e"
    and w: "w \<in> set (workflow_executions db)"
  shows "workflow_consistent (map (on_task e) (task_executions db)) (on_workflow e w)"
proof -
  let ?ts = "task_executions db"
  have ids: "distinct (task_ids ?ts)" using c by (rule consistent_ids)
  have cw: "workflow_consistent ?ts w" using c w by (simp add: consistent_def)
  have tasks: "set (tasks_of (map (on_task e) ?ts) wid) = on_task e ` set (tasks_of ?ts wid)" for wid
    by (rule tasks_of_map [OF shape_on_task])
  show ?thesis
  proof (cases "w_status w = WfRunning")
    case False
    then have "on_workflow e w = w" by (cases e) (simp_all add: fail_workflow_row_def)
    then show ?thesis using ended_workflow_consistent(2) [OF cw False] by simp
  next
    case True
    have live: "t_status t \<noteq> Failed" "t_status t \<noteq> Cancelled"
      if "t \<in> set ?ts" "t_workflow_execution_id t = w_id w" for t
      using cw True that by (auto simp: workflow_consistent_def tasks_of_def)
    have kept: "workflow_consistent (map (on_task e) ?ts) w"
      if "\<And>request wid t. e = Fails request wid \<Longrightarrow> t \<in> set ?ts \<Longrightarrow> t_workflow_execution_id t = w_id w \<Longrightarrow>
          t_id t \<noteq> rreq_task_execution_id request \<and> t_workflow_execution_id t \<noteq> wid"
    proof -
      have "t_status (on_task e t) \<noteq> Failed \<and> t_status (on_task e t) \<noteq> Cancelled"
        if "t \<in> set ?ts" "t_workflow_execution_id t = w_id w" for t
        by (rule on_task_status_kept [OF ids f that(1) live [OF that]])
          (use \<open>\<And>request wid t. e = Fails request wid \<Longrightarrow> t \<in> set ?ts \<Longrightarrow> t_workflow_execution_id t = w_id w \<Longrightarrow>
              t_id t \<noteq> rreq_task_execution_id request \<and> t_workflow_execution_id t \<noteq> wid\<close> that in blast)
      then show ?thesis using True by (auto simp: workflow_consistent_def tasks tasks_of_def)
    qed
    show ?thesis
    proof (cases e)
      case (Finishes request cs wid)
      show ?thesis
      proof (cases "w_id w = wid")
        case wid: True
        have "t_status (on_task e t) = Completed" if "t \<in> set ?ts" "t_workflow_execution_id t = wid" for t
          using e Finishes that by (simp add: release_row_def)
        then show ?thesis using True wid Finishes by (auto simp: workflow_consistent_def tasks tasks_of_def)
      qed (use kept Finishes in simp)
    next
      case (Fails request wid)
      obtain r where r: "running_row ?ts (rreq_task_execution_id request) r" "t_remaining_tries r = 1" "t_workflow_execution_id r = wid"
        using e Fails by auto
      show ?thesis
      proof (cases "w_id w = wid")
        case wid: True
        have "terminal_task (t_status (on_task e t))" if "t_workflow_execution_id t = wid" for t
        proof -
          have "terminal_task (t_status (cancel_row wid at u))" if "t_workflow_execution_id u = wid" for u at
            using that by (cases "t_status u") (simp_all add: cancel_row_def)
          then show ?thesis using that Fails by simp
        qed
        moreover have "t_status (on_task e r) = Failed" "r \<in> set (tasks_of ?ts wid)"
          using r Fails by (simp_all add: running_row_def retry_row_def cancel_row_def tasks_of_def)
        ultimately show ?thesis
          using True wid Fails by (auto simp: workflow_consistent_def tasks fail_workflow_row_def) (auto simp: tasks_of_def)
      next
        case False
        have "t_id t \<noteq> rreq_task_execution_id request" if "t \<in> set ?ts" "t_workflow_execution_id t = w_id w" for t
          using same_id_same_row [OF ids that(1), of r] r that(2) False by (auto simp: running_row_def)
        then have "workflow_consistent (map (on_task e) ?ts) w" using False Fails by (intro kept) auto
        then show ?thesis using False Fails by (simp add: fail_workflow_row_def)
      qed
    qed (use kept in simp_all)
  qed
qed

lemma consistent_effect:
  assumes c: "consistent db" and e: "enabled e (task_executions db)" and f: "fits (task_executions db) AtEnd e"
  shows "consistent (apply_effect e db)"
  using c graph_ok_map [OF shape_on_task] progress_ok_effect [OF _ _ e f] workflow_consistent_effect [OF c e f]
  by (simp add: consistent_def comp_def image_image)

section \<open>One statement\<close>

lemma with_tasks: "db\<lparr>task_executions := map (on_task e) (task_executions db)\<rparr> = apply_effect e db" if "on_workflow e = (\<lambda>w. w)"
  by (rule database.equality) (simp_all add: that apply_effect_def)

lemma effects_without_workflow:
  "on_workflow (Starts i at) = (\<lambda>w. w)" "on_workflow (Completes request cs) = (\<lambda>w. w)" "on_workflow (Retries rq) = (\<lambda>w. w)"
  by (rule ext, simp)+

lemma find_running:
  assumes "distinct (task_ids ts)"
  shows "find (\<lambda>t. t_id t = i \<and> t_status t = Running) ts = Some r \<longleftrightarrow> running_row ts i r"
  by (simp add: find_key_Some_iff [OF assms] running_row_def)

lemma start_statement:
  assumes c: "consistent db" and rel: "known_released (task_executions db) i" and run: "start_task i at db = (db', r)"
  shows "\<exists>e. db' = apply_effect e db \<and> enabled e (task_executions db) \<and> fits (task_executions db) AtEnd e
     \<and> released_by e (task_executions db) = []"
proof -
  have db': "db' = db\<lparr>task_executions := map (start_row i at) (task_executions db)\<rparr>"
    using start_task_db [of i at db] run by simp
  show ?thesis
  proof (cases "\<exists>r \<in> set (task_executions db). t_id r = i \<and> t_status r = Pending")
    case True
    then obtain r where r: "r \<in> set (task_executions db)" "t_id r = i" "t_status r = Pending" by blast
    then have "t_remaining_dependencies r = 0"
      using rel same_id_same_row [OF consistent_ids(1) [OF c] r(1)] unfolding known_released_def by metis
    then show ?thesis
      using db' r with_tasks [OF effects_without_workflow(1), where db = db] by (intro exI [of _ "Starts i at"]) (auto simp: on_task_eqs)
  next
    case False
    then have "map (start_row i at) (task_executions db) = task_executions db" by (intro map_idI) (auto simp: start_row_def)
    then have "db' = db" using db' by simp
    then show ?thesis by (intro exI [of _ NoEffect]) simp
  qed
qed

lemma complete_statement:
  assumes c: "consistent db" and run: "complete_task_helper request db = (db', r)"
  shows "chr_succeeded r \<Longrightarrow> db' = apply_effect (Completes request []) db
     \<and> fits (task_executions db) (AtChildren request (chr_child_task_ids r) (chr_workflow_execution_id r)) (Completes request [])"
    and "\<not> chr_succeeded r \<Longrightarrow> db' = db"
proof -
  let ?ts = "task_executions db"
  let ?find = "find (\<lambda>t. t_id t = creq_task_execution_id request \<and> t_status t = Running) ?ts"
  have db': "db' = db\<lparr>task_executions := map (complete_row request) ?ts\<rparr>"
    and r: "r = (case ?find of None \<Rightarrow> \<lparr>chr_succeeded = False, chr_child_task_ids = [], chr_workflow_execution_id = None\<rparr>
      | Some t \<Rightarrow> \<lparr>chr_succeeded = True, chr_child_task_ids = t_child_task_ids t,
                    chr_workflow_execution_id = Some (t_workflow_execution_id t)\<rparr>)"
    using run by (auto simp: complete_task_helper_def Let_def one_or_none_returning complete_update_eq split: option.splits)
  show "chr_succeeded r \<Longrightarrow> db' = apply_effect (Completes request []) db
     \<and> fits ?ts (AtChildren request (chr_child_task_ids r) (chr_workflow_execution_id r)) (Completes request [])"
    using r db' with_tasks [OF effects_without_workflow(2), of request "[]" db] find_running [OF consistent_ids(1) [OF c]]
    by (auto simp: on_task_eqs split: option.splits)
  show "\<not> chr_succeeded r \<Longrightarrow> db' = db"
  proof -
    assume "\<not> chr_succeeded r"
    then have "?find = None" using r by (auto split: option.splits)
    then have "map (complete_row request) ?ts = ?ts" by (intro map_idI) (auto simp: complete_row_def find_None_iff)
    then show "db' = db" using db' by simp
  qed
qed

lemma release_row_snoc: "c \<notin> set cs \<Longrightarrow> release_row [c] (release_row cs t) = release_row (cs @ [c]) t"
  by (auto simp: release_row_def)

lemma child_statement:
  assumes c: "consistent db" and f: "fits (task_executions db) (AtChildren request (x # xs) wid) (Completes request cs)"
    and run: "update_child_dependencies [x] (apply_effect (Completes request cs) db) = (db', ids)"
  shows "db' = apply_effect (Completes request (cs @ [x])) db
     \<and> fits (task_executions db) (AtChildren request xs wid) (Completes request (cs @ [x]))
     \<and> ids = filter (becomes_runnable (task_executions db)) [x]"
proof -
  let ?ts = "task_executions db" and ?db = "apply_effect (Completes request cs) db"
  obtain r where r: "running_row ?ts (creq_task_execution_id request) r" "t_child_task_ids r = cs @ x # xs"
    "wid = Some (t_workflow_execution_id r)" using f by auto
  have graph: "graph_ok ?ts" using c by (simp add: consistent_def)
  then have "distinct (t_child_task_ids r)" using r(1) by (simp add: graph_ok_def mirrored_def running_row_def)
  then have x: "x \<notin> set cs" by (simp add: r(2))
  have ids: "distinct (task_ids ?ts)" by (rule consistent_ids(1) [OF c])
  then have ids': "distinct (task_ids (task_executions ?db))" by (simp add: comp_def)
  have upd: "db' = ?db\<lparr>task_executions := map (release_row [x]) (task_executions ?db)\<rparr>"
    "ids = filter (becomes_runnable (task_executions ?db)) [x]"
    using run update_child_dependencies_eq [OF ids', of "[x]"] by simp_all
  have "map (release_row [x]) (task_executions ?db) = map (on_task (Completes request (cs @ [x]))) ?ts"
    by (simp add: release_row_snoc [OF x])
  then have db': "db' = apply_effect (Completes request (cs @ [x])) db"
    unfolding upd(1) by (intro database.equality) (simp_all add: apply_effect_def effects_without_workflow)
  obtain u where u: "u \<in> set ?ts" "t_id u = x" using child_row [OF graph r(1), of x] r(2) by auto
  have "t_status (on_task (Completes request cs) u) = Pending \<longleftrightarrow> t_status u = Pending"
    by (simp add: release_row_def complete_row_def)
  moreover have "t_remaining_dependencies (on_task (Completes request cs) u) = t_remaining_dependencies u"
    using x u(2) by (simp add: release_row_def complete_row_def)
  ultimately have "becomes_runnable (task_executions ?db) x \<longleftrightarrow> becomes_runnable ?ts x"
    using becomes_runnable_iff [OF ids u] becomes_runnable_iff [OF ids', of "on_task (Completes request cs) u" x] u by auto
  then show ?thesis using db' upd(2) r by auto
qed

lemma finish_statement:
  assumes c: "consistent db" and f: "fits (task_executions db) (AtChildren request [] wid) (Completes request cs)"
    and run: "complete_workflow_if_finished wid (creq_completed_at request) (apply_effect (Completes request cs) db) = (db', b)"
  shows "\<exists>e. db' = apply_effect e db \<and> enabled e (task_executions db) \<and> fits (task_executions db) AtEnd e
     \<and> released_by e (task_executions db) = filter (becomes_runnable (task_executions db)) cs"
proof -
  let ?ts = "task_executions db" and ?db = "apply_effect (Completes request cs) db"
  obtain r where r: "running_row ?ts (creq_task_execution_id request) r" "t_child_task_ids r = cs"
    "wid = Some (t_workflow_execution_id r)" using f by auto
  let ?wid = "t_workflow_execution_id r"
  let ?all = "\<forall>t \<in> set ?ts. t_workflow_execution_id t = ?wid \<longrightarrow> t_status (complete_row request t) = Completed"
  have db': "db' = ?db\<lparr>workflow_executions :=
      map (finish_workflow_row ?wid (creq_completed_at request) (task_executions ?db)) (workflow_executions ?db)\<rparr>"
    using run r(3) complete_workflow_db [of ?wid "creq_completed_at request" ?db] by simp
  have all: "(\<forall>t \<in> set (task_executions ?db). t_workflow_execution_id t = ?wid \<longrightarrow> t_status t = Completed) \<longleftrightarrow> ?all"
    by simp
  show ?thesis
  proof (cases ?all)
    case True
    then have "finish_workflow_row ?wid (creq_completed_at request) (task_executions ?db) = on_workflow (Finishes request cs ?wid)"
      using all by (simp add: fun_eq_iff finish_workflow_row_def)
    then have "db' = apply_effect (Finishes request cs ?wid) db"
      unfolding db' by (intro database.equality) (simp_all add: apply_effect_def effects_without_workflow on_task_eqs)
    then show ?thesis using True r by (intro exI [of _ "Finishes request cs ?wid"]) auto
  next
    case False
    then have "\<not> (\<forall>t \<in> set (task_executions ?db). t_workflow_execution_id t = ?wid \<longrightarrow> t_status t = Completed)"
      unfolding all .
    then have "finish_workflow_row ?wid (creq_completed_at request) (task_executions ?db) w = w" for w
      unfolding finish_workflow_row_def by (rule if_not_P [OF contrapos_nn]) blast
    then have "db' = ?db" unfolding db' by (intro database.equality) simp_all
    then show ?thesis using r by (intro exI [of _ "Completes request cs"]) auto
  qed
qed

lemma retry_statement:
  assumes c: "consistent db" and run: "retry_task_helper request db = (db', r)"
  shows "rhr_succeeded r \<and> \<not> rhr_should_retry r \<Longrightarrow> db' = apply_effect (Retries request) db
      \<and> enabled (Retries request) (task_executions db)
      \<and> fits (task_executions db) (AtFail request (rhr_workflow_execution_id r)) (Retries request)"
    and "\<not> (rhr_succeeded r \<and> \<not> rhr_should_retry r) \<Longrightarrow>
      \<exists>e. db' = apply_effect e db \<and> enabled e (task_executions db) \<and> fits (task_executions db) AtEnd e
        \<and> released_by e (task_executions db) = []"
proof -
  let ?ts = "task_executions db"
  let ?find = "find (\<lambda>t. t_id t = rreq_task_execution_id request \<and> t_status t = Running \<and> t_remaining_tries t > 0) ?ts"
  have find: "?find = Some t \<longleftrightarrow> running_row ?ts (rreq_task_execution_id request) t \<and> t_remaining_tries t > 0" for t
    by (simp add: find_key_Some_iff [OF consistent_ids(1) [OF c]] running_row_def)
  have db': "db' = db\<lparr>task_executions := map (retry_row request) ?ts\<rparr>"
    and r: "r = (case ?find of None \<Rightarrow> \<lparr>rhr_succeeded = False, rhr_should_retry = False, rhr_workflow_execution_id = None\<rparr>
      | Some t \<Rightarrow> \<lparr>rhr_succeeded = True, rhr_should_retry = t_remaining_tries t - 1 > 0,
                    rhr_workflow_execution_id = Some (t_workflow_execution_id t)\<rparr>)"
    using run by (auto simp: retry_task_helper_def Let_def one_or_none_returning retry_update_eq split: option.splits)
  have effect: "db' = apply_effect (Retries request) db"
    using db' with_tasks [OF effects_without_workflow(3), of request db] by (simp add: on_task_eqs)
  show "rhr_succeeded r \<and> \<not> rhr_should_retry r \<Longrightarrow> db' = apply_effect (Retries request) db
      \<and> enabled (Retries request) ?ts \<and> fits ?ts (AtFail request (rhr_workflow_execution_id r)) (Retries request)"
  proof -
    assume failed: "rhr_succeeded r \<and> \<not> rhr_should_retry r"
    then obtain t where some: "?find = Some t" using r by (cases ?find) simp_all
    then have t: "running_row ?ts (rreq_task_execution_id request) t" "0 < t_remaining_tries t" using find by simp_all
    moreover have "t_remaining_tries t = 1" "rhr_workflow_execution_id r = Some (t_workflow_execution_id t)"
      using failed t(2) unfolding r some by simp_all
    ultimately show ?thesis using effect by auto
  qed
  assume other: "\<not> (rhr_succeeded r \<and> \<not> rhr_should_retry r)"
  show "\<exists>e. db' = apply_effect e db \<and> enabled e ?ts \<and> fits ?ts AtEnd e \<and> released_by e ?ts = []"
  proof (cases ?find)
    case None
    then have "map (retry_row request) ?ts = ?ts" by (intro map_idI) (auto simp: retry_row_def find_None_iff)
    then have "db' = db" using db' by simp
    then show ?thesis by (intro exI [of _ NoEffect]) simp
  next
    case (Some t)
    then have "running_row ?ts (rreq_task_execution_id request) t" using find by blast
    moreover have "t_remaining_tries t > 1" using other unfolding r Some by simp
    ultimately show ?thesis using effect by (intro exI [of _ "Retries request"]) fastforce
  qed
qed

definition runs_on :: "database \<Rightarrow> phase \<Rightarrow> effect \<Rightarrow> bool" where
  "runs_on db p e \<longleftrightarrow> enabled e (task_executions db) \<and> fits (task_executions db) p e"

lemma fail_statement:
  assumes c: "consistent db" and f: "fits (task_executions db) (AtFail request wid) (Retries request)"
    and run: "fail_workflow wid (rreq_completed_at request) (apply_effect (Retries request) db) = (db', b)"
  shows "\<exists>v. db' = apply_effect (Fails request v) db \<and> runs_on db AtEnd (Fails request v)"
proof -
  let ?db = "apply_effect (Retries request) db"
  obtain r where r: "running_row (task_executions db) (rreq_task_execution_id request) r" "t_remaining_tries r = 1"
    "wid = Some (t_workflow_execution_id r)" using f by auto
  have ws: "workflow_executions ?db = workflow_executions db" by (simp add: effects_without_workflow)
  have "workflow_running ?db (t_workflow_execution_id r)"
    using running_row_workflow [OF c r(1)] ws by (simp add: workflow_running_def)
  moreover have "distinct (map w_id (workflow_executions ?db))" using consistent_ids(2) [OF c] ws by simp
  ultimately have "db' = ?db\<lparr>workflow_executions := map (fail_workflow_row (t_workflow_execution_id r) (rreq_completed_at request)) (workflow_executions ?db),
      task_executions := map (cancel_row (t_workflow_execution_id r) (rreq_completed_at request)) (task_executions ?db)\<rparr>"
    using fail_workflow_running [of ?db "t_workflow_execution_id r" "rreq_completed_at request"] run r(3) by simp
  also have "\<dots> = apply_effect (Fails request (t_workflow_execution_id r)) db"
    by (rule database.equality) (simp_all add: apply_effect_def effects_without_workflow on_task_eqs fun_eq_iff [of "on_workflow _"])
  finally show ?thesis using r by (auto simp: runs_on_def)
qed

text \<open>A statement of a transaction extends its effect and releases what it reports as runnable.\<close>

lemma next_statement_effect:
  assumes c: "consistent db" and on: "runs_on db p e" and open_phase: "p \<noteq> AtEnd" "p \<noteq> AtError"
    and run: "next_statement p (apply_effect e db) = (db', p', ids)"
  shows "\<exists>e'. db' = apply_effect e' db \<and> runs_on db p' e'
     \<and> released_by e' (task_executions db) = released_by e (task_executions db) @ ids"
proof (cases p)
  case (AtStart i at)
  then have e: "e = NoEffect" "known_released (task_executions db) i" using on by (simp_all add: runs_on_def)
  obtain r where s: "start_task i at db = (db', r)" and p': "p' = AtEnd \<or> p' = AtError" "ids = []"
    using run AtStart e by (auto split: prod.splits sum.splits)
  from start_statement [OF c e(2) s] p' show ?thesis using e(1) by (auto simp: runs_on_def)
next
  case (AtComplete request)
  then have e: "e = NoEffect" using on by (simp add: runs_on_def)
  obtain r where s: "complete_task_helper request db = (db', r)"
    and p': "p' = (if chr_succeeded r then AtChildren request (chr_child_task_ids r) (chr_workflow_execution_id r) else AtEnd)" "ids = []"
    using run AtComplete e by (auto split: prod.splits)
  note helper = complete_statement [OF c s]
  show ?thesis
  proof (cases "chr_succeeded r")
    case True
    then have "runs_on db p' (Completes request [])" using helper(1) p'(1) by (auto simp: runs_on_def)
    then show ?thesis using helper(1) [OF True] p'(2) e by (intro exI [of _ "Completes request []"]) simp
  next
    case False
    then show ?thesis using helper(2) p' e by (intro exI [of _ NoEffect]) (simp add: runs_on_def)
  qed
next
  case (AtChildren request cs wid)
  then obtain released where e: "e = Completes request released" using on by (auto simp: runs_on_def)
  have f: "fits (task_executions db) (AtChildren request cs wid) (Completes request released)"
    using on AtChildren e by (simp add: runs_on_def)
  show ?thesis
  proof (cases cs)
    case Nil
    then obtain b where s: "complete_workflow_if_finished wid (creq_completed_at request) (apply_effect (Completes request released) db) = (db', b)"
      and p': "p' = AtEnd" "ids = []" using run AtChildren e by (auto split: prod.splits)
    from finish_statement [OF c f [unfolded Nil] s] p' show ?thesis using e by (auto simp: runs_on_def)
  next
    case (Cons x xs)
    then have s: "update_child_dependencies [x] (apply_effect (Completes request released) db) = (db', ids)"
      and p': "p' = AtChildren request xs wid"
      using run AtChildren e by (auto split: prod.splits simp del: update_child_dependencies.simps)
    note helper = child_statement [OF c f [unfolded Cons] s]
    moreover from this have "enabled (Completes request (released @ [x])) (task_executions db)" by auto
    ultimately show ?thesis using e p' by (intro exI [of _ "Completes request (released @ [x])"]) (simp add: runs_on_def)
  qed
next
  case (AtRetry request)
  then have e: "e = NoEffect" using on by (simp add: runs_on_def)
  obtain r where s: "retry_task_helper request db = (db', r)"
    and p': "p' = (if rhr_succeeded r \<and> \<not> rhr_should_retry r then AtFail request (rhr_workflow_execution_id r) else AtEnd)" "ids = []"
    using run AtRetry e by (auto split: prod.splits)
  note helper = retry_statement [OF c s]
  show ?thesis
  proof (cases "rhr_succeeded r \<and> \<not> rhr_should_retry r")
    case True
    then show ?thesis
      using helper(1) [OF True] p' e unfolding runs_on_def by (intro exI [of _ "Retries request"]) (simp del: enabled.simps fits.simps)
  next
    case False
    then have "p' = AtEnd" using p'(1) by (simp only: if_False)
    then show ?thesis using helper(2) [OF False] p'(2) e unfolding runs_on_def by (simp del: enabled.simps fits.simps)
  qed
next
  case (AtFail request wid)
  then have e: "e = Retries request" using on by (auto simp: runs_on_def)
  have f: "fits (task_executions db) (AtFail request wid) (Retries request)" using on AtFail e by (simp add: runs_on_def)
  obtain b where s: "fail_workflow wid (rreq_completed_at request) (apply_effect (Retries request) db) = (db', b)"
    and p': "p' = AtEnd" "ids = []" using run AtFail e by (auto split: prod.splits)
  obtain v where "db' = apply_effect (Fails request v) db" "runs_on db AtEnd (Fails request v)"
    using fail_statement [OF c f s] by blast
  then show ?thesis using p' e by (intro exI [of _ "Fails request v"]) simp
qed (use open_phase in simp_all)

lemma statement_transaction:
  assumes c: "consistent db" and run: "f (apply_effect e db) = (apply_effect e' db, x)"
  shows "statement f db (transaction_of e db) = (transaction_of e' db, x)"
  using run view_transaction [OF consistent_ids [OF c]]
    new_rows_versions [of t_id, OF consistent_ids(1) [OF c] on_task_keeps(1)]
    new_rows_versions [of w_id, OF consistent_ids(2) [OF c] on_workflow_keeps]
  by (simp add: statement_def transaction_of_def)

lemma statement_effect:
  assumes "consistent db" "runs_on db p e" "p \<noteq> AtEnd" "p \<noteq> AtError"
    "statement (next_statement p) db (transaction_of e db) = (tx, (p', ids))"
  shows "\<exists>e'. tx = transaction_of e' db \<and> runs_on db p' e'
     \<and> released_by e' (task_executions db) = released_by e (task_executions db) @ ids"
proof -
  obtain db' q xs where run: "next_statement p (apply_effect e db) = (db', q, xs)" by (metis prod_cases3)
  obtain e' where e': "db' = apply_effect e' db" "runs_on db q e'"
    "released_by e' (task_executions db) = released_by e (task_executions db) @ xs"
    using next_statement_effect [OF assms(1-4) run] by blast
  have "statement (next_statement p) db (transaction_of e db) = (transaction_of e' db, (q, xs))"
    by (rule statement_transaction [OF assms(1)]) (simp add: run e'(1))
  then show ?thesis using e' assms(5) by auto
qed

end
