(* ===== verification/Concurrent_Safety.thy ===== *)
theory Concurrent_Safety
  imports Concurrent_Effects
begin

text \<open>
  The invariant of interleaved transactions and what follows from it: consistent tables and each
  task released exactly once. The one thing that READ COMMITTED loses is that a workflow whose
  tasks have all completed is marked as completed (\<open>concurrent_completions_leave_running\<close>).
\<close>

section \<open>Each task is released once\<close>

text \<open>The tasks whose counter has reached 0.\<close>

definition released_ids :: "task_row list \<Rightarrow> uuid set" where
  "released_ids ts = t_id ` {t \<in> set ts. t_remaining_dependencies t = 0}"

lemma released_ids_advances:
  assumes "table_advances ts us"
  shows "released_ids ts \<subseteq> released_ids us"
proof
  fix c assume "c \<in> released_ids ts"
  then obtain t where t: "t \<in> set ts" "t_id t = c" "t_remaining_dependencies t = 0" by (auto simp: released_ids_def)
  then obtain u where "u \<in> set us" "row_advances t u" using assms by (auto simp: table_advances_def)
  then show "c \<in> released_ids us"
    using t(2,3) shape_eqD(1) [of u t] by (auto simp: released_ids_def row_advances_def intro!: image_eqI [of _ _ u])
qed

lemma counter_on_task:
  "t_remaining_dependencies (on_task e t) =
     (case e of
        Completes request cs \<Rightarrow> t_remaining_dependencies (release_row cs (complete_row request t))
      | Finishes request cs wid \<Rightarrow> t_remaining_dependencies (release_row cs (complete_row request t))
      | _ \<Rightarrow> t_remaining_dependencies t)"
  by (cases e) (simp_all add: start_row_def retry_row_def cancel_row_def)

lemma released_by_fresh:
  assumes "distinct (task_ids ts)"
  shows "set (released_by e ts) \<inter> released_ids ts = {}"
proof -
  have "c \<notin> released_ids ts" if "becomes_runnable ts c" for c
    using that same_id_same_row [OF assms] unfolding becomes_runnable_def released_ids_def by fastforce
  then show ?thesis by (cases e) auto
qed

lemma released_by_distinct:
  assumes "graph_ok ts" "enabled e ts"
  shows "distinct (released_by e ts)"
proof -
  have "distinct (t_child_task_ids r)" if "running_row ts i r" for i r
    using assms(1) that by (simp add: graph_ok_def mirrored_def running_row_def)
  then have "distinct cs" if "running_row ts i r" "t_child_task_ids r = cs @ rest" for i r cs rest
    using that by (metis distinct_append)
  from this this [where rest = "[]"] show ?thesis using assms(2) by (cases e) fastforce+
qed

lemma released_ids_effect:
  assumes graph: "graph_ok ts" and ok: "progress_ok ts" and e: "enabled e ts"
  shows "released_ids (map (on_task e) ts) = released_ids ts \<union> set (released_by e ts)"
proof -
  have ids: "distinct (task_ids ts)" using graph by (simp add: graph_ok_def)
  have completion: "t_remaining_dependencies (release_row cs (complete_row request t)) = 0
      \<longleftrightarrow> t_remaining_dependencies t = 0 \<or> (t_id t \<in> set cs \<and> becomes_runnable ts (t_id t))"
    if r: "running_row ts (creq_task_execution_id request) r" and t: "t \<in> set ts" for cs request r t
  proof -
    have "t_status t = Running" if "t_id t = creq_task_execution_id request"
      using same_id_same_row [OF ids t, of r] r that by (simp add: running_row_def)
    then show ?thesis
      unfolding becomes_runnable_iff [OF ids t refl] by (auto simp: release_row_def complete_row_def)
  qed
  have union: "released_ids (map (on_task e) ts) = released_ids ts \<union> set (filter (becomes_runnable ts) cs)"
    if "\<And>t. t \<in> set ts \<Longrightarrow> t_remaining_dependencies (on_task e t) = 0
        \<longleftrightarrow> t_remaining_dependencies t = 0 \<or> (t_id t \<in> set cs \<and> becomes_runnable ts (t_id t))" for cs
  proof -
    let ?now = "{t \<in> set ts. t_id t \<in> set cs \<and> becomes_runnable ts (t_id t)}"
    have "{u \<in> on_task e ` set ts. t_remaining_dependencies u = 0} = on_task e ` {t \<in> set ts. t_remaining_dependencies (on_task e t) = 0}"
      by blast
    also have "{t \<in> set ts. t_remaining_dependencies (on_task e t) = 0} = {t \<in> set ts. t_remaining_dependencies t = 0} \<union> ?now"
      using that by blast
    finally have "released_ids (map (on_task e) ts) = released_ids ts \<union> t_id ` ?now"
      by (simp add: released_ids_def image_Un image_image)
    moreover have "t_id ` ?now = set (filter (becomes_runnable ts) cs)" by (auto simp: becomes_runnable_def)
    ultimately show ?thesis by simp
  qed
  show ?thesis
  proof (cases e)
    case (Completes request cs)
    then obtain r where "running_row ts (creq_task_execution_id request) r" using e by auto
    from union [OF completion [OF this, of _ cs, folded on_task.simps(3), folded Completes]]
    show ?thesis using Completes by simp
  next
    case (Finishes request cs wid)
    then obtain r where "running_row ts (creq_task_execution_id request) r" using e by auto
    from union [OF completion [OF this, of _ cs, folded on_task.simps(4) [of _ _ wid], folded Finishes]]
    show ?thesis using Finishes by simp
  qed (use union [of "[]"] counter_on_task [of e] in simp_all)
qed

section \<open>The invariant of interleaved transactions\<close>

definition rc_tasks :: "rc_state \<Rightarrow> task_row list" where
  "rc_tasks s = task_executions (rc_db s)"

definition active_ok :: "database \<Rightarrow> active \<Rightarrow> effect \<Rightarrow> bool" where
  "active_ok db a e \<longleftrightarrow>
     runs_on db (ac_phase a) e \<and> ac_transaction a = transaction_of e db
     \<and> ac_runnable a = released_by e (task_executions db)"

definition rc_inv :: "task_row list \<Rightarrow> rc_state \<Rightarrow> bool" where
  "rc_inv ts s \<longleftrightarrow>
     consistent (rc_db s)
     \<and> (\<forall>k a. rc_active s k = Some a \<longrightarrow> (\<exists>e. active_ok (rc_db s) a e))
     \<and> (\<forall>k j a b. k \<noteq> j \<longrightarrow> rc_active s k = Some a \<longrightarrow> rc_active s j = Some b \<longrightarrow>
          no_lock_conflict (ac_transaction a) (ac_transaction b))
     \<and> table_advances ts (rc_tasks s)
     \<and> distinct (rc_published s) \<and> set (rc_published s) = released_ids (rc_tasks s) - released_ids ts"

lemma rc_invD:
  assumes "rc_inv ts s"
  shows "consistent (rc_db s)"
    "rc_active s k = Some a \<Longrightarrow> \<exists>e. active_ok (rc_db s) a e"
    "k \<noteq> j \<Longrightarrow> rc_active s k = Some a \<Longrightarrow> rc_active s j = Some b \<Longrightarrow>
     no_lock_conflict (ac_transaction a) (ac_transaction b)"
    "table_advances ts (rc_tasks s)" "distinct (rc_published s)"
    "set (rc_published s) = released_ids (rc_tasks s) - released_ids ts"
  using assms by (auto simp: rc_inv_def)

lemma no_lock_conflict_sym: "no_lock_conflict x y \<Longrightarrow> no_lock_conflict y x"
  by (auto simp: no_lock_conflict_def)

lemma no_lock_conflict_begin [simp]: "no_lock_conflict begin_transaction y" "no_lock_conflict y begin_transaction"
  by (simp_all add: no_lock_conflict_def begin_transaction_def)

lemma transaction_of_NoEffect: "transaction_of NoEffect db = begin_transaction"
  by (simp add: transaction_of_def begin_transaction_def versions_def)

lemma active_ok_begin:
  "may_begin db p \<Longrightarrow> active_ok db \<lparr>ac_transaction = begin_transaction, ac_phase = p, ac_runnable = []\<rparr> NoEffect"
  by (auto simp: active_ok_def runs_on_def transaction_of_NoEffect may_begin_def split: phase.splits)

text \<open>The transactions that stay keep their place when another commits.\<close>

lemma active_ok_other:
  assumes c: "consistent db" and b: "active_ok db b e" and a: "active_ok db a e'"
    and apart: "no_lock_conflict (ac_transaction b) (ac_transaction a)"
  shows "active_ok (apply_effect e' db) b e"
proof -
  have parts: "graph_ok (task_executions db)" "progress_ok (task_executions db)" using c by (simp_all add: consistent_def)
  have b': "enabled e (task_executions db)" "fits (task_executions db) (ac_phase b) e" "ac_transaction b = transaction_of e db"
    "ac_runnable b = released_by e (task_executions db)" using b by (simp_all add: active_ok_def runs_on_def)
  have ap: "apart e e' db" using apart a b'(3) by (simp add: no_conflict_apart active_ok_def)
  show ?thesis
    using standing_other [OF parts b'(1,2) ap] transaction_other [OF consistent_ids(1) [OF c] parts(2) b'(1) ap] b'(3,4)
    by (simp add: active_ok_def runs_on_def)
qed

lemma rc_inv_active:
  assumes inv: "rc_inv ts s" and a: "active_ok (rc_db s) a e"
    and apart: "\<And>j b. j \<noteq> k \<Longrightarrow> rc_active s j = Some b \<Longrightarrow> no_lock_conflict (ac_transaction a) (ac_transaction b)"
  shows "rc_inv ts (s\<lparr>rc_active := (rc_active s)(k \<mapsto> a)\<rparr>)"
proof -
  have "no_lock_conflict (ac_transaction x) (ac_transaction y)"
    if "i \<noteq> j" "((rc_active s)(k \<mapsto> a)) i = Some x" "((rc_active s)(k \<mapsto> a)) j = Some y" for i j x y
  proof -
    consider "i = k" "j \<noteq> k" | "j = k" "i \<noteq> k" | "i \<noteq> k" "j \<noteq> k" using \<open>i \<noteq> j\<close> by blast
    then show ?thesis
    proof cases
      case 1
      then show ?thesis using that(2,3) apart [of j y] by simp
    next
      case 2
      then show ?thesis using that(2,3) apart [of i x] no_lock_conflict_sym by simp
    next
      case 3
      then show ?thesis using that rc_invD(3) [OF inv, of i j] by simp
    qed
  qed
  moreover have "\<exists>e. active_ok (rc_db s) x e" if "((rc_active s)(k \<mapsto> a)) i = Some x" for i x
    using that a rc_invD(2) [OF inv] by (auto split: if_splits)
  ultimately show ?thesis using inv unfolding rc_inv_def by (simp add: rc_tasks_def)
qed

lemma rc_inv_commit:
  assumes inv: "rc_inv ts s" and a: "rc_active s k = Some a" "ac_phase a = AtEnd"
  shows "rc_inv ts (s\<lparr>rc_db := view (ac_transaction a) (rc_db s), rc_active := (rc_active s)(k := None),
                     rc_published := ac_runnable a @ rc_published s\<rparr>)"
proof -
  note c = rc_invD(1) [OF inv]
  obtain e where e: "active_ok (rc_db s) a e" using rc_invD(2) [OF inv a(1)] by blast
  let ?ts = "task_executions (rc_db s)"
  have parts: "graph_ok ?ts" "progress_ok ?ts" using c by (simp_all add: consistent_def)
  have en: "enabled e ?ts" "fits ?ts AtEnd e" "ac_runnable a = released_by e ?ts"
    using e a(2) by (simp_all add: active_ok_def runs_on_def)
  have v: "view (ac_transaction a) (rc_db s) = apply_effect e (rc_db s)"
    using e view_transaction [OF consistent_ids [OF c]] by (simp add: active_ok_def)
  have "\<exists>e'. active_ok (apply_effect e (rc_db s)) b e'" if "j \<noteq> k" "rc_active s j = Some b" for j b
    using active_ok_other [OF c _ e] rc_invD(2) [OF inv that(2)] rc_invD(3) [OF inv that(1) that(2) a(1)] by blast
  moreover have "table_advances ts (map (on_task e) ?ts)"
    using table_advances_trans [OF _ table_advances_map [OF row_advances_on_task]] rc_invD(4) [OF inv] by (simp add: rc_tasks_def)
  moreover have "distinct (released_by e ?ts @ rc_published s)"
    using released_by_distinct [OF parts(1) en(1)] released_by_fresh [OF consistent_ids(1) [OF c], of e] rc_invD(5,6) [OF inv]
    by (auto simp: rc_tasks_def)
  moreover have "released_ids ts \<subseteq> released_ids ?ts"
    using released_ids_advances [OF rc_invD(4) [OF inv]] by (simp add: rc_tasks_def)
  then have "set (released_by e ?ts @ rc_published s) = released_ids (map (on_task e) ?ts) - released_ids ts"
    using released_ids_effect [OF parts en(1)] released_by_fresh [OF consistent_ids(1) [OF c], of e] rc_invD(6) [OF inv]
    by (auto simp: rc_tasks_def)
  ultimately show ?thesis
    using consistent_effect [OF c en(1,2)] rc_invD(3) [OF inv] unfolding rc_inv_def v en(3)
    by (simp add: rc_tasks_def)
qed

lemma rc_inv_step:
  assumes step: "rc_step s s'" and inv: "rc_inv ts s"
  shows "rc_inv ts s'"
  using step
proof cases
  case (rc_begin k p)
  show ?thesis unfolding rc_begin(1) by (rule rc_inv_active [OF inv active_ok_begin [OF rc_begin(3)]]) simp
next
  case (rc_statement k a tx p ids)
  obtain e where e: "active_ok (rc_db s) a e" using rc_invD(2) [OF inv rc_statement(2)] by blast
  then obtain e' where "tx = transaction_of e' (rc_db s)" "runs_on (rc_db s) p e'"
    "released_by e' (task_executions (rc_db s)) = released_by e (task_executions (rc_db s)) @ ids"
    using statement_effect [OF rc_invD(1) [OF inv] _ rc_statement(3,4), of e tx p ids] rc_statement(5)
    by (auto simp: active_ok_def)
  then have "active_ok (rc_db s) \<lparr>ac_transaction = tx, ac_phase = p, ac_runnable = ac_runnable a @ ids\<rparr> e'"
    using e by (simp add: active_ok_def)
  from rc_inv_active [OF inv this] rc_statement(6) show ?thesis unfolding rc_statement(1) by simp
next
  case (rc_commit k a)
  show ?thesis unfolding rc_commit(1) by (rule rc_inv_commit [OF inv rc_commit(2,3)])
next
  case (rc_rollback k)
  show ?thesis using inv unfolding rc_rollback rc_inv_def by (simp add: rc_tasks_def)
qed

lemma rc_inv_initial: "exec_inv db \<Longrightarrow> rc_inv (task_executions db) (rc_initial db)"
  by (simp add: rc_inv_def rc_initial_def exec_inv_consistent rc_tasks_def)

lemma rc_reachable: "rc_step\<^sup>*\<^sup>* (rc_initial db) s \<Longrightarrow> exec_inv db \<Longrightarrow> rc_inv (task_executions db) s"
  by (induction rule: rtranclp_induct) (auto intro: rc_inv_initial rc_inv_step)

section \<open>What holds in every interleaving\<close>

text \<open>
  C7. Safe at READ COMMITTED. Let transactions that start released tasks and that report tasks as
  completed or as failed be interleaved statement by statement, each seeing what the others have
  committed and waiting for the rows they have written, and let any of them be rolled back. In
  every state that is committed, a task that runs or has a result has only completed parents, the
  counter of a pending task is the number of its parents that have not completed, a workflow is
  completed only when all its tasks are and failed only when all its tasks have ended and one has
  failed; no row has moved back; and the identifiers that the committed transactions return for
  publication are the tasks whose counter has reached 0, each one exactly once.
\<close>

theorem read_committed_safe:
  assumes "exec_inv db" "rc_step\<^sup>*\<^sup>* (rc_initial db) s"
  shows "(\<forall>t \<in> set (task_executions (rc_db s)).
            (t_status t = Running \<or> t_status t = Completed \<or> t_status t = Failed \<longrightarrow>
               (\<forall>p \<in> set (t_parent_task_ids t). completed (task_executions (rc_db s)) p))
          \<and> (t_status t = Pending \<longrightarrow> t_remaining_dependencies t =
               int (length (filter (\<lambda>p. \<not> completed (task_executions (rc_db s)) p) (t_parent_task_ids t)))))
     \<and> (\<forall>w \<in> set (workflow_executions (rc_db s)). \<forall>ts. ts = tasks_of (task_executions (rc_db s)) (w_id w) \<longrightarrow>
            (w_status w = WfCompleted \<longrightarrow> (\<forall>t \<in> set ts. t_status t = Completed))
          \<and> (w_status w = WfFailed \<longrightarrow> (\<forall>t \<in> set ts. terminal_task (t_status t)) \<and> (\<exists>t \<in> set ts. t_status t = Failed)))
     \<and> table_advances (task_executions db) (task_executions (rc_db s))
     \<and> distinct (rc_published s)
     \<and> set (rc_published s) = released_ids (task_executions (rc_db s)) - released_ids (task_executions db)"
proof -
  note inv = rc_reachable [OF assms(2,1)]
  have ok: "progress_ok (task_executions (rc_db s))" "\<forall>w \<in> set (workflow_executions (rc_db s)).
      workflow_consistent (task_executions (rc_db s)) w"
    using rc_invD(1) [OF inv] by (simp_all add: consistent_def)
  have tasks: "(t_status t = Running \<or> t_status t = Completed \<or> t_status t = Failed \<longrightarrow> ready (task_executions (rc_db s)) t)
      \<and> (t_status t = Pending \<longrightarrow> t_remaining_dependencies t = int (length (open_parents (task_executions (rc_db s)) t)))"
    if "t \<in> set (task_executions (rc_db s))" for t
    using ok(1) that by (auto simp: progress_ok_def row_ok_def)
  have workflows: "(w_status w = WfCompleted \<longrightarrow> (\<forall>t \<in> set ts. t_status t = Completed))
      \<and> (w_status w = WfFailed \<longrightarrow> (\<forall>t \<in> set ts. terminal_task (t_status t)) \<and> (\<exists>t \<in> set ts. t_status t = Failed))"
    if "w \<in> set (workflow_executions (rc_db s))" "ts = tasks_of (task_executions (rc_db s)) (w_id w)" for w ts
    using ok(2) that by (auto simp: workflow_consistent_def)
  show ?thesis
    by (intro conjI, rule ballI, erule tasks [unfolded ready_def open_parents_def],
        intro ballI allI impI, erule workflows, assumption, fold rc_tasks_def, (rule rc_invD(4-6) [OF inv])+)
qed

section \<open>A schedule\<close>

text \<open>Two workers complete the two parents of one task; the second waits for the row of the task.\<close>

datatype rc_action = Begins nat phase | Executes nat | Commits nat

fun rc_act :: "nat \<Rightarrow> rc_action \<Rightarrow> rc_state \<Rightarrow> rc_state option" where
  "rc_act n (Begins k p) s =
     (if k < n \<and> rc_active s k = None \<and> may_begin (rc_db s) p
      then Some (s\<lparr>rc_active := (rc_active s)(k \<mapsto>
             \<lparr>ac_transaction = begin_transaction, ac_phase = p, ac_runnable = []\<rparr>)\<rparr>)
      else None)"
| "rc_act n (Executes k) s =
     (case rc_active s k of
        None \<Rightarrow> None
      | Some a \<Rightarrow>
          (case statement (next_statement (ac_phase a)) (rc_db s) (ac_transaction a) of (tx, p, ids) \<Rightarrow>
             if k < n \<and> ac_phase a \<noteq> AtEnd \<and> ac_phase a \<noteq> AtError
                \<and> list_all (\<lambda>j. j = k \<or> (case rc_active s j of None \<Rightarrow> True
                                      | Some b \<Rightarrow> no_lock_conflict tx (ac_transaction b))) [0..<n]
             then Some (s\<lparr>rc_active := (rc_active s)(k \<mapsto>
                    \<lparr>ac_transaction = tx, ac_phase = p, ac_runnable = ac_runnable a @ ids\<rparr>)\<rparr>)
             else None))"
| "rc_act n (Commits k) s =
     (case rc_active s k of
        None \<Rightarrow> None
      | Some a \<Rightarrow>
          if ac_phase a = AtEnd
          then Some (s\<lparr>rc_db := view (ac_transaction a) (rc_db s), rc_active := (rc_active s)(k := None),
                       rc_published := ac_runnable a @ rc_published s\<rparr>)
          else None)"

fun rc_run :: "nat \<Rightarrow> rc_action list \<Rightarrow> rc_state \<Rightarrow> rc_state option" where
  "rc_run n [] s = Some s"
| "rc_run n (x # xs) s = (case rc_act n x s of None \<Rightarrow> None | Some s' \<Rightarrow> rc_run n xs s')"

lemma rc_act_step:
  assumes "rc_act n x s = Some s'" "\<forall>j \<ge> n. rc_active s j = None"
  shows "rc_step s s' \<and> (\<forall>j \<ge> n. rc_active s' j = None)"
proof (cases x)
  case (Begins k p)
  then show ?thesis using assms rc_step.rc_begin [of s k p] by (auto split: if_splits)
next
  case (Executes k)
  then obtain a tx p ids where a: "rc_active s k = Some a" "k < n" "ac_phase a \<noteq> AtEnd" "ac_phase a \<noteq> AtError"
    "statement (next_statement (ac_phase a)) (rc_db s) (ac_transaction a) = (tx, p, ids)"
    and free: "list_all (\<lambda>j. j = k \<or> (case rc_active s j of None \<Rightarrow> True
        | Some b \<Rightarrow> no_lock_conflict tx (ac_transaction b))) [0..<n]"
    and s': "s' = s\<lparr>rc_active := (rc_active s)(k \<mapsto>
        \<lparr>ac_transaction = tx, ac_phase = p, ac_runnable = ac_runnable a @ ids\<rparr>)\<rparr>"
    using assms(1) by (auto split: option.splits prod.splits if_splits)
  have "no_lock_conflict tx (ac_transaction b)" if "j \<noteq> k" "rc_active s j = Some b" for j b
  proof -
    have "j < n" using assms(2) that(2) by (metis not_le option.distinct(1))
    then show ?thesis using free that by (auto simp: list_all_iff dest!: bspec [of _ _ j])
  qed
  from rc_step.rc_statement [OF a(1,3,4,5) this] show ?thesis using assms(2) a(2) s' by simp
next
  case (Commits k)
  then show ?thesis using assms rc_step.rc_commit [of s k] by (auto split: if_splits option.splits)
qed

lemma rc_run_reachable:
  "rc_run n xs s = Some s' \<Longrightarrow> \<forall>j \<ge> n. rc_active s j = None \<Longrightarrow> rc_step\<^sup>*\<^sup>* s s'"
proof (induction xs arbitrary: s)
  case (Cons x xs)
  then obtain s1 where s1: "rc_act n x s = Some s1" "rc_run n xs s1 = Some s'" by (auto split: option.splits)
  note first = rc_act_step [OF s1(1) Cons.prems(2)]
  from first have "rc_step\<^sup>*\<^sup>* s1 s'" by (intro Cons.IH s1(2)) blast
  then show ?case using first by (intro converse_rtranclp_into_rtranclp [of _ s s1]) simp_all
qed simp

definition fork_left :: task_row where
  "fork_left = left_row\<lparr>t_child_task_ids := [Uuid 13]\<rparr>"

definition fork_right :: task_row where
  "fork_right = right_row\<lparr>t_child_task_ids := [Uuid 13]\<rparr>"

definition join_row :: task_row where
  "join_row = (load_row Pending 2 None)\<lparr>t_id := Uuid 13, t_key := ''join'', t_parent_task_ids := [Uuid 11, Uuid 12]\<rparr>"

definition join_db :: database where
  "join_db = walk_db [fork_left, fork_right, join_row]"

definition join_schedule :: "rc_action list" where
  "join_schedule =
     [Begins 0 (AtComplete left_request), Begins 1 (AtComplete right_request), Executes 0, Executes 1,
      Executes 1, Executes 1, Commits 1, Executes 0, Executes 0, Commits 0]"

lemmas join_rows = fork_left_def fork_right_def join_row_def left_row_def right_row_def extract_row_def load_row_def

lemma join_exec_inv: "exec_inv join_db"
proof -
  let ?ts = "[fork_left, fork_right, join_row]"
  have "mirrored ?ts fork_left" "mirrored ?ts fork_right" "mirrored ?ts join_row"
    by (simp_all add: mirrored_def join_rows)
  moreover have "acyclic_graph ?ts"
    unfolding acyclic_graph_def by (rule exI [of _ "\<lambda>i. if i = Uuid 13 then 1 else 0"]) (simp add: join_rows)
  moreover have "unique_keys ?ts" "distinct (task_ids ?ts)" by (simp_all add: unique_keys_def join_rows)
  ultimately have "graph_ok ?ts" by (simp add: graph_ok_def)
  moreover have "progress_ok ?ts"
    by (simp add: progress_ok_def row_ok_def ready_def open_parents_def completed_def join_rows)
  moreover have "workflows_ok join_db"
    by (simp add: workflows_ok_def workflow_ok_def tasks_of_def join_db_def walk_db_def walk_workflow_def join_rows)
  ultimately show ?thesis by (simp add: exec_inv_def join_db_def walk_db_def)
qed

text \<open>While the second transaction holds the row of the common child, the first cannot go on.\<close>

lemma join_waits:
  "rc_run 2 (take 5 join_schedule @ [Executes 0]) (rc_initial join_db) = None"
  by code_simp

lemma join_runs:
  "map_option (\<lambda>s. (rc_published s, map (\<lambda>t. (t_status t, t_remaining_dependencies t)) (task_executions (rc_db s))))
     (rc_run 2 join_schedule (rc_initial join_db)) =
   Some ([Uuid 13], [(Completed, 0), (Completed, 0), (Pending, 0)])"
  by code_simp

theorem read_committed_safe_witness:
  "\<exists>s. rc_step\<^sup>*\<^sup>* (rc_initial join_db) s \<and> rc_published s = [Uuid 13]
     \<and> set (rc_published s) = released_ids (task_executions (rc_db s)) - released_ids (task_executions join_db)"
proof -
  obtain s where s: "rc_run 2 join_schedule (rc_initial join_db) = Some s" "rc_published s = [Uuid 13]"
    using join_runs by (auto simp: map_option_case split: option.splits)
  have "rc_step\<^sup>*\<^sup>* (rc_initial join_db) s" by (rule rc_run_reachable [OF s(1)]) (simp add: rc_initial_def)
  then show ?thesis using read_committed_safe [OF join_exec_inv] s(2) by blast
qed

end
