(* ===== verification/Api.thy ===== *)
theory Api
  imports Start_Properties
begin

text \<open>
  The HTTP interface (\<open>runtime/api/\<close>): request and response schemas, the application with its
  routes and exception handlers, and the endpoint functions over the application services. Parsing
  and serialising JSON and UUIDs belong to FastAPI and pydantic: an endpoint starts from its typed
  arguments and ends in its response object. Which registered handler an exception reaches is
  Starlette's choice and a parameter; what its documentation promises is \<open>dispatches_by_class\<close>.
\<close>

section \<open>Messages of the application errors\<close>

text \<open>\<open>str\<close> of a UUID: 32 hexadecimal digits in groups of 8, 4, 4, 4 and 12.\<close>

definition uuid_str :: "uuid \<Rightarrow> string" where
  "uuid_str u =
     (let h = hex_str 32 (uuid_value u) in
      take 8 h @ ''-'' @ take 4 (drop 8 h) @ ''-'' @ take 4 (drop 12 h) @ ''-'' @ take 4 (drop 16 h)
        @ ''-'' @ drop 20 h)"

fun invalid_message :: "invalid_definition \<Rightarrow> string" where
  "invalid_message NoTasks = ''Workflow definition must contain at least one task.''"
| "invalid_message DuplicateTaskKeys = ''Task keys are not all unique in workflow.''"
| "invalid_message (NoMaxTries key max_tries) =
     ''Task '' @ repr key @ '' has no available max tries: '' @ int_str max_tries @ ''.''"
| "invalid_message (UnknownTaskPlugin plugin_type) = ''Unknown task plugin type: '' @ repr plugin_type @ ''.''"
| "invalid_message (InvalidTaskConfiguration key exc) =
     ''Invalid configuration for task '' @ repr key @ '': '' @ exc"
| "invalid_message (SelfDependency key) = ''Task '' @ repr key @ '' depends on self.''"
| "invalid_message (DuplicateDependencies key) = ''Task '' @ repr key @ '' has duplicate dependencies.''"
| "invalid_message (UnknownDependency key dependency) =
     ''Task '' @ repr key @ '' references unknown dependency '' @ repr dependency @ ''.''"
| "invalid_message DependencyCycle = ''Task dependency graph contains a cycle.''"
| "invalid_message (UnknownTriggerPlugin plugin_type) = ''Unknown trigger plugin type: '' @ repr plugin_type @ ''.''"
| "invalid_message (InvalidTriggerConfiguration plugin_type exc) =
     ''Invalid configuration for trigger '' @ repr plugin_type @ '': '' @ exc"

text \<open>\<open>str(exc)\<close> of the application errors; the handlers are given no other exception.\<close>

fun message :: "exn \<Rightarrow> string" where
  "message (InvalidWorkflowDefinitionError reason) = invalid_message reason"
| "message (WorkflowDefinitionNotFoundError i) = ''Workflow definition '' @ uuid_str i @ '' does not exist.''"
| "message (WorkflowDefinitionDisabledError i) = ''Workflow definition '' @ uuid_str i @ '' is disabled.''"
| "message (WorkflowExecutionNotFoundError i) = ''Workflow execution '' @ uuid_str i @ '' does not exist.''"
| "message _ = []"

section \<open>Schemas\<close>

record create_task_request =
  rt_plugin_type :: string
  rt_key :: string
  rt_configuration :: json_object
  rt_dependencies :: "string list"
  rt_max_tries :: int

record create_trigger_request =
  rg_plugin_type :: string
  rg_configuration :: json_object
  rg_enabled :: bool

record create_workflow_request =
  rw_name :: string
  rw_description :: string
  rw_tasks :: "create_task_request list"
  rw_triggers :: "create_trigger_request list"
  rw_enabled :: bool

definition to_application_model :: "create_workflow_request \<Rightarrow> create_workflow_definition" where
  "to_application_model self =
     \<lparr>cw_name = rw_name self, cw_description = rw_description self,
      cw_tasks = map (\<lambda>task. \<lparr>ct_plugin_type = rt_plugin_type task, ct_key = rt_key task,
         ct_configuration = rt_configuration task, ct_dependencies = rt_dependencies task,
         ct_max_tries = rt_max_tries task\<rparr>) (rw_tasks self),
      cw_triggers = map (\<lambda>trigger. \<lparr>cg_plugin_type = rg_plugin_type trigger,
         cg_configuration = rg_configuration trigger, cg_enabled = rg_enabled trigger\<rparr>) (rw_triggers self),
      cw_enabled = rw_enabled self\<rparr>"

record task_execution_response =
  rte_id :: uuid
  rte_task_definition_id :: uuid
  rte_key :: string
  rte_plugin_type :: string
  rte_status :: string
  rte_output :: "json_object option"
  rte_error_message :: "string option"
  rte_started_at :: "datetime option"
  rte_completed_at :: "datetime option"

record workflow_execution_response =
  rwe_id :: uuid
  rwe_workflow_definition_id :: uuid
  rwe_status :: string
  rwe_task_executions :: "task_execution_response list"
  rwe_created_at :: datetime
  rwe_started_at :: "datetime option"
  rwe_completed_at :: "datetime option"

text \<open>\<open>status.name\<close>.\<close>

fun task_status_name :: "task_status \<Rightarrow> string" where
  "task_status_name Pending = ''PENDING''"
| "task_status_name Running = ''RUNNING''"
| "task_status_name Completed = ''COMPLETED''"
| "task_status_name Failed = ''FAILED''"
| "task_status_name Cancelled = ''CANCELLED''"

fun workflow_status_name :: "workflow_status \<Rightarrow> string" where
  "workflow_status_name WfRunning = ''RUNNING''"
| "workflow_status_name WfCompleted = ''COMPLETED''"
| "workflow_status_name WfFailed = ''FAILED''"
| "workflow_status_name WfCancelled = ''CANCELLED''"

definition task_response :: "task_execution \<Rightarrow> task_execution_response" where
  "task_response task_execution =
     \<lparr>rte_id = te_id task_execution, rte_task_definition_id = te_task_definition_id task_execution,
      rte_key = te_key task_execution, rte_plugin_type = te_plugin_type task_execution,
      rte_status = task_status_name (te_status task_execution),
      rte_output = map_option output_values (te_output task_execution),
      rte_error_message = te_error_message task_execution,
      rte_started_at = te_started_at task_execution, rte_completed_at = te_completed_at task_execution\<rparr>"

definition execution_response :: "workflow_execution \<Rightarrow> workflow_execution_response" where
  "execution_response workflow_execution =
     \<lparr>rwe_id = we_id workflow_execution,
      rwe_workflow_definition_id = we_workflow_definition_id workflow_execution,
      rwe_status = workflow_status_name (we_status workflow_execution),
      rwe_task_executions = map task_response (we_task_executions workflow_execution),
      rwe_created_at = we_created_at workflow_execution,
      rwe_started_at = we_started_at workflow_execution,
      rwe_completed_at = we_completed_at workflow_execution\<rparr>"

section \<open>Exception handlers\<close>

datatype response_body =
    CreateWorkflowDefinitionResponse uuid
  | StartWorkflowResponse uuid
  | GetWorkflowExecutionResponse workflow_execution_response
  | ErrorContent string string
  | HealthContent string

record http_response =
  status_code :: int
  response_content :: response_body

type_synonym handler = "exn \<Rightarrow> http_response"

definition handle_invalid_workflow_definition :: handler where
  "handle_invalid_workflow_definition exc =
     \<lparr>status_code = 400, response_content = ErrorContent ''invalid_workflow_definition'' (message exc)\<rparr>"

definition handle_workflow_definition_not_found :: handler where
  "handle_workflow_definition_not_found exc =
     \<lparr>status_code = 404, response_content = ErrorContent ''workflow_definition_not_found'' (message exc)\<rparr>"

definition handle_workflow_definition_disabled :: handler where
  "handle_workflow_definition_disabled exc =
     \<lparr>status_code = 409, response_content = ErrorContent ''workflow_definition_disabled'' (message exc)\<rparr>"

definition handle_workflow_execution_not_found :: handler where
  "handle_workflow_execution_not_found exc =
     \<lparr>status_code = 404, response_content = ErrorContent ''workflow_execution_not_found'' (message exc)\<rparr>"

definition handle_application_error :: handler where
  "handle_application_error exc =
     \<lparr>status_code = 500, response_content = ErrorContent ''application_error'' (message exc)\<rparr>"

lemmas handler_defs =
  handle_invalid_workflow_definition_def handle_workflow_definition_not_found_def
  handle_workflow_definition_disabled_def handle_workflow_execution_not_found_def
  handle_application_error_def

text \<open>The class of an exception and its base classes, nearest first.\<close>

datatype exception_class =
    ApplicationErrorClass
  | InvalidWorkflowDefinitionClass
  | WorkflowDefinitionNotFoundClass
  | WorkflowExecutionNotFoundClass
  | WorkflowDefinitionDisabledClass
  | OtherClass

fun class_of :: "exn \<Rightarrow> exception_class" where
  "class_of (InvalidWorkflowDefinitionError reason) = InvalidWorkflowDefinitionClass"
| "class_of (WorkflowDefinitionNotFoundError i) = WorkflowDefinitionNotFoundClass"
| "class_of (WorkflowDefinitionDisabledError i) = WorkflowDefinitionDisabledClass"
| "class_of (WorkflowExecutionNotFoundError i) = WorkflowExecutionNotFoundClass"
| "class_of _ = OtherClass"

fun class_mro :: "exception_class \<Rightarrow> exception_class list" where
  "class_mro OtherClass = [OtherClass]"
| "class_mro ApplicationErrorClass = [ApplicationErrorClass]"
| "class_mro c = [c, ApplicationErrorClass]"

section \<open>The application\<close>

datatype http_method = GET | POST

record route =
  route_method :: http_method
  route_path :: string
  route_status_code :: int

definition create_route :: route where
  "create_route = \<lparr>route_method = POST, route_path = ''/workflow-definitions'', route_status_code = 201\<rparr>"

definition start_route :: route where
  "start_route = \<lparr>route_method = POST,
     route_path = ''/workflow-definitions/{workflow_definition_id}/start'', route_status_code = 201\<rparr>"

definition get_route :: route where
  "get_route = \<lparr>route_method = GET,
     route_path = ''/workflow-executions/{workflow_execution_id}'', route_status_code = 200\<rparr>"

definition health_route :: route where
  "health_route = \<lparr>route_method = GET, route_path = ''/health'', route_status_code = 200\<rparr>"

record app =
  app_title :: string
  app_version :: string
  app_routes :: "route list"
  app_exception_handlers :: "(exception_class \<times> handler) list"

definition include_router :: "route list \<Rightarrow> app \<Rightarrow> app" where
  "include_router routes a = a\<lparr>app_routes := app_routes a @ routes\<rparr>"

definition add_exception_handler :: "exception_class \<Rightarrow> handler \<Rightarrow> app \<Rightarrow> app" where
  "add_exception_handler c h a =
     a\<lparr>app_exception_handlers := AList.update c h (app_exception_handlers a)\<rparr>"

definition create_app :: app where
  "create_app =
     (let app0 = \<lparr>app_title = ''Automation Platform API'', app_version = ''0.1.0'', app_routes = [],
                  app_exception_handlers = []\<rparr>;
          app1 = include_router [create_route, start_route, get_route] app0;
          app2 = include_router [health_route] app1;
          app3 = add_exception_handler InvalidWorkflowDefinitionClass handle_invalid_workflow_definition app2;
          app4 = add_exception_handler WorkflowDefinitionNotFoundClass handle_workflow_definition_not_found app3;
          app5 = add_exception_handler WorkflowDefinitionDisabledClass handle_workflow_definition_disabled app4;
          app6 = add_exception_handler WorkflowExecutionNotFoundClass handle_workflow_execution_not_found app5
      in add_exception_handler ApplicationErrorClass handle_application_error app6)"

text \<open>
  \<open>dispatch\<close> is the framework's choice of a handler; \<open>None\<close> means no registered handler, and the
  server answers \<open>500 Internal Server Error\<close> by itself.
\<close>

type_synonym dispatcher = "(exception_class \<times> handler) list \<Rightarrow> exn \<Rightarrow> http_response option"

fun nearest_handler :: "(exception_class \<times> handler) list \<Rightarrow> exception_class list \<Rightarrow> handler option" where
  "nearest_handler handlers [] = None"
| "nearest_handler handlers (c # cs) =
     (case map_of handlers c of None \<Rightarrow> nearest_handler handlers cs | Some h \<Rightarrow> Some h)"

definition dispatches_by_class :: "dispatcher \<Rightarrow> bool" where
  "dispatches_by_class dispatch \<longleftrightarrow>
     (\<forall>handlers e. dispatch handlers e =
        map_option (\<lambda>h. h e) (nearest_handler handlers (class_mro (class_of e))))"

definition respond :: "dispatcher \<Rightarrow> route \<Rightarrow> ('s, response_body) op \<Rightarrow> 's \<Rightarrow> 's \<times> http_response option" where
  "respond dispatch r endpoint s =
     (case endpoint s of
        (s', Inl e) \<Rightarrow> (s', dispatch (app_exception_handlers create_app) e)
      | (s', Inr content) \<Rightarrow> (s', Some \<lparr>status_code = route_status_code r, response_content = content\<rparr>))"

section \<open>The endpoints\<close>

definition post_workflow_definition ::
  "dispatcher \<Rightarrow> (string \<times> task_plugin) list \<Rightarrow> (string \<times> trigger_plugin) list \<Rightarrow> (nat \<Rightarrow> uuid)
   \<Rightarrow> (nat \<Rightarrow> datetime) \<Rightarrow> create_workflow_request \<Rightarrow> database \<Rightarrow> database \<times> http_response option" where
  "post_workflow_definition dispatch task_reg trigger_reg fresh clock request =
     respond dispatch create_route
       (andThen (create_definition task_reg trigger_reg fresh clock (to_application_model request))
          (\<lambda>workflow_definition_id. ret (CreateWorkflowDefinitionResponse workflow_definition_id)))"

definition post_start ::
  "dispatcher \<Rightarrow> (nat \<Rightarrow> uuid) \<Rightarrow> datetime \<Rightarrow> datetime \<Rightarrow> uuid \<Rightarrow> platform \<Rightarrow> platform \<times> http_response option" where
  "post_start dispatch fresh now enqueued_at workflow_definition_id =
     respond dispatch start_route
       (andThen (start_workflow fresh now enqueued_at workflow_definition_id)
          (\<lambda>workflow_execution_id. ret (StartWorkflowResponse workflow_execution_id)))"

definition get_execution :: "dispatcher \<Rightarrow> uuid \<Rightarrow> database \<Rightarrow> database \<times> http_response option" where
  "get_execution dispatch workflow_execution_id =
     respond dispatch get_route
       (andThen (get_workflow_execution workflow_execution_id)
          (\<lambda>workflow_execution. ret (GetWorkflowExecutionResponse (execution_response workflow_execution))))"

definition health :: "dispatcher \<Rightarrow> 's \<Rightarrow> 's \<times> http_response option" where
  "health dispatch = respond dispatch health_route (ret (HealthContent ''ok''))"

end
