(* ===== verification/Api_Properties.thy ===== *)
theory Api_Properties
  imports Api
begin

text \<open>
  What a client of the HTTP interface sees: the answers to creating a definition, to starting a
  workflow and to reading an execution, error answers included.
\<close>

definition error_response :: "int \<Rightarrow> string \<Rightarrow> exn \<Rightarrow> http_response" where
  "error_response code err e = \<lparr>status_code = code, response_content = ErrorContent err (message e)\<rparr>"

lemma create_app_handlers:
  "app_exception_handlers create_app =
     [(InvalidWorkflowDefinitionClass, handle_invalid_workflow_definition),
      (WorkflowDefinitionNotFoundClass, handle_workflow_definition_not_found),
      (WorkflowDefinitionDisabledClass, handle_workflow_definition_disabled),
      (WorkflowExecutionNotFoundClass, handle_workflow_execution_not_found),
      (ApplicationErrorClass, handle_application_error)]"
  by (simp add: create_app_def add_exception_handler_def include_router_def Let_def)

text \<open>Each application error has its answer; every other exception has none.\<close>

lemma dispatched:
  assumes "dispatches_by_class dispatch"
  shows "dispatch (app_exception_handlers create_app) e =
     (case e of
        InvalidWorkflowDefinitionError reason \<Rightarrow> Some (error_response 400 ''invalid_workflow_definition'' e)
      | WorkflowDefinitionNotFoundError i \<Rightarrow> Some (error_response 404 ''workflow_definition_not_found'' e)
      | WorkflowDefinitionDisabledError i \<Rightarrow> Some (error_response 409 ''workflow_definition_disabled'' e)
      | WorkflowExecutionNotFoundError i \<Rightarrow> Some (error_response 404 ''workflow_execution_not_found'' e)
      | _ \<Rightarrow> None)"
  using assms
  by (cases e) (simp_all add: dispatches_by_class_def create_app_handlers error_response_def handler_defs)

text \<open>A dispatcher that keeps the documented promise.\<close>

definition mro_dispatch :: dispatcher where
  "mro_dispatch handlers e = map_option (\<lambda>h. h e) (nearest_handler handlers (class_mro (class_of e)))"

lemma mro_dispatch_ok: "dispatches_by_class mro_dispatch"
  by (simp add: dispatches_by_class_def mro_dispatch_def)

section \<open>Creating a definition\<close>

lemma create_definition_outcome:
  assumes "create_definition task_reg trigger_reg fresh clock request db = (db', r)"
  shows "case new_workflow_definition task_reg trigger_reg fresh request of
       Inl e \<Rightarrow> db' = db \<and> r = Inl e
     | Inr (wd, resolved) \<Rightarrow> r = Inr (wd_id wd) \<or> (\<exists>e. r = Inl e \<and> db' = db
         \<and> (snd (save_definition wd db) = Inl e
            \<or> snd (initialize_triggers clock resolved (fst (save_definition wd db))) = Inl e))"
  using assms
  by (auto simp: create_definition_def raise_def with_uow_def andThen_def in_uow_def uow_commit_def ret_def
      split: sum.splits prod.splits)

lemma respond_split:
  "respond dispatch r endpoint s =
     (fst (endpoint s), case snd (endpoint s) of
        Inl e \<Rightarrow> dispatch (app_exception_handlers create_app) e
      | Inr content \<Rightarrow> Some \<lparr>status_code = route_status_code r, response_content = content\<rparr>)"
  by (simp add: respond_def split: prod.splits sum.splits)

lemma error_not_201:
  "dispatches_by_class dispatch \<Longrightarrow>
   dispatch (app_exception_handlers create_app) e \<noteq> Some \<lparr>status_code = 201, response_content = content\<rparr>"
  by (cases e) (simp_all add: dispatched error_response_def)

text \<open>
  Answers to creating a definition. A request that validation refuses is answered \<open>400\<close> with
  the reason and stores nothing. An accepted one is answered \<open>201\<close> with the identifier under which
  exactly the requested definition is stored, or (when a statement of the transaction or the
  initialisation of a trigger raises) it gets another answer and stores nothing.
\<close>

lemma post_definition_answers:
  assumes "dispatches_by_class dispatch" "rejects_only task_reg" "rejects_only trigger_reg"
    "definitions_inv db"
    "unused_definition_ids fresh (length (rw_tasks request)) (length (rw_triggers request)) db"
    "\<forall>t \<in> set (rw_tasks request). int4 (rt_max_tries t)"
    "post_workflow_definition dispatch task_reg trigger_reg fresh clock request db = (db', response)"
  shows "case new_workflow_definition task_reg trigger_reg fresh (to_application_model request) of
       Inl e \<Rightarrow> \<exists>reason. e = InvalidWorkflowDefinitionError reason \<and> db' = db
         \<and> response = Some \<lparr>status_code = 400,
             response_content = ErrorContent ''invalid_workflow_definition'' (invalid_message reason)\<rparr>
     | Inr (wd, resolved) \<Rightarrow>
         response = Some \<lparr>status_code = 201, response_content = CreateWorkflowDefinitionResponse (wd_id wd)\<rparr>
           \<and> load_definition (wd_id wd) db' = (db', Inr (Some wd))
         \<or> (\<forall>content. response \<noteq> Some \<lparr>status_code = 201, response_content = content\<rparr>) \<and> db' = db"
proof -
  let ?model = "to_application_model request"
  obtain db1 r where run: "create_definition task_reg trigger_reg fresh clock ?model db = (db1, r)" by force
  have answer: "db' = db1" "response = (case r of
        Inl e \<Rightarrow> dispatch (app_exception_handlers create_app) e
      | Inr wid \<Rightarrow> Some \<lparr>status_code = 201, response_content = CreateWorkflowDefinitionResponse wid\<rparr>)"
    using assms(7) run
    by (auto simp: post_workflow_definition_def respond_split andThen_def ret_def create_route_def split: sum.splits)
  show ?thesis
  proof (cases "new_workflow_definition task_reg trigger_reg fresh ?model")
    case (Inl e)
    then obtain reason where "e = InvalidWorkflowDefinitionError reason"
      using rejection_error [OF assms(2,3) Inl] by blast
    moreover have "db1 = db" "r = Inl e" using create_definition_outcome [OF run] Inl by simp_all
    ultimately show ?thesis
      using Inl answer dispatched [OF assms(1), of e] by (simp add: error_response_def)
  next
    case (Inr p)
    obtain wd resolved where p: "p = (wd, resolved)" by force
    show ?thesis
    proof (cases r)
      case (Inl e)
      then have "db1 = db" using run create_definition_atomic by simp
      then show ?thesis using Inr p answer Inl error_not_201 [OF assms(1)] by simp
    next
      case (Inr wid)
      have model: "length (cw_tasks ?model) = length (rw_tasks request)"
        "length (cw_triggers ?model) = length (rw_triggers request)"
        "\<forall>t \<in> set (cw_tasks ?model). int4 (ct_max_tries t)"
        using assms(6) by (simp_all add: to_application_model_def)
      have "wid = wd_id wd \<and> load_definition wid db1 = (db1, Inr (Some wd))"
        by (rule created_definition_loaded [OF assms(4) _ model(3) run [unfolded Inr]])
          (use assms(5) model \<open>new_workflow_definition task_reg trigger_reg fresh ?model = Inr p\<close> p in simp_all)
      then have wid: "wid = wd_id wd" and load: "load_definition (wd_id wd) db1 = (db1, Inr (Some wd))" by metis+
      show ?thesis
        unfolding \<open>new_workflow_definition task_reg trigger_reg fresh ?model = Inr p\<close> p answer Inr wid
        using load by (simp only: sum.case prod.case simp_thms)
    qed
  qed
qed

definition walk_http_request :: create_workflow_request where
  "walk_http_request = \<lparr>rw_name = ''report'', rw_description = ''two tasks'',
     rw_tasks =
       [\<lparr>rt_plugin_type = ''produce_value'', rt_key = ''extract'',
          rt_configuration = [(''value'', JInt 7)], rt_dependencies = [], rt_max_tries = 2\<rparr>,
        \<lparr>rt_plugin_type = ''collect_inputs'', rt_key = ''load'', rt_configuration = [],
          rt_dependencies = [''extract''], rt_max_tries = 1\<rparr>],
     rw_triggers = [\<lparr>rg_plugin_type = ''interval'', rg_configuration = [(''interval_seconds'', JInt 60)],
          rg_enabled = True\<rparr>],
     rw_enabled = True\<rparr>"

lemma walk_http_model: "to_application_model walk_http_request = walk_request"
  by (simp add: to_application_model_def walk_http_request_def walk_request_def)

lemma walk_post:
  "post_workflow_definition mro_dispatch walk_tasks walk_triggers Uuid (\<lambda>_. 0) walk_http_request empty_database =
     (walk_definitions, Some \<lparr>status_code = 201, response_content = CreateWorkflowDefinitionResponse (Uuid 3)\<rparr>)"
  by (simp add: post_workflow_definition_def respond_def andThen_def ret_def walk_http_model walk_create create_route_def)

section \<open>Starting a workflow\<close>

definition new_task_response :: "(nat \<Rightarrow> uuid) \<Rightarrow> task_definition list \<Rightarrow> nat \<Rightarrow> task_execution_response" where
  "new_task_response fresh tds i =
     \<lparr>rte_id = fresh (Suc i), rte_task_definition_id = td_id (tds ! i), rte_key = td_key (tds ! i),
      rte_plugin_type = td_plugin_type (tds ! i), rte_status = ''PENDING'', rte_output = None,
      rte_error_message = None, rte_started_at = None, rte_completed_at = None\<rparr>"

lemma compiled_response:
  assumes "definition_ok (wd_task_definitions wd)"
  shows "execution_response (compiled_execution fresh now wd) =
     \<lparr>rwe_id = fresh 0, rwe_workflow_definition_id = wd_id wd, rwe_status = ''RUNNING'',
      rwe_task_executions = map (new_task_response fresh (wd_task_definitions wd)) [0..<length (wd_task_definitions wd)],
      rwe_created_at = now, rwe_started_at = None, rwe_completed_at = None\<rparr>"
proof -
  let ?tds = "wd_task_definitions wd"
  have d: "distinct (map td_id ?tds)" using assms by (simp add: definition_ok_def)
  have "map task_response (map (execution_of (\<lambda>i. fresh (Suc i)) (fresh 0) ?tds) ?tds)
      = map (new_task_response fresh ?tds) [0..<length ?tds]"
    by (rule nth_equalityI)
      (simp_all add: task_response_def execution_of_def new_task_response_def exec_id_at [OF d])
  then show ?thesis by (simp add: execution_response_def compiled_execution_def)
qed

text \<open>
  C34. Answers to starting a workflow. An unknown definition is answered \<open>404\<close>, a disabled one \<open>409\<close>,
  both with a message that names it, and nothing changes. An enabled one is answered \<open>201\<close> with
  the identifier of a new execution; reading that execution is then answered \<open>200\<close>: it is \<open>RUNNING\<close>
  and has one pending task per task definition, in their order.
\<close>

theorem post_start_answers:
  assumes "dispatches_by_class dispatch" "definitions_inv db" "exec_inv db"
    "load_definition wid db = (db, Inr found)"
    "\<forall>wd. found = Some wd \<longrightarrow> unused_ids fresh (length (wd_task_definitions wd)) db
        \<and> length (wd_task_definitions wd) < 2 ^ 31"
  shows "case found of
       None \<Rightarrow> post_start dispatch fresh now at wid (db, q) = ((db, q), Some \<lparr>status_code = 404,
          response_content = ErrorContent ''workflow_definition_not_found''
            (''Workflow definition '' @ uuid_str wid @ '' does not exist.'')\<rparr>)
     | Some wd \<Rightarrow>
         if \<not> wd_enabled wd
         then post_start dispatch fresh now at wid (db, q) = ((db, q), Some \<lparr>status_code = 409,
            response_content = ErrorContent ''workflow_definition_disabled''
              (''Workflow definition '' @ uuid_str wid @ '' is disabled.'')\<rparr>)
         else \<exists>db' q'. post_start dispatch fresh now at wid (db, q) =
                ((db', q'), Some \<lparr>status_code = 201, response_content = StartWorkflowResponse (fresh 0)\<rparr>)
           \<and> get_execution dispatch (fresh 0) db' = (db', Some \<lparr>status_code = 200,
                response_content = GetWorkflowExecutionResponse
                  \<lparr>rwe_id = fresh 0, rwe_workflow_definition_id = wid, rwe_status = ''RUNNING'',
                   rwe_task_executions = map (new_task_response fresh (wd_task_definitions wd))
                     [0..<length (wd_task_definitions wd)],
                   rwe_created_at = now, rwe_started_at = None, rwe_completed_at = None\<rparr>\<rparr>)"
proof (cases found)
  case None
  then show ?thesis
    using start_workflow_rejected(1) [OF assms(4) [unfolded None]] dispatched [OF assms(1)]
    by (simp add: post_start_def respond_def andThen_def error_response_def)
next
  case (Some wd)
  note load = assms(4) [unfolded Some]
  show ?thesis
  proof (cases "wd_enabled wd")
    case False
    then show ?thesis
      using start_workflow_rejected(2) [OF load False] dispatched [OF assms(1)] Some
      by (simp add: post_start_def respond_def andThen_def error_response_def)
  next
    case True
    have ids: "unused_ids fresh (length (wd_task_definitions wd)) db" "length (wd_task_definitions wd) < 2 ^ 31"
      using assms(5) Some by simp_all
    obtain db' q' where stored: "start_workflow fresh now at wid (db, q) = ((db', q'), Inr (fresh 0))"
      "get_workflow_execution (fresh 0) db' = (db', Inr (compiled_execution fresh now wd))"
      by (rule started_execution_stored [OF assms(2,3) load True ids])
    have "post_start dispatch fresh now at wid (db, q) =
        ((db', q'), Some \<lparr>status_code = 201, response_content = StartWorkflowResponse (fresh 0)\<rparr>)"
      by (simp add: post_start_def respond_def andThen_def ret_def stored start_route_def)
    moreover have "get_execution dispatch (fresh 0) db' = (db', Some \<lparr>status_code = 200,
        response_content = GetWorkflowExecutionResponse (execution_response (compiled_execution fresh now wd))\<rparr>)"
      by (simp add: get_execution_def respond_def andThen_def ret_def stored get_route_def)
    ultimately show ?thesis
      using Some True compiled_response [OF load_definition_ok(1) [OF assms(2) load], of fresh now]
        load_definition_SomeD(2) [OF load] by simp
  qed
qed

theorem post_start_answers_witness:
  "case Some walk_definition of
       None \<Rightarrow> post_start mro_dispatch (\<lambda>i. Uuid (10 + i)) 5 6 (Uuid 3) (walk_definitions, []) =
         ((walk_definitions, []), Some \<lparr>status_code = 404,
          response_content = ErrorContent ''workflow_definition_not_found''
            (''Workflow definition '' @ uuid_str (Uuid 3) @ '' does not exist.'')\<rparr>)
     | Some wd \<Rightarrow>
         if \<not> wd_enabled wd
         then post_start mro_dispatch (\<lambda>i. Uuid (10 + i)) 5 6 (Uuid 3) (walk_definitions, []) =
            ((walk_definitions, []), Some \<lparr>status_code = 409,
            response_content = ErrorContent ''workflow_definition_disabled''
              (''Workflow definition '' @ uuid_str (Uuid 3) @ '' is disabled.'')\<rparr>)
         else \<exists>db' q'. post_start mro_dispatch (\<lambda>i. Uuid (10 + i)) 5 6 (Uuid 3) (walk_definitions, []) =
                ((db', q'), Some \<lparr>status_code = 201, response_content = StartWorkflowResponse (Uuid (10 + 0))\<rparr>)
           \<and> get_execution mro_dispatch (Uuid (10 + 0)) db' = (db', Some \<lparr>status_code = 200,
                response_content = GetWorkflowExecutionResponse
                  \<lparr>rwe_id = Uuid (10 + 0), rwe_workflow_definition_id = Uuid 3, rwe_status = ''RUNNING'',
                   rwe_task_executions = map (new_task_response (\<lambda>i. Uuid (10 + i)) (wd_task_definitions wd))
                     [0..<length (wd_task_definitions wd)],
                   rwe_created_at = 5, rwe_started_at = None, rwe_completed_at = None\<rparr>\<rparr>)"
  by (rule post_start_answers [OF mro_dispatch_ok walk_definitions_inv walk_definitions_exec_inv walk_load])
    (use walk_unused_execution in simp)

section \<open>Reading an execution\<close>

text \<open>
  Answers to reading an execution. Reading never changes the database. A stored execution is
  answered \<open>200\<close> with its identifier, the name of its status, and its tasks in stored order, each
  with the name of its status and its stored output, error message and times; an unknown one \<open>404\<close>.
\<close>

lemma get_execution_answers:
  assumes "dispatches_by_class dispatch"
  shows "get_execution dispatch wid db =
     (db, case find (\<lambda>w. w_id w = wid) (workflow_executions db) of
        None \<Rightarrow> Some \<lparr>status_code = 404, response_content = ErrorContent ''workflow_execution_not_found''
            (''Workflow execution '' @ uuid_str wid @ '' does not exist.'')\<rparr>
      | Some w \<Rightarrow> Some \<lparr>status_code = 200, response_content = GetWorkflowExecutionResponse
          \<lparr>rwe_id = wid, rwe_workflow_definition_id = w_workflow_definition_id w,
           rwe_status = workflow_status_name (w_status w),
           rwe_task_executions = map (\<lambda>t. \<lparr>rte_id = t_id t, rte_task_definition_id = t_task_definition_id t,
               rte_key = t_key t, rte_plugin_type = t_plugin_type t, rte_status = task_status_name (t_status t),
               rte_output = t_output t, rte_error_message = t_error_message t,
               rte_started_at = t_started_at t, rte_completed_at = t_completed_at t\<rparr>)
             (filter (\<lambda>t. t_workflow_execution_id t = wid) (task_executions db)),
           rwe_created_at = w_created_at w, rwe_started_at = w_started_at w,
           rwe_completed_at = w_completed_at w\<rparr>\<rparr>)"
proof -
  have lookup: "lookup_row w_id wid (workflow_executions db) = find (\<lambda>w. w_id w = wid) (workflow_executions db)"
    by (simp add: lookup_row_def)
  show ?thesis
  proof (cases "find (\<lambda>w. w_id w = wid) (workflow_executions db)")
    case None
    then show ?thesis
      using dispatched [OF assms]
      by (simp add: get_execution_def respond_def andThen_def get_workflow_execution_eq lookup error_response_def)
  next
    case (Some w)
    then have "w_id w = wid" by (auto simp: find_Some_iff)
    moreover have "task_response (task_to_domain t) = \<lparr>rte_id = t_id t, rte_task_definition_id = t_task_definition_id t,
               rte_key = t_key t, rte_plugin_type = t_plugin_type t, rte_status = task_status_name (t_status t),
               rte_output = t_output t, rte_error_message = t_error_message t,
               rte_started_at = t_started_at t, rte_completed_at = t_completed_at t\<rparr>" for t
      by (cases "t_output t") (simp_all add: task_response_def task_to_domain_def output_to_domain_def)
    ultimately show ?thesis
      using Some
      by (simp add: get_execution_def respond_def andThen_def ret_def get_workflow_execution_eq lookup
          get_route_def execution_response_def workflow_to_domain_def tasks_of_def comp_def)
  qed
qed

end
