(* ===== verification/Request_Bodies.thy ===== *)
theory Request_Bodies
  imports Api_Properties
begin

text \<open>
  From the request to the typed arguments of an endpoint: the request models of
  \<open>runtime/api/schemas\<close> as pydantic reads them, member by member, and the path parameters. How
  pydantic reads a string, an integer, a boolean or an identifier is a parameter with the documented
  law \<open>reads_json\<close>; that objects are read by the declared members, that a member with a default may
  be missing and that others are ignored is the documented meaning of a model class.
\<close>

section \<open>Reading a body\<close>

record pydantic =
  pd_str :: "json \<Rightarrow> string option"
  pd_int :: "json \<Rightarrow> int option"
  pd_bool :: "json \<Rightarrow> bool option"
  pd_uuid :: "string \<Rightarrow> uuid option"

text \<open>Values of the right JSON type are read as they are.\<close>

definition reads_json :: "pydantic \<Rightarrow> bool" where
  "reads_json pd \<longleftrightarrow>
     (\<forall>s. pd_str pd (JStr s) = Some s) \<and> (\<forall>n. pd_int pd (JInt n) = Some n)
     \<and> (\<forall>b. pd_bool pd (JBool b) = Some b)"

fun read_dict :: "json \<Rightarrow> json_object option" where
  "read_dict (JObj obj) = Some obj"
| "read_dict _ = None"

fun read_list :: "(json \<Rightarrow> 'a option) \<Rightarrow> json \<Rightarrow> 'a list option" where
  "read_list p (JList vs) = those (map p vs)"
| "read_list p _ = None"

definition required :: "string \<Rightarrow> (json \<Rightarrow> 'a option) \<Rightarrow> json_object \<Rightarrow> 'a option" where
  "required name p obj = (case map_of obj name of None \<Rightarrow> None | Some v \<Rightarrow> p v)"

definition with_default :: "string \<Rightarrow> (json \<Rightarrow> 'a option) \<Rightarrow> 'a \<Rightarrow> json_object \<Rightarrow> 'a option" where
  "with_default name p x obj = (case map_of obj name of None \<Rightarrow> Some x | Some v \<Rightarrow> p v)"

definition create_task_body :: "pydantic \<Rightarrow> json \<Rightarrow> create_task_request option" where
  "create_task_body pd body =
     Option.bind (read_dict body) (\<lambda>obj.
     Option.bind (required ''plugin_type'' (pd_str pd) obj) (\<lambda>plugin_type.
     Option.bind (required ''key'' (pd_str pd) obj) (\<lambda>key.
     Option.bind (with_default ''configuration'' read_dict [] obj) (\<lambda>configuration.
     Option.bind (with_default ''dependencies'' (read_list (pd_str pd)) [] obj) (\<lambda>dependencies.
     Option.bind (required ''max_tries'' (pd_int pd) obj) (\<lambda>max_tries.
     Some \<lparr>rt_plugin_type = plugin_type, rt_key = key, rt_configuration = configuration,
           rt_dependencies = dependencies, rt_max_tries = max_tries\<rparr>))))))"

definition create_trigger_body :: "pydantic \<Rightarrow> json \<Rightarrow> create_trigger_request option" where
  "create_trigger_body pd body =
     Option.bind (read_dict body) (\<lambda>obj.
     Option.bind (required ''plugin_type'' (pd_str pd) obj) (\<lambda>plugin_type.
     Option.bind (with_default ''configuration'' read_dict [] obj) (\<lambda>configuration.
     Option.bind (required ''enabled'' (pd_bool pd) obj) (\<lambda>enabled.
     Some \<lparr>rg_plugin_type = plugin_type, rg_configuration = configuration, rg_enabled = enabled\<rparr>))))"

definition create_workflow_body :: "pydantic \<Rightarrow> json \<Rightarrow> create_workflow_request option" where
  "create_workflow_body pd body =
     Option.bind (read_dict body) (\<lambda>obj.
     Option.bind (required ''name'' (pd_str pd) obj) (\<lambda>name.
     Option.bind (required ''description'' (pd_str pd) obj) (\<lambda>description.
     Option.bind (required ''tasks'' (read_list (create_task_body pd)) obj) (\<lambda>tasks.
     Option.bind (required ''triggers'' (read_list (create_trigger_body pd)) obj) (\<lambda>triggers.
     Option.bind (required ''enabled'' (pd_bool pd) obj) (\<lambda>enabled.
     Some \<lparr>rw_name = name, rw_description = description, rw_tasks = tasks, rw_triggers = triggers,
           rw_enabled = enabled\<rparr>))))))"

section \<open>The endpoints from the request on\<close>

text \<open>
  When the arguments cannot be read, FastAPI answers \<open>422\<close> by itself and does not call the endpoint.
\<close>

datatype answer = Unprocessable | Answered "http_response option"

definition with_arguments :: "'a option \<Rightarrow> ('a \<Rightarrow> 's \<Rightarrow> 's \<times> http_response option) \<Rightarrow> 's \<Rightarrow> 's \<times> answer" where
  "with_arguments arguments endpoint s =
     (case arguments of
        None \<Rightarrow> (s, Unprocessable)
      | Some x \<Rightarrow> (case endpoint x s of (s', response) \<Rightarrow> (s', Answered response)))"

definition create_endpoint ::
  "pydantic \<Rightarrow> dispatcher \<Rightarrow> (string \<times> task_plugin) list \<Rightarrow> (string \<times> trigger_plugin) list \<Rightarrow> (nat \<Rightarrow> uuid)
   \<Rightarrow> (nat \<Rightarrow> datetime) \<Rightarrow> json \<Rightarrow> database \<Rightarrow> database \<times> answer" where
  "create_endpoint pd dispatch task_reg trigger_reg fresh clock body =
     with_arguments (create_workflow_body pd body) (post_workflow_definition dispatch task_reg trigger_reg fresh clock)"

definition start_endpoint ::
  "pydantic \<Rightarrow> dispatcher \<Rightarrow> (nat \<Rightarrow> uuid) \<Rightarrow> datetime \<Rightarrow> datetime \<Rightarrow> string \<Rightarrow> platform \<Rightarrow> platform \<times> answer" where
  "start_endpoint pd dispatch fresh now enqueued_at path_parameter =
     with_arguments (pd_uuid pd path_parameter) (post_start dispatch fresh now enqueued_at)"

definition get_endpoint :: "pydantic \<Rightarrow> dispatcher \<Rightarrow> string \<Rightarrow> database \<Rightarrow> database \<times> answer" where
  "get_endpoint pd dispatch path_parameter =
     with_arguments (pd_uuid pd path_parameter) (get_execution dispatch)"

section \<open>Bodies of requests\<close>

definition task_json :: "create_task_request \<Rightarrow> json" where
  "task_json task = JObj
     [(''plugin_type'', JStr (rt_plugin_type task)), (''key'', JStr (rt_key task)),
      (''configuration'', JObj (rt_configuration task)),
      (''dependencies'', JList (map JStr (rt_dependencies task))), (''max_tries'', JInt (rt_max_tries task))]"

definition trigger_json :: "create_trigger_request \<Rightarrow> json" where
  "trigger_json trigger = JObj
     [(''plugin_type'', JStr (rg_plugin_type trigger)), (''configuration'', JObj (rg_configuration trigger)),
      (''enabled'', JBool (rg_enabled trigger))]"

definition request_json :: "create_workflow_request \<Rightarrow> json" where
  "request_json request = JObj
     [(''name'', JStr (rw_name request)), (''description'', JStr (rw_description request)),
      (''tasks'', JList (map task_json (rw_tasks request))),
      (''triggers'', JList (map trigger_json (rw_triggers request))), (''enabled'', JBool (rw_enabled request))]"

lemma those_map_Some: "(\<And>x. x \<in> set xs \<Longrightarrow> p (f x) = Some x) \<Longrightarrow> those (map (p \<circ> f) xs) = Some xs"
  by (induction xs) simp_all

lemmas body_defs = required_def with_default_def create_task_body_def create_trigger_body_def create_workflow_body_def

lemma task_body_json: "reads_json pd \<Longrightarrow> create_task_body pd (task_json task) = Some task"
  by (simp add: body_defs task_json_def reads_json_def those_map_Some)

lemma trigger_body_json: "reads_json pd \<Longrightarrow> create_trigger_body pd (trigger_json trigger) = Some trigger"
  by (simp add: body_defs trigger_json_def reads_json_def)

lemma workflow_body_json: "reads_json pd \<Longrightarrow> create_workflow_body pd (request_json request) = Some request"
  by (simp add: create_workflow_body_def required_def request_json_def those_map_Some task_body_json trigger_body_json)
    (simp add: reads_json_def)

text \<open>Only the declared members count; the two of a task that have defaults may be missing.\<close>

lemma declared_members_decide:
  "\<forall>name \<in> {''name'', ''description'', ''tasks'', ''triggers'', ''enabled''}. map_of obj name = map_of obj' name \<Longrightarrow>
   create_workflow_body pd (JObj obj) = create_workflow_body pd (JObj obj')"
  by (simp add: create_workflow_body_def required_def)

lemma task_defaults:
  "reads_json pd \<Longrightarrow>
   create_task_body pd (JObj [(''plugin_type'', JStr p), (''key'', JStr k), (''max_tries'', JInt n)]) =
     Some \<lparr>rt_plugin_type = p, rt_key = k, rt_configuration = [], rt_dependencies = [], rt_max_tries = n\<rparr>"
  by (simp add: body_defs reads_json_def)

lemma missing_member:
  "name \<in> {''name'', ''description'', ''tasks'', ''triggers'', ''enabled''} \<Longrightarrow> map_of obj name = None \<Longrightarrow>
   create_workflow_body pd (JObj obj) = None"
  by (auto simp: create_workflow_body_def required_def split: option.splits)

section \<open>Answers to a body\<close>

lemma with_arguments_Some:
  "with_arguments (Some x) endpoint s = (s', a) \<longleftrightarrow> (\<exists>response. endpoint x s = (s', response) \<and> a = Answered response)"
  by (auto simp: with_arguments_def split: prod.splits)

lemma with_arguments_None [simp]: "with_arguments None endpoint s = (s, Unprocessable)"
  by (simp add: with_arguments_def)

text \<open>
  C33. Answers to creating a definition. The body that lists the members of a request is read as that
  request. A body that cannot be read is answered \<open>422\<close> and stores nothing. A request that validation
  refuses is answered \<open>400\<close> with the reason and stores nothing. An accepted one is answered \<open>201\<close> with
  the identifier under which exactly the requested definition is stored, or (when a statement of the
  transaction or the initialisation of a trigger raises) it gets another answer and stores nothing.
\<close>

theorem create_endpoint_answers:
  assumes "dispatches_by_class dispatch" "rejects_only task_reg" "rejects_only trigger_reg" "reads_json pd"
    "definitions_inv db"
    "\<forall>request. create_workflow_body pd body = Some request \<longrightarrow>
       unused_definition_ids fresh (length (rw_tasks request)) (length (rw_triggers request)) db
       \<and> (\<forall>t \<in> set (rw_tasks request). int4 (rt_max_tries t))"
    "create_endpoint pd dispatch task_reg trigger_reg fresh clock body db = (db', answer)"
  shows "(\<forall>request. body = request_json request \<longrightarrow> create_workflow_body pd body = Some request)
     \<and> (case create_workflow_body pd body of
          None \<Rightarrow> answer = Unprocessable \<and> db' = db
        | Some request \<Rightarrow>
            (case new_workflow_definition task_reg trigger_reg fresh (to_application_model request) of
               Inl e \<Rightarrow> \<exists>reason. e = InvalidWorkflowDefinitionError reason \<and> db' = db
                 \<and> answer = Answered (Some \<lparr>status_code = 400,
                     response_content = ErrorContent ''invalid_workflow_definition'' (invalid_message reason)\<rparr>)
             | Inr (wd, resolved) \<Rightarrow>
                 answer = Answered (Some \<lparr>status_code = 201, response_content = CreateWorkflowDefinitionResponse (wd_id wd)\<rparr>)
                   \<and> load_definition (wd_id wd) db' = (db', Inr (Some wd))
                 \<or> (\<forall>content. answer \<noteq> Answered (Some \<lparr>status_code = 201, response_content = content\<rparr>)) \<and> db' = db))"
proof (intro conjI allI impI)
  show "create_workflow_body pd body = Some request" if "body = request_json request" for request
    using workflow_body_json [OF assms(4)] that by simp
next
  show "case create_workflow_body pd body of
          None \<Rightarrow> answer = Unprocessable \<and> db' = db
        | Some request \<Rightarrow>
            (case new_workflow_definition task_reg trigger_reg fresh (to_application_model request) of
               Inl e \<Rightarrow> \<exists>reason. e = InvalidWorkflowDefinitionError reason \<and> db' = db
                 \<and> answer = Answered (Some \<lparr>status_code = 400,
                     response_content = ErrorContent ''invalid_workflow_definition'' (invalid_message reason)\<rparr>)
             | Inr (wd, resolved) \<Rightarrow>
                 answer = Answered (Some \<lparr>status_code = 201, response_content = CreateWorkflowDefinitionResponse (wd_id wd)\<rparr>)
                   \<and> load_definition (wd_id wd) db' = (db', Inr (Some wd))
                 \<or> (\<forall>content. answer \<noteq> Answered (Some \<lparr>status_code = 201, response_content = content\<rparr>)) \<and> db' = db)"
  proof (cases "create_workflow_body pd body")
    case None
    then show ?thesis using assms(7) by (simp add: create_endpoint_def)
  next
    case (Some request)
    then obtain response where
      run: "post_workflow_definition dispatch task_reg trigger_reg fresh clock request db = (db', response)"
      and answer: "answer = Answered response"
      using assms(7) by (auto simp: create_endpoint_def with_arguments_Some)
    have ids: "unused_definition_ids fresh (length (rw_tasks request)) (length (rw_triggers request)) db"
      "\<forall>t \<in> set (rw_tasks request). int4 (rt_max_tries t)" using assms(6) Some by blast+
    show ?thesis
      using post_definition_answers [OF assms(1-3,5) ids run] unfolding Some answer option.case answer.inject .
  qed
qed

definition json_reader :: pydantic where
  "json_reader =
     \<lparr>pd_str = (\<lambda>v. case v of JStr s \<Rightarrow> Some s | _ \<Rightarrow> None), pd_int = (\<lambda>v. case v of JInt n \<Rightarrow> Some n | _ \<Rightarrow> None),
      pd_bool = (\<lambda>v. case v of JBool b \<Rightarrow> Some b | _ \<Rightarrow> None), pd_uuid = (\<lambda>s. None)\<rparr>"

lemma json_reader_ok: "reads_json json_reader"
  by (simp add: reads_json_def json_reader_def)

lemma walk_body: "create_workflow_body json_reader (request_json walk_http_request) = Some walk_http_request"
  by (rule workflow_body_json [OF json_reader_ok])

lemma walk_endpoint:
  "create_endpoint json_reader mro_dispatch walk_tasks walk_triggers Uuid (\<lambda>_. 0) (request_json walk_http_request) empty_database =
     (walk_definitions, Answered (Some \<lparr>status_code = 201, response_content = CreateWorkflowDefinitionResponse (Uuid 3)\<rparr>))"
  by (simp add: create_endpoint_def walk_body with_arguments_def walk_post)

theorem create_endpoint_answers_witness:
  "case new_workflow_definition walk_tasks walk_triggers Uuid (to_application_model walk_http_request) of
     Inl e \<Rightarrow> False
   | Inr (wd, resolved) \<Rightarrow> wd_id wd = Uuid 3
       \<and> load_definition (wd_id wd) walk_definitions = (walk_definitions, Inr (Some wd))"
proof -
  have "\<forall>request. create_workflow_body json_reader (request_json walk_http_request) = Some request \<longrightarrow>
       unused_definition_ids Uuid (length (rw_tasks request)) (length (rw_triggers request)) empty_database
       \<and> (\<forall>t \<in> set (rw_tasks request). int4 (rt_max_tries t))"
    unfolding walk_body using walk_unused by (simp add: walk_http_request_def int4_def numeral_2_eq_2)
  from create_endpoint_answers [OF mro_dispatch_ok walk_rejects_only json_reader_ok definitions_inv_empty this walk_endpoint]
  show ?thesis by (auto simp: walk_body split: sum.splits)
qed

section \<open>Path parameters\<close>

text \<open>The identifier in a path is read back from its textual form; other text is answered \<open>422\<close>.\<close>

definition reads_uuid :: "pydantic \<Rightarrow> bool" where
  "reads_uuid pd \<longleftrightarrow> (\<forall>u. uuid_value u < 2 ^ 128 \<longrightarrow> pd_uuid pd (uuid_str u) = Some u)"

lemma path_of_uuid:
  assumes "reads_uuid pd" "uuid_value u < 2 ^ 128"
  shows "start_endpoint pd dispatch fresh now at (uuid_str u) p =
      (case post_start dispatch fresh now at u p of (p', response) \<Rightarrow> (p', Answered response))"
    and "get_endpoint pd dispatch (uuid_str u) db =
      (case get_execution dispatch u db of (db', response) \<Rightarrow> (db', Answered response))"
  using assms by (simp_all add: start_endpoint_def get_endpoint_def with_arguments_def reads_uuid_def)

end
