(* ===== verification/Config.thy ===== *)
theory Config
  imports Python_Numbers
begin

text \<open>
  Configuration (\<open>config/loader.py\<close>, \<open>config/settings.py\<close>): the settings a process reads from its
  environment variables, and the log level (\<open>observability/logging.py\<close>).
\<close>

section \<open>Settings\<close>

record settings =
  set_database_url :: string
  set_echo_sql :: bool
  set_queue_type :: string
  set_queue_lease_timeout :: timedelta
  set_worker_poll_interval :: timedelta
  set_worker_heartbeat_interval :: timedelta
  set_scheduler_poll_interval :: timedelta
  set_reconciliation_interval :: timedelta
  set_api_host :: string
  set_api_port :: int
  set_log_level :: string

text \<open>The environment variables; \<open>os.getenv\<close> is application.\<close>

type_synonym environment = "string \<Rightarrow> string option"

definition getenv_default :: "environment \<Rightarrow> string \<Rightarrow> string \<Rightarrow> string" where
  "getenv_default env name fallback = (case env name of None \<Rightarrow> fallback | Some value \<Rightarrow> value)"

definition get_required :: "environment \<Rightarrow> string \<Rightarrow> string result" where
  "get_required env name =
     (case env name of
        None \<Rightarrow> Inl ValueError
      | Some value \<Rightarrow> if strip value = [] then Inl ValueError else Inr value)"

definition get_bool :: "environment \<Rightarrow> string \<Rightarrow> bool \<Rightarrow> bool result" where
  "get_bool env name fallback =
     (case env name of
        None \<Rightarrow> Inr fallback
      | Some value \<Rightarrow>
          (let normalized = lower (strip value)
           in if normalized = ''true'' then Inr True
              else if normalized = ''false'' then Inr False else Inl ValueError))"

definition get_float :: "environment \<Rightarrow> string \<Rightarrow> py_float \<Rightarrow> py_float result" where
  "get_float env name fallback =
     (case env name of
        None \<Rightarrow> Inr fallback
      | Some value \<Rightarrow> (case float_of_string value of None \<Rightarrow> Inl ValueError | Some x \<Rightarrow> Inr x))"

definition get_int :: "environment \<Rightarrow> string \<Rightarrow> int \<Rightarrow> int result" where
  "get_int env name fallback =
     (case env name of
        None \<Rightarrow> Inr fallback
      | Some value \<Rightarrow> (case int_of_string value of None \<Rightarrow> Inl ValueError | Some x \<Rightarrow> Inr x))"

definition validate_timing :: "py_float \<Rightarrow> py_float \<Rightarrow> py_float \<Rightarrow> py_float \<Rightarrow> py_float \<Rightarrow> unit result" where
  "validate_timing queue_lease_timeout worker_poll_interval worker_heartbeat_interval
       scheduler_poll_interval reconciliation_interval =
     (if \<not> positive_float queue_lease_timeout then Inl ValueError
      else if \<not> positive_float worker_poll_interval then Inl ValueError
      else if \<not> positive_float worker_heartbeat_interval then Inl ValueError
      else if \<not> positive_float scheduler_poll_interval then Inl ValueError
      else if \<not> positive_float reconciliation_interval then Inl ValueError
      else if less_float queue_lease_timeout (times_float 3 worker_heartbeat_interval) then Inl ValueError
      else Inr ())"

definition load_settings :: "environment \<Rightarrow> settings result" where
  "load_settings env =
     bind_result (get_float env ''QUEUE_LEASE_TIMEOUT_SECONDS'' (Finite 30 0)) (\<lambda>queue_lease_timeout.
     bind_result (get_float env ''WORKER_POLL_INTERVAL_SECONDS'' (Finite 1 0)) (\<lambda>worker_poll_interval.
     bind_result (get_float env ''WORKER_HEARTBEAT_INTERVAL_SECONDS'' (Finite 10 0)) (\<lambda>worker_heartbeat_interval.
     bind_result (get_float env ''SCHEDULER_POLL_INTERVAL'' (Finite 1 0)) (\<lambda>scheduler_poll_interval.
     bind_result (get_float env ''RECONCILIATION_INTERVAL_SECONDS'' (Finite 30 0)) (\<lambda>reconciliation_interval.
     bind_result (validate_timing queue_lease_timeout worker_poll_interval worker_heartbeat_interval
                    scheduler_poll_interval reconciliation_interval) (\<lambda>_.
     bind_result (get_required env ''DATABASE_URL'') (\<lambda>database_url.
     bind_result (get_bool env ''ECHO_SQL'' False) (\<lambda>echo_sql.
     bind_result (float_seconds queue_lease_timeout) (\<lambda>lease.
     bind_result (float_seconds worker_poll_interval) (\<lambda>poll.
     bind_result (float_seconds worker_heartbeat_interval) (\<lambda>heartbeat.
     bind_result (float_seconds scheduler_poll_interval) (\<lambda>scheduler_poll.
     bind_result (float_seconds reconciliation_interval) (\<lambda>reconciliation.
     bind_result (get_int env ''API_PORT'' 8000) (\<lambda>api_port.
       Inr \<lparr>set_database_url = database_url, set_echo_sql = echo_sql,
            set_queue_type = getenv_default env ''QUEUE_TYPE'' ''postgres'',
            set_queue_lease_timeout = lease, set_worker_poll_interval = poll,
            set_worker_heartbeat_interval = heartbeat, set_scheduler_poll_interval = scheduler_poll,
            set_reconciliation_interval = reconciliation,
            set_api_host = getenv_default env ''API_HOST'' ''0.0.0.0'', set_api_port = api_port,
            set_log_level = getenv_default env ''LOG_LEVEL'' ''INFO''\<rparr>))))))))))))))"

section \<open>Logging\<close>

definition upper :: "string \<Rightarrow> string" where
  "upper s = map (\<lambda>c. let n = (of_char c :: nat) in if 97 \<le> n \<and> n \<le> 122 then char_of (n - 32) else c) s"

text \<open>\<open>logging.basicConfig\<close> raises \<open>ValueError\<close> for a name that is no level.\<close>

definition configure_logging :: "string \<Rightarrow> unit result" where
  "configure_logging log_level =
     (if upper log_level \<in> {''CRITICAL'', ''FATAL'', ''ERROR'', ''WARN'', ''WARNING'', ''INFO'', ''DEBUG'', ''NOTSET''}
      then Inr () else Inl ValueError)"

definition configured :: "environment \<Rightarrow> settings result" where
  "configured env =
     bind_result (load_settings env) (\<lambda>s. bind_result (configure_logging (set_log_level s)) (\<lambda>_. Inr s))"

end
