(* ===== verification/Plugin_Discovery.thy ===== *)
theory Plugin_Discovery
  imports Plugins
begin

text \<open>
  How a process finds its plugins (\<open>plugins/_discovery.py\<close>, the constructor of \<open>PluginRegistry\<close>
  in \<open>plugins/_registry.py\<close>, the two registries): every module of the package
  \<open>implementations\<close> beside the interface is imported, in the order of the file names, and every
  class that the module itself defines and that implements the interface is registered. What
  importing a module yields and what the directories hold is a parameter (\<open>interpreter\<close>); the
  functions of the standard library around them (\<open>iter_modules\<close>, \<open>getmodulename\<close>, \<open>getmembers\<close>)
  are modelled.
\<close>

section \<open>Modules and classes\<close>

text \<open>
  A class object: its name and module, which identify it, the classes of its MRO, and what it is as
  a plugin. A class without the attribute \<open>plugin_type\<close> (an abstract one) raises \<open>AttributeError\<close>
  when the attribute is read.
\<close>

record 'p py_class =
  cls_name :: string
  cls_module :: string
  cls_mro :: "(string \<times> string) list"
  cls_plugin :: "'p result"

datatype 'c py_value = PyClass 'c | PyOther

record 'p py_module =
  mod_name :: string
  mod_path :: "string list option"
  mod_members :: "(string \<times> 'p py_class py_value) list"

text \<open>
  \<open>import_module\<close> runs the module or raises whatever its code raises; \<open>list_directory\<close> is
  \<open>None\<close> for what is no directory.
\<close>

record 'p interpreter =
  import_module :: "string \<Rightarrow> 'p py_module result"
  list_directory :: "string \<Rightarrow> string list option"

definition class_id :: "'p py_class \<Rightarrow> string \<times> string" where
  "class_id c = (cls_module c, cls_name c)"

definition is_subclass :: "'p py_class \<Rightarrow> 'p py_class \<Rightarrow> bool" where
  "is_subclass c interface \<longleftrightarrow> class_id interface \<in> set (cls_mro c)"

section \<open>The standard library\<close>

text \<open>\<open>s.rsplit(".", 1)[0]\<close>: what stands before the last dot, all of \<open>s\<close> when there is none.\<close>

definition rsplit_dot :: "string \<Rightarrow> string" where
  "rsplit_dot s = (case dropWhile (\<lambda>c. c \<noteq> CHR ''.'') (rev s) of [] \<Rightarrow> s | _ # r \<Rightarrow> rev r)"

text \<open>\<open>inspect.getmembers(module, inspect.isclass)\<close>: the classes by the name they are bound to.\<close>

definition getmembers_classes :: "'p py_module \<Rightarrow> (string \<times> 'p py_class) list" where
  "getmembers_classes m =
     sort_key fst (List.map_filter (\<lambda>(n, v). case v of PyClass c \<Rightarrow> Some (n, c) | PyOther \<Rightarrow> None) (mod_members m))"

text \<open>
  \<open>inspect.getmodulename\<close> for Python sources and their byte code; the suffixes of compiled
  extension modules depend on the platform and are left out.
\<close>

definition strip_suffix :: "string \<Rightarrow> string \<Rightarrow> string option" where
  "strip_suffix suffix s =
     (if length suffix \<le> length s \<and> drop (length s - length suffix) s = suffix
      then Some (take (length s - length suffix) s) else None)"

definition getmodulename :: "string \<Rightarrow> string option" where
  "getmodulename file =
     (case strip_suffix ''.pyc'' file of Some m \<Rightarrow> Some m | None \<Rightarrow> strip_suffix ''.py'' file)"

text \<open>
  \<open>pkgutil.iter_modules\<close>. In each directory of the path the entries come in the order of their
  names; \<open>__init__\<close> and modules seen before in this directory are skipped, a directory counts when
  it has an \<open>__init__\<close>, and a name with a dot is no module. A module is yielded once over the whole
  path.
\<close>

definition is_package :: "'p interpreter \<Rightarrow> string \<Rightarrow> bool" where
  "is_package python path =
     (case list_directory python path of
        None \<Rightarrow> False
      | Some files \<Rightarrow> \<exists>file \<in> set files. getmodulename file = Some ''__init__'')"

fun modules_of_entries :: "'p interpreter \<Rightarrow> string \<Rightarrow> string list \<Rightarrow> string list \<Rightarrow> string list" where
  "modules_of_entries python path yielded [] = []"
| "modules_of_entries python path yielded (entry # entries) =
     (case getmodulename entry of
        Some m \<Rightarrow>
          if m = ''__init__'' \<or> m \<in> set yielded \<or> m = [] \<or> CHR ''.'' \<in> set m
          then modules_of_entries python path yielded entries
          else m # modules_of_entries python path (m # yielded) entries
      | None \<Rightarrow>
          if CHR ''.'' \<notin> set entry \<and> is_package python (path @ ''/'' @ entry)
          then entry # modules_of_entries python path (entry # yielded) entries
          else modules_of_entries python path yielded entries)"

fun iter_modules :: "'p interpreter \<Rightarrow> string list \<Rightarrow> string list \<Rightarrow> string list" where
  "iter_modules python yielded [] = []"
| "iter_modules python yielded (path # paths) =
     (let entries = (case list_directory python path of None \<Rightarrow> [] | Some files \<Rightarrow> sort files);
          found_here = filter (\<lambda>m. m \<notin> set yielded) (modules_of_entries python path [] entries)
      in found_here @ iter_modules python (found_here @ yielded) paths)"

section \<open>Discovery\<close>

text \<open>
  A generator is what it yields and then the exception it ends with, if any: its consumer sees
  the elements before the exception.
\<close>

type_synonym 'a yields = "'a list \<times> exn option"

fun yield_results :: "('a \<Rightarrow> 'b result) \<Rightarrow> 'a list \<Rightarrow> 'b yields" where
  "yield_results f [] = ([], None)"
| "yield_results f (x # xs) =
     (case f x of
        Inl e \<Rightarrow> ([], Some e)
      | Inr y \<Rightarrow> (case yield_results f xs of (ys, e) \<Rightarrow> (y # ys, e)))"

definition import_implementation_modules :: "'p interpreter \<Rightarrow> 'p py_class \<Rightarrow> 'p py_module yields" where
  "import_implementation_modules python interface =
     (let plugin_package = rsplit_dot (cls_module interface) in
      case import_module python (plugin_package @ ''.implementations'') of
        Inl e \<Rightarrow> ([], Some e)
      | Inr implementations_package \<Rightarrow>
          (case mod_path implementations_package of
             None \<Rightarrow> ([], Some AttributeError)
           | Some path \<Rightarrow>
               yield_results (\<lambda>name. import_module python (mod_name implementations_package @ ''.'' @ name))
                 (iter_modules python [] path)))"

definition find_plugin_implementations :: "'p py_module \<Rightarrow> 'p py_class \<Rightarrow> 'p py_class list" where
  "find_plugin_implementations module interface =
     filter (\<lambda>candidate.
         \<not> cls_module candidate \<noteq> mod_name module
         \<and> \<not> class_id candidate = class_id interface
         \<and> is_subclass candidate interface) (map snd (getmembers_classes module))"

definition discover_plugins :: "'p interpreter \<Rightarrow> 'p py_class \<Rightarrow> 'p py_class yields" where
  "discover_plugins python interface =
     (case import_implementation_modules python interface of
        (modules, e) \<Rightarrow> (concat (map (\<lambda>m. find_plugin_implementations m interface) modules), e))"

section \<open>Building a registry\<close>

text \<open>
  The constructor registers what discovery yields, one class after the other; an exception of a
  later import comes after the registrations before it.
\<close>

fun register_classes :: "'p plugin_scheme py_class list \<Rightarrow> 'p registry \<Rightarrow> 'p registry result" where
  "register_classes [] implementations = Inr implementations"
| "register_classes (c # cs) implementations =
     bind_result (bind_result (cls_plugin c) (\<lambda>p. register p implementations)) (register_classes cs)"

definition plugin_registry ::
  "'p plugin_scheme interpreter \<Rightarrow> 'p plugin_scheme py_class \<Rightarrow> 'p registry result" where
  "plugin_registry python interface =
     (case discover_plugins python interface of
        (classes, e) \<Rightarrow>
          bind_result (register_classes classes []) (\<lambda>implementations.
            case e of None \<Rightarrow> Inr implementations | Some e' \<Rightarrow> Inl e'))"

definition Plugin_id :: "string \<times> string" where
  "Plugin_id = (''automation_platform.plugins._plugin'', ''Plugin'')"

definition Task :: "task_plugin py_class" where
  "Task = \<lparr>cls_name = ''Task'', cls_module = ''automation_platform.plugins.tasks.interface'',
     cls_mro = [(''automation_platform.plugins.tasks.interface'', ''Task''), Plugin_id],
     cls_plugin = Inl AttributeError\<rparr>"

definition Trigger :: "trigger_plugin py_class" where
  "Trigger = \<lparr>cls_name = ''Trigger'', cls_module = ''automation_platform.plugins.triggers.interface'',
     cls_mro = [(''automation_platform.plugins.triggers.interface'', ''Trigger''), Plugin_id],
     cls_plugin = Inl AttributeError\<rparr>"

definition task_registry :: "task_plugin interpreter \<Rightarrow> (string \<times> task_plugin) list result" where
  "task_registry python = plugin_registry python Task"

definition trigger_registry :: "trigger_plugin interpreter \<Rightarrow> (string \<times> trigger_plugin) list result" where
  "trigger_registry python = plugin_registry python Trigger"

section \<open>What a registry holds\<close>

lemma register_classes_build:
  "map cls_plugin cs = map Inr ps \<Longrightarrow> register_classes cs reg = build_registry ps reg"
proof (induction cs arbitrary: ps reg)
  case Nil
  then show ?case by simp
next
  case (Cons c cs)
  then obtain p qs where ps: "ps = p # qs" "cls_plugin c = Inr p" "map cls_plugin cs = map Inr qs"
    by (cases ps) auto
  have "register_classes cs = build_registry qs" using Cons.IH [OF ps(3)] by (intro ext)
  then show ?case by (simp add: ps(1,2) bind_result_def)
qed

lemma register_classes_plugins:
  "register_classes cs reg = Inr reg' \<Longrightarrow> \<exists>ps. map cls_plugin cs = map Inr ps"
proof (induction cs arbitrary: reg)
  case Nil
  then show ?case by simp
next
  case (Cons c cs)
  then obtain p mid where "cls_plugin c = Inr p" "register_classes cs mid = Inr reg'"
    by (auto simp: bind_result_eq_Inr_iff)
  with Cons.IH [of mid] obtain ps where "map cls_plugin (c # cs) = map Inr (p # ps)" by auto
  then show ?case by blast
qed

lemma in_getmembers_classes: "c \<in> snd ` set (getmembers_classes m) \<longleftrightarrow> (\<exists>n. (n, PyClass c) \<in> set (mod_members m))"
  by (force simp: getmembers_classes_def List.map_filter_def split: py_value.splits)

lemma in_find_plugin_implementations:
  "c \<in> set (find_plugin_implementations m interface) \<longleftrightarrow>
     (\<exists>n. (n, PyClass c) \<in> set (mod_members m)) \<and> cls_module c = mod_name m
     \<and> class_id c \<noteq> class_id interface \<and> is_subclass c interface"
  using in_getmembers_classes [of c m] by (auto simp: find_plugin_implementations_def)

text \<open>
  The classes a registry is about: bound in a module of the package \<open>implementations\<close>, defined
  by that module, and implementing the interface.
\<close>

definition is_implementation :: "'p interpreter \<Rightarrow> 'p py_class \<Rightarrow> 'p py_class \<Rightarrow> bool" where
  "is_implementation python interface c \<longleftrightarrow>
     (\<exists>package path name m n.
         import_module python (rsplit_dot (cls_module interface) @ ''.implementations'') = Inr package
       \<and> mod_path package = Some path \<and> name \<in> set (iter_modules python [] path)
       \<and> import_module python (mod_name package @ ''.'' @ name) = Inr m
       \<and> (n, PyClass c) \<in> set (mod_members m) \<and> cls_module c = mod_name m
       \<and> class_id c \<noteq> class_id interface \<and> is_subclass c interface)"

lemma yield_results_all:
  "yield_results f xs = (ys, None) \<Longrightarrow> set ys = {y. \<exists>x \<in> set xs. f x = Inr y}"
proof (induction xs arbitrary: ys)
  case Nil
  then show ?case by simp
next
  case (Cons x xs)
  then obtain y zs where y: "f x = Inr y" "ys = y # zs" "yield_results f xs = (zs, None)"
    by (auto split: sum.splits prod.splits)
  from Cons.IH [OF y(3)] show ?case by (auto simp: y(1,2))
qed

lemma discovered_all:
  assumes "discover_plugins python interface = (cs, None)"
  shows "c \<in> set cs \<longleftrightarrow> is_implementation python interface c"
proof -
  obtain ms where ms: "import_implementation_modules python interface = (ms, None)"
    and cs: "cs = concat (map (\<lambda>m. find_plugin_implementations m interface) ms)"
    using assms by (auto simp: discover_plugins_def split: prod.splits)
  obtain package path where p:
      "import_module python (rsplit_dot (cls_module interface) @ ''.implementations'') = Inr package"
      "mod_path package = Some path"
      "yield_results (\<lambda>name. import_module python (mod_name package @ ''.'' @ name)) (iter_modules python [] path) = (ms, None)"
    using ms by (auto simp: import_implementation_modules_def Let_def split: sum.splits option.splits)
  have "c \<in> set cs \<longleftrightarrow> (\<exists>m \<in> set ms. c \<in> set (find_plugin_implementations m interface))" by (simp add: cs)
  then show ?thesis
    by (auto simp: is_implementation_def in_find_plugin_implementations yield_results_all [OF p(3)] p(1,2))
qed

lemma plugin_registry_eq_Inr:
  "plugin_registry python interface = Inr reg \<longleftrightarrow>
     (\<exists>cs ps. discover_plugins python interface = (cs, None) \<and> map cls_plugin cs = map Inr ps
        \<and> build_registry ps [] = Inr reg)"
proof
  assume "plugin_registry python interface = Inr reg"
  then obtain cs where cs: "discover_plugins python interface = (cs, None)" "register_classes cs [] = Inr reg"
    by (auto simp: plugin_registry_def bind_result_eq_Inr_iff split: prod.splits option.splits)
  from register_classes_plugins [OF cs(2)] obtain ps where ps: "map cls_plugin cs = map Inr ps" by blast
  then show "\<exists>cs ps. discover_plugins python interface = (cs, None) \<and> map cls_plugin cs = map Inr ps
        \<and> build_registry ps [] = Inr reg"
    using cs register_classes_build [OF ps] by auto
next
  assume "\<exists>cs ps. discover_plugins python interface = (cs, None) \<and> map cls_plugin cs = map Inr ps
        \<and> build_registry ps [] = Inr reg"
  then obtain cs ps where "discover_plugins python interface = (cs, None)"
    and "map cls_plugin cs = map Inr ps" and "build_registry ps [] = Inr reg" by blast
  then show "plugin_registry python interface = Inr reg"
    using register_classes_build [of cs ps "[]"] by (simp add: plugin_registry_def bind_result_def)
qed

end
