(* ===== verification/Bootstrap.thy ===== *)
theory Bootstrap
  imports Config Plugin_Discovery
begin

text \<open>
  The composition roots (\<open>runtime/*/bootstrap.py\<close>) up to the loop or server they enter: the engine
  and session factory (\<open>infrastructure\<close>), the unit of work factory (\<open>persistence/bootstrap.py\<close>),
  the queue (\<open>execution_queue/bootstrap.py\<close>), the services, the runtime object and the handlers of
  \<open>SIGINT\<close> and \<open>SIGTERM\<close>, or the exception that ends the process before. SQLAlchemy's
  \<open>create_engine\<close> is a parameter (URL, \<open>echo\<close>, \<open>pool_pre_ping\<close>), and so is the type of engines.
\<close>

section \<open>Infrastructure\<close>

record 'e session_factory =
  sf_bind :: 'e
  sf_expire_on_commit :: bool

record 'e infrastructure =
  infra_settings :: settings
  infra_engine :: 'e
  infra_session_factory :: "'e session_factory"

type_synonym 'e create_engine = "string \<Rightarrow> bool \<Rightarrow> bool \<Rightarrow> 'e result"

definition create_sqlalchemy_engine :: "'e create_engine \<Rightarrow> string \<Rightarrow> bool \<Rightarrow> 'e result" where
  "create_sqlalchemy_engine create_engine database_url echo_sql = create_engine database_url echo_sql True"

definition create_session_factory :: "'e \<Rightarrow> 'e session_factory" where
  "create_session_factory engine = \<lparr>sf_bind = engine, sf_expire_on_commit = False\<rparr>"

definition build_infrastructure :: "'e create_engine \<Rightarrow> settings \<Rightarrow> 'e infrastructure result" where
  "build_infrastructure create_engine s =
     bind_result (create_sqlalchemy_engine create_engine (set_database_url s) (set_echo_sql s)) (\<lambda>engine.
       Inr \<lparr>infra_settings = s, infra_engine = engine, infra_session_factory = create_session_factory engine\<rparr>)"

datatype 'e built_uow_factory = SQLAlchemyUnitOfWorkFactory "'e session_factory"

definition build_unit_of_work_factory :: "'e infrastructure \<Rightarrow> 'e built_uow_factory" where
  "build_unit_of_work_factory infrastructure = SQLAlchemyUnitOfWorkFactory (infra_session_factory infrastructure)"

datatype 'e built_queue = PostgresExecutionQueue "'e session_factory" timedelta

definition build_execution_queue :: "'e infrastructure \<Rightarrow> 'e built_queue result" where
  "build_execution_queue infrastructure =
     (let queue_type = set_queue_type (infra_settings infrastructure) in
      if queue_type = ''postgres''
      then Inr (PostgresExecutionQueue (infra_session_factory infrastructure)
                  (set_queue_lease_timeout (infra_settings infrastructure)))
      else Inl (InvalidExecutionQueueType queue_type))"

section \<open>Services\<close>

record 'e task_processing_service =
  tps_uow_factory :: "'e built_uow_factory"
  tps_task_registry :: "(string \<times> task_plugin) list"

record 'e workflow_start_service =
  wss_uow_factory :: "'e built_uow_factory"
  wss_execution_queue :: "'e built_queue"

record 'e chronological_trigger_service =
  chs_uow_factory :: "'e built_uow_factory"
  chs_trigger_registry :: "(string \<times> trigger_plugin) list"
  chs_workflow_start_service :: "'e workflow_start_service"

record 'e trigger_initialization_service =
  tis_chronological_trigger_service :: "'e chronological_trigger_service"

record 'e workflow_definition_service =
  wds_uow_factory :: "'e built_uow_factory"
  wds_task_registry :: "(string \<times> task_plugin) list"
  wds_trigger_registry :: "(string \<times> trigger_plugin) list"
  wds_trigger_initialization_service :: "'e trigger_initialization_service"

record 'e workflow_execution_query_service =
  wqs_uow_factory :: "'e built_uow_factory"

section \<open>Runtime objects and signals\<close>

record 'e worker_object =
  wrk_worker_id :: uuid
  wrk_queue :: "'e built_queue"
  wrk_task_processing_service :: "'e task_processing_service"
  wrk_poll_interval :: timedelta
  wrk_heartbeat_interval :: timedelta
  wrk_stop_event :: bool

definition worker_init ::
  "uuid \<Rightarrow> 'e built_queue \<Rightarrow> 'e task_processing_service \<Rightarrow> timedelta \<Rightarrow> timedelta \<Rightarrow> 'e worker_object" where
  "worker_init worker_id q service poll_interval heartbeat_interval =
     \<lparr>wrk_worker_id = worker_id, wrk_queue = q, wrk_task_processing_service = service,
      wrk_poll_interval = poll_interval, wrk_heartbeat_interval = heartbeat_interval, wrk_stop_event = False\<rparr>"

definition worker_stop :: "'e worker_object \<Rightarrow> 'e worker_object" where
  "worker_stop w = w\<lparr>wrk_stop_event := True\<rparr>"

record 'e reconciler_object =
  rco_uow_factory :: "'e built_uow_factory"
  rco_queue :: "'e built_queue"
  rco_interval :: timedelta
  rco_stop_event :: bool

definition reconciler_init :: "'e built_uow_factory \<Rightarrow> 'e built_queue \<Rightarrow> timedelta \<Rightarrow> 'e reconciler_object" where
  "reconciler_init unit_of_work_factory q interval =
     \<lparr>rco_uow_factory = unit_of_work_factory, rco_queue = q, rco_interval = interval, rco_stop_event = False\<rparr>"

definition reconciler_stop :: "'e reconciler_object \<Rightarrow> 'e reconciler_object" where
  "reconciler_stop r = r\<lparr>rco_stop_event := True\<rparr>"

record 'e scheduler_object =
  sdo_chronological_trigger_service :: "'e chronological_trigger_service"
  sdo_poll_interval :: timedelta
  sdo_stop_event :: bool

definition scheduler_init :: "'e chronological_trigger_service \<Rightarrow> timedelta \<Rightarrow> 'e scheduler_object" where
  "scheduler_init service poll_interval =
     \<lparr>sdo_chronological_trigger_service = service, sdo_poll_interval = poll_interval, sdo_stop_event = False\<rparr>"

definition scheduler_stop :: "'e scheduler_object \<Rightarrow> 'e scheduler_object" where
  "scheduler_stop s = s\<lparr>sdo_stop_event := True\<rparr>"

text \<open>
  \<open>signal.signal\<close>: what a signal does to the runtime object of the process. A signal without an
  entry has its default effect and ends the process. The handlers also log, which is not modelled.
\<close>

datatype signum = SIGINT | SIGTERM | OtherSignal nat

type_synonym 'r signal_handlers = "signum \<rightharpoonup> ('r \<Rightarrow> 'r)"

definition register_worker_signals :: "'e worker_object signal_handlers \<Rightarrow> 'e worker_object signal_handlers" where
  "register_worker_signals handlers = handlers(SIGINT \<mapsto> worker_stop, SIGTERM \<mapsto> worker_stop)"

definition register_reconciler_signals :: "'e reconciler_object signal_handlers \<Rightarrow> 'e reconciler_object signal_handlers" where
  "register_reconciler_signals handlers = handlers(SIGINT \<mapsto> reconciler_stop, SIGTERM \<mapsto> reconciler_stop)"

definition register_scheduler_signals :: "'e scheduler_object signal_handlers \<Rightarrow> 'e scheduler_object signal_handlers" where
  "register_scheduler_signals handlers = handlers(SIGINT \<mapsto> scheduler_stop, SIGTERM \<mapsto> scheduler_stop)"

section \<open>The processes\<close>

text \<open>Each result is the runtime object whose \<open>run\<close> is called next, with the handlers in force.\<close>

definition run_worker ::
  "'e create_engine \<Rightarrow> environment \<Rightarrow> task_plugin interpreter \<Rightarrow> uuid
     \<Rightarrow> ('e worker_object \<times> 'e worker_object signal_handlers) result" where
  "run_worker create_engine env python worker_id =
     bind_result (configured env) (\<lambda>s.
     bind_result (build_infrastructure create_engine s) (\<lambda>infrastructure.
     let unit_of_work_factory = build_unit_of_work_factory infrastructure in
     bind_result (task_registry python) (\<lambda>task_reg.
     let task_processing_service =
       \<lparr>tps_uow_factory = unit_of_work_factory, tps_task_registry = task_reg\<rparr> in
     bind_result (build_execution_queue infrastructure) (\<lambda>q.
       Inr (worker_init worker_id q task_processing_service (set_worker_poll_interval s)
              (set_worker_heartbeat_interval s),
            register_worker_signals Map.empty)))))"

definition run_reconciler ::
  "'e create_engine \<Rightarrow> environment \<Rightarrow> ('e reconciler_object \<times> 'e reconciler_object signal_handlers) result" where
  "run_reconciler create_engine env =
     bind_result (configured env) (\<lambda>s.
     bind_result (build_infrastructure create_engine s) (\<lambda>infrastructure.
     let unit_of_work_factory = build_unit_of_work_factory infrastructure in
     bind_result (build_execution_queue infrastructure) (\<lambda>q.
       Inr (reconciler_init unit_of_work_factory q (set_reconciliation_interval s),
            register_reconciler_signals Map.empty))))"

definition run_scheduler ::
  "'e create_engine \<Rightarrow> environment \<Rightarrow> trigger_plugin interpreter
     \<Rightarrow> ('e scheduler_object \<times> 'e scheduler_object signal_handlers) result" where
  "run_scheduler create_engine env python =
     bind_result (configured env) (\<lambda>s.
     bind_result (build_infrastructure create_engine s) (\<lambda>infrastructure.
     let unit_of_work_factory = build_unit_of_work_factory infrastructure in
     bind_result (build_execution_queue infrastructure) (\<lambda>q.
     let start_service = \<lparr>wss_uow_factory = unit_of_work_factory, wss_execution_queue = q\<rparr> in
     bind_result (trigger_registry python) (\<lambda>trigger_reg.
     let trigger_service =
       \<lparr>chs_uow_factory = unit_of_work_factory, chs_trigger_registry = trigger_reg,
        chs_workflow_start_service = start_service\<rparr> in
       Inr (scheduler_init trigger_service (set_scheduler_poll_interval s),
            register_scheduler_signals Map.empty)))))"

text \<open>
  The services on the state of the application (\<open>create_app\<close>), what the dependencies of the
  endpoints read from it (\<open>runtime/api/dependencies.py\<close>), and what the server is started with.
\<close>

record 'e app_state =
  state_workflow_definition_service :: "'e workflow_definition_service"
  state_workflow_start_service :: "'e workflow_start_service"
  state_workflow_execution_query_service :: "'e workflow_execution_query_service"

definition set_services ::
  "'e workflow_definition_service \<Rightarrow> 'e workflow_start_service \<Rightarrow> 'e workflow_execution_query_service \<Rightarrow> 'e app_state" where
  "set_services definition_service start_service query_service =
     \<lparr>state_workflow_definition_service = definition_service, state_workflow_start_service = start_service,
      state_workflow_execution_query_service = query_service\<rparr>"

record 'e api_server =
  srv_state :: "'e app_state"
  srv_host :: string
  srv_port :: int

definition get_workflow_definition_service :: "'e api_server \<Rightarrow> 'e workflow_definition_service" where
  "get_workflow_definition_service server = state_workflow_definition_service (srv_state server)"

definition get_workflow_start_service :: "'e api_server \<Rightarrow> 'e workflow_start_service" where
  "get_workflow_start_service server = state_workflow_start_service (srv_state server)"

definition get_workflow_execution_query_service :: "'e api_server \<Rightarrow> 'e workflow_execution_query_service" where
  "get_workflow_execution_query_service server = state_workflow_execution_query_service (srv_state server)"

definition run_api ::
  "'e create_engine \<Rightarrow> environment \<Rightarrow> task_plugin interpreter \<Rightarrow> trigger_plugin interpreter \<Rightarrow> 'e api_server result" where
  "run_api create_engine env python_tasks python_triggers =
     bind_result (configured env) (\<lambda>s.
     bind_result (build_infrastructure create_engine s) (\<lambda>infrastructure.
     let unit_of_work_factory = build_unit_of_work_factory infrastructure in
     bind_result (build_execution_queue infrastructure) (\<lambda>q.
     bind_result (task_registry python_tasks) (\<lambda>task_reg.
     bind_result (trigger_registry python_triggers) (\<lambda>trigger_reg.
     let start_service = \<lparr>wss_uow_factory = unit_of_work_factory, wss_execution_queue = q\<rparr>;
         trigger_service =
           \<lparr>chs_uow_factory = unit_of_work_factory, chs_trigger_registry = trigger_reg,
            chs_workflow_start_service = start_service\<rparr>;
         initialization_service = \<lparr>tis_chronological_trigger_service = trigger_service\<rparr>;
         definition_service =
           \<lparr>wds_uow_factory = unit_of_work_factory, wds_task_registry = task_reg,
            wds_trigger_registry = trigger_reg, wds_trigger_initialization_service = initialization_service\<rparr>;
         query_service = \<lparr>wqs_uow_factory = unit_of_work_factory\<rparr>
     in Inr \<lparr>srv_state = set_services definition_service start_service query_service,
             srv_host = set_api_host s, srv_port = set_api_port s\<rparr>)))))"

end
