(* ===== verification/Plugin_Properties.thy ===== *)
theory Plugin_Properties
  imports Plugin_Discovery
begin

text \<open>
  Properties of discovery and of the registries, and the source tree of the platform as an
  interpreter: the modules of the two implementation packages with the names they bind.
\<close>

section \<open>The source tree of the platform\<close>

definition foreign_class :: "string \<Rightarrow> string \<Rightarrow> 'p py_class" where
  "foreign_class module name =
     \<lparr>cls_name = name, cls_module = module, cls_mro = [(module, name)], cls_plugin = Inl AttributeError\<rparr>"

definition package_module :: "string \<Rightarrow> string \<Rightarrow> 'p py_module" where
  "package_module name path = \<lparr>mod_name = name, mod_path = Some [path], mod_members = []\<rparr>"

text \<open>A module of a task plugin: what it imports, and the class it defines.\<close>

definition task_module :: "string \<Rightarrow> task_plugin \<Rightarrow> task_plugin py_module" where
  "task_module name plugin =
     \<lparr>mod_name = name, mod_path = None,
      mod_members =
        [(''Any'', PyClass (foreign_class ''typing'' ''Any'')), (''ClassVar'', PyOther),
         (''TaskContext'', PyClass (foreign_class ''automation_platform.domain.execution_runtime.task_context'' ''TaskContext'')),
         (''TaskOutput'', PyClass (foreign_class ''automation_platform.domain.execution_runtime.task_output'' ''TaskOutput'')),
         (''TaskResult'', PyClass (foreign_class ''automation_platform.domain.execution_runtime.task_result'' ''TaskResult'')),
         (''InvalidPluginConfigurationError'',
            PyClass (foreign_class ''automation_platform.plugins.exceptions'' ''InvalidPluginConfigurationError'')),
         (''Task'', PyClass Task),
         (pl_name plugin, PyClass \<lparr>cls_name = pl_name plugin, cls_module = name,
            cls_mro = (name, pl_name plugin) # cls_mro Task, cls_plugin = Inr plugin\<rparr>)]\<rparr>"

definition platform_tasks :: "task_plugin interpreter" where
  "platform_tasks =
     (let package = ''automation_platform.plugins.tasks.implementations'' in
      \<lparr>import_module = (\<lambda>name.
         if name = package then Inr (package_module package ''tasks/implementations'')
         else if name = package @ ''.produce_value'' then Inr (task_module name produce_value_task)
         else if name = package @ ''.fail'' then Inr (task_module name fail_task)
         else if name = package @ ''.collect_inputs'' then Inr (task_module name collect_inputs_task)
         else Inl (ModuleNotFoundError name)),
       list_directory = (\<lambda>path.
         if path = ''tasks/implementations''
         then Some [''produce_value.py'', ''__pycache__'', ''fail.py'', ''__init__.py'', ''collect_inputs.py'']
         else if path = ''tasks/implementations/__pycache__'' then Some [''fail.cpython-313.pyc'']
         else None)\<rparr>)"

definition chronological_trigger :: "trigger_plugin py_class" where
  "chronological_trigger =
     \<lparr>cls_name = ''ChronologicalTrigger'',
      cls_module = ''automation_platform.plugins.triggers.mechanisms.Chronological_trigger'',
      cls_mro = (''automation_platform.plugins.triggers.mechanisms.Chronological_trigger'', ''ChronologicalTrigger'')
        # cls_mro Trigger, cls_plugin = Inl AttributeError\<rparr>"

definition interval_class :: "string \<Rightarrow> trigger_plugin py_class" where
  "interval_class name =
     \<lparr>cls_name = ''IntervalTrigger'', cls_module = name,
      cls_mro = (name, ''IntervalTrigger'') # cls_mro chronological_trigger, cls_plugin = Inr interval_trigger\<rparr>"

definition interval_module :: "string \<Rightarrow> trigger_plugin py_module" where
  "interval_module name =
     \<lparr>mod_name = name, mod_path = None,
      mod_members =
        [(''datetime'', PyClass (foreign_class ''datetime'' ''datetime'')),
         (''timedelta'', PyClass (foreign_class ''datetime'' ''timedelta'')),
         (''Any'', PyClass (foreign_class ''typing'' ''Any'')),
         (''InvalidPluginConfigurationError'',
            PyClass (foreign_class ''automation_platform.plugins.exceptions'' ''InvalidPluginConfigurationError'')),
         (''ChronologicalTrigger'', PyClass chronological_trigger),
         (''IntervalTrigger'', PyClass (interval_class name))]\<rparr>"

definition platform_triggers :: "trigger_plugin interpreter" where
  "platform_triggers =
     (let package = ''automation_platform.plugins.triggers.implementations'' in
      \<lparr>import_module = (\<lambda>name.
         if name = package then Inr (package_module package ''triggers/implementations'')
         else if name = package @ ''.interval'' then
           Inr (interval_module name)
         else Inl (ModuleNotFoundError name)),
       list_directory = (\<lambda>path.
         if path = ''triggers/implementations'' then Some [''interval.py'', ''__init__.py''] else None)\<rparr>)"

lemmas interpreter_defs =
  plugin_registry_def discover_plugins_def import_implementation_modules_def find_plugin_implementations_def
  getmembers_classes_def getmodulename_def strip_suffix_def rsplit_dot_def is_package_def

lemma task_modules:
  "iter_modules platform_tasks [] [''tasks/implementations''] = [''collect_inputs'', ''fail'', ''produce_value'']"
  by code_simp

lemma trigger_modules: "iter_modules platform_triggers [] [''triggers/implementations''] = [''interval'']"
  by code_simp

text \<open>Filtering commutes with the sorting of \<open>getmembers\<close>, so what a module yields can be read off its members.\<close>

lemma find_plugin_implementations_filter:
  "find_plugin_implementations m interface =
     map snd (sort_key fst (filter (\<lambda>(n, c). cls_module c = mod_name m \<and> class_id c \<noteq> class_id interface
        \<and> is_subclass c interface)
        (List.map_filter (\<lambda>(n, v). case v of PyClass c \<Rightarrow> Some (n, c) | PyOther \<Rightarrow> None) (mod_members m))))"
  by (simp add: find_plugin_implementations_def getmembers_classes_def filter_map comp_def case_prod_beta' filter_sort)

lemma task_module_yields:
  assumes "name \<notin> {''typing'', ''automation_platform.plugins.exceptions'', ''automation_platform.plugins.tasks.interface'',
     ''automation_platform.domain.execution_runtime.task_context'', ''automation_platform.domain.execution_runtime.task_output'',
     ''automation_platform.domain.execution_runtime.task_result''}"
  shows "find_plugin_implementations (task_module name plugin) Task =
     [\<lparr>cls_name = pl_name plugin, cls_module = name, cls_mro = (name, pl_name plugin) # cls_mro Task,
       cls_plugin = Inr plugin\<rparr>]"
  using assms
  by (simp add: find_plugin_implementations_filter task_module_def foreign_class_def List.map_filter_simps
      is_subclass_def class_id_def Task_def)

lemma platform_tasks_imports:
  "import_module platform_tasks ''automation_platform.plugins.tasks.implementations'' =
     Inr (package_module ''automation_platform.plugins.tasks.implementations'' ''tasks/implementations'')"
  "import_module platform_tasks ''automation_platform.plugins.tasks.implementations.collect_inputs'' =
     Inr (task_module ''automation_platform.plugins.tasks.implementations.collect_inputs'' collect_inputs_task)"
  "import_module platform_tasks ''automation_platform.plugins.tasks.implementations.fail'' =
     Inr (task_module ''automation_platform.plugins.tasks.implementations.fail'' fail_task)"
  "import_module platform_tasks ''automation_platform.plugins.tasks.implementations.produce_value'' =
     Inr (task_module ''automation_platform.plugins.tasks.implementations.produce_value'' produce_value_task)"
  by (simp_all add: platform_tasks_def Let_def)

lemma task_interface: "cls_module Task = ''automation_platform.plugins.tasks.interface''"
  by (simp add: Task_def)

lemma task_package:
  "rsplit_dot ''automation_platform.plugins.tasks.interface'' @ ''.implementations'' = ''automation_platform.plugins.tasks.implementations''"
  by code_simp

lemma platform_tasks_discovered:
  "discover_plugins platform_tasks Task =
     (map (\<lambda>(name, plugin). \<lparr>cls_name = pl_name plugin, cls_module = name,
             cls_mro = (name, pl_name plugin) # cls_mro Task, cls_plugin = Inr plugin\<rparr>)
        [(''automation_platform.plugins.tasks.implementations.collect_inputs'', collect_inputs_task),
         (''automation_platform.plugins.tasks.implementations.fail'', fail_task),
         (''automation_platform.plugins.tasks.implementations.produce_value'', produce_value_task)], None)"
  by (simp add: discover_plugins_def import_implementation_modules_def Let_def task_package task_modules
      platform_tasks_imports package_module_def task_module_yields task_interface del: iter_modules.simps)

lemma platform_task_registry:
  "task_registry platform_tasks =
     Inr [(''collect_inputs'', collect_inputs_task), (''fail'', fail_task), (''produce_value'', produce_value_task)]"
  by (simp add: task_registry_def plugin_registry_def platform_tasks_discovered bind_result_def register_def
      collect_inputs_task_def fail_task_def produce_value_task_def strip_def is_space_def Let_def)

text \<open>The same for the interval trigger: the class \<open>ChronologicalTrigger\<close> that its module imports is no implementation.\<close>

lemma trigger_package:
  "rsplit_dot ''automation_platform.plugins.triggers.interface'' @ ''.implementations'' =
     ''automation_platform.plugins.triggers.implementations''"
  by code_simp

lemma platform_triggers_imports:
  "import_module platform_triggers ''automation_platform.plugins.triggers.implementations'' =
     Inr (package_module ''automation_platform.plugins.triggers.implementations'' ''triggers/implementations'')"
  "import_module platform_triggers ''automation_platform.plugins.triggers.implementations.interval'' =
     Inr (interval_module ''automation_platform.plugins.triggers.implementations.interval'')"
  by (simp_all add: platform_triggers_def Let_def)

lemma interval_module_yields:
  "find_plugin_implementations (interval_module ''automation_platform.plugins.triggers.implementations.interval'') Trigger =
     [interval_class ''automation_platform.plugins.triggers.implementations.interval'']"
  by (simp add: find_plugin_implementations_filter interval_module_def interval_class_def chronological_trigger_def
      foreign_class_def List.map_filter_simps is_subclass_def class_id_def Trigger_def)

lemma trigger_interface: "cls_module Trigger = ''automation_platform.plugins.triggers.interface''"
  by (simp add: Trigger_def)

lemma platform_trigger_registry: "trigger_registry platform_triggers = Inr [(''interval'', interval_trigger)]"
proof -
  have "discover_plugins platform_triggers Trigger =
      ([interval_class ''automation_platform.plugins.triggers.implementations.interval''], None)"
    by (simp add: discover_plugins_def import_implementation_modules_def Let_def trigger_package trigger_modules
        platform_triggers_imports package_module_def interval_module_yields trigger_interface del: iter_modules.simps)
  then show ?thesis
    by (simp add: trigger_registry_def plugin_registry_def bind_result_def register_def interval_trigger_def
        interval_class_def strip_def is_space_def Let_def)
qed

lemma registry_lookup_fail:
  "registry_get [(''collect_inputs'', collect_inputs_task), (''fail'', fail_task), (''produce_value'', produce_value_task)]
     ''fail'' = Inr fail_task"
  by (simp add: registry_get_def)

section \<open>Properties\<close>

lemma register_classes_fails:
  "register_classes cs reg = Inl e \<Longrightarrow>
     (\<exists>c \<in> set cs. cls_plugin c = Inl e)
   \<or> e = ValueError \<and> (\<exists>n ps. map cls_plugin (take n cs) = map Inr ps
        \<and> (\<not> distinct (map pl_type ps) \<or> (\<exists>p \<in> set ps. strip (pl_type p) = [])
           \<or> pl_type ` set ps \<inter> fst ` set reg \<noteq> {}))"
proof (induction cs arbitrary: reg)
  case Nil
  then show ?case by simp
next
  case (Cons c cs)
  show ?case
  proof (cases "cls_plugin c")
    case (Inl e')
    then show ?thesis using Cons.prems by (simp add: bind_result_def)
  next
    case (Inr p)
    show ?thesis
    proof (cases "register p reg")
      case (Inl e')
      then have "e = ValueError \<and> (strip (pl_type p) = [] \<or> pl_type p \<in> fst ` set reg)"
        using Cons.prems Inr by (auto simp: bind_result_def register_def Let_def split: if_splits)
      moreover have "map cls_plugin (take 1 (c # cs)) = map Inr [p]" by (simp add: Inr)
      ultimately show ?thesis by (intro disjI2 [where Q = "e = ValueError \<and> Q" for Q] conjI exI [of _ 1] exI [of _ "[p]"]) auto
    next
      case (Inr mid)
      then have tys: "fst ` set mid = insert (pl_type p) (fst ` set reg)"
        using dom_update [of "pl_type p" p reg] by (simp add: register_def Let_def split: if_splits)
      have "register_classes cs mid = Inl e"
        using Cons.prems \<open>cls_plugin c = Inr p\<close> Inr by (simp add: bind_result_def)
      from Cons.IH [OF this] consider
          "\<exists>c \<in> set cs. cls_plugin c = Inl e"
        | n ps where "e = ValueError" "map cls_plugin (take n cs) = map Inr ps"
            "\<not> distinct (map pl_type ps) \<or> (\<exists>p \<in> set ps. strip (pl_type p) = [])
              \<or> pl_type ` set ps \<inter> fst ` set mid \<noteq> {}"
        by (elim disjE) blast+
      then show ?thesis
      proof cases
        case 1
        then show ?thesis by simp
      next
        case (2 n ps)
        have "map cls_plugin (take (Suc n) (c # cs)) = map Inr (p # ps)"
          using 2(2) by (simp add: \<open>cls_plugin c = Inr p\<close>)
        then show ?thesis
          using 2(1,3) unfolding tys
          by (intro disjI2 [where Q = "e = ValueError \<and> Q" for Q] conjI exI [of _ "Suc n"] exI [of _ "p # ps"]) auto
      qed
    qed
  qed
qed

text \<open>
  C32. The registry holds the implementations. Building the registry of an interface, from any
  source tree, either fails, and then an import failed, or a discovered class has no
  \<open>plugin_type\<close>, or two discovered plugins share a type or one is blank; or it gives a registry in
  which a type leads to a plugin exactly when a class that some module of the package
  \<open>implementations\<close> defines, and that implements the interface, is that plugin and declares that type.
\<close>

theorem registry_discovers:
  "case plugin_registry python interface of
     Inr reg \<Rightarrow> \<forall>ty p. registry_get reg ty = Inr p \<longleftrightarrow>
       (\<exists>c. is_implementation python interface c \<and> cls_plugin c = Inr p \<and> pl_type p = ty)
   | Inl e \<Rightarrow>
       snd (discover_plugins python interface) = Some e
     \<or> (\<exists>c \<in> set (fst (discover_plugins python interface)). cls_plugin c = Inl e)
     \<or> e = ValueError \<and> (\<exists>n ps. map cls_plugin (take n (fst (discover_plugins python interface))) = map Inr ps
          \<and> (\<not> distinct (map pl_type ps) \<or> (\<exists>p \<in> set ps. strip (pl_type p) = [])))"
proof (cases "plugin_registry python interface")
  case (Inr reg)
  then obtain cs ps where cs: "discover_plugins python interface = (cs, None)"
    and ps: "map cls_plugin cs = map Inr ps" and reg: "build_registry ps [] = Inr reg"
    unfolding plugin_registry_eq_Inr by blast
  have "registry_get reg ty = Inr p \<longleftrightarrow> p \<in> set ps \<and> pl_type p = ty" for ty p
    using registry_finds_plugins [of ps] by (simp add: reg)
  moreover have "p \<in> set ps \<longleftrightarrow> (\<exists>c \<in> set cs. cls_plugin c = Inr p)" for p
    using arg_cong [OF ps, of set] by auto (metis imageE image_eqI sum.inject(2))+
  ultimately show ?thesis using discovered_all [OF cs] Inr by auto
next
  case (Inl e)
  obtain cs r where cs: "discover_plugins python interface = (cs, r)" by fastforce
  have "register_classes cs [] = Inl e \<or> r = Some e"
    using Inl by (auto simp: plugin_registry_def cs bind_result_def split: sum.splits option.splits)
  then show ?thesis using register_classes_fails [of cs "[]" e] by (auto simp: Inl cs)
qed

theorem registry_discovers_witness:
  "\<exists>c. is_implementation platform_tasks Task c \<and> cls_plugin c = Inr fail_task \<and> pl_type fail_task = ''fail''"
  using registry_discovers [of platform_tasks Task, unfolded platform_task_registry [unfolded task_registry_def] sum.case,
      THEN spec, THEN spec, THEN iffD1, OF registry_lookup_fail] .

end
