(* ===== verification/Rounding.thy ===== *)
theory Rounding
  imports Python_Numbers Complex_Main
begin

text \<open>
  How far the float operations of the program are from the real numbers they stand for: parsing and
  multiplying round to the nearest binary64 number, a \<open>timedelta\<close> is within a microsecond.
\<close>

section \<open>Rounding to binary64\<close>

lemma powi_split: "(2 :: real) powi a * 2 powi b = 2 powi (a + b)"
  by (simp add: power_int_add)

lemma powi_Suc: "(2 :: real) powi (a + 1) = 2 * 2 powi a"
  by (simp add: power_int_add)

lemma of_int_pow2: "0 \<le> e \<Longrightarrow> real_of_int (2 ^ nat e) = 2 powi e"
  by (simp add: power_int_nonneg_exp)

lemma powi_neg: "(2 :: real) powi (- e) = 1 / 2 powi e"
  by (simp add: power_int_minus_divide)

lemma bit_length_nonneg: "0 \<le> bit_length n"
proof (induction n rule: bit_length.induct)
  case (1 n)
  then show ?case by (cases "n \<le> 0") (simp_all add: bit_length.simps [of n])
qed

lemma bit_length_bounds:
  "0 < n \<Longrightarrow> (2 :: real) powi (bit_length n - 1) \<le> real_of_int n \<and> real_of_int n < 2 powi bit_length n"
proof (induction n rule: bit_length.induct)
  case (1 n)
  show ?case
  proof (cases "n = 1")
    case True
    then show ?thesis by (simp add: bit_length.simps [of 1] bit_length.simps [of 0])
  next
    case False
    then have half: "0 < n div 2" using 1(2) by linarith
    have l: "bit_length n = bit_length (n div 2) + 1" using 1(2) by (simp add: bit_length.simps [of n])
    have ih: "(2 :: real) powi (bit_length (n div 2) - 1) \<le> real_of_int (n div 2)"
      "real_of_int (n div 2) < 2 powi bit_length (n div 2)"
      using 1(1) [OF _ half] 1(2) by simp_all
    have up: "real_of_int (n div 2) + 1 \<le> 2 powi bit_length (n div 2)"
    proof -
      have eq: "(2 :: real) powi bit_length (n div 2) = real_of_int (2 ^ nat (bit_length (n div 2)))"
        by (rule of_int_pow2 [OF bit_length_nonneg, symmetric])
      have "n div 2 + 1 \<le> 2 ^ nat (bit_length (n div 2))" using ih(2) unfolding eq of_int_less_iff by simp
      then have "real_of_int (n div 2 + 1) \<le> real_of_int (2 ^ nat (bit_length (n div 2)))" by (simp only: of_int_le_iff)
      then show ?thesis unfolding eq by simp
    qed
    have i: "2 * (n div 2) \<le> n" "n + 1 \<le> 2 * (n div 2 + 1)" by presburger+
    have "real_of_int (2 * (n div 2)) \<le> real_of_int n" "real_of_int (n + 1) \<le> real_of_int (2 * (n div 2 + 1))"
      unfolding of_int_le_iff by (rule i)+
    then have "real_of_int n \<ge> 2 * real_of_int (n div 2)" "real_of_int n < 2 * (real_of_int (n div 2) + 1)"
      by simp_all
    moreover have "(2 :: real) powi (bit_length (n div 2)) = 2 * 2 powi (bit_length (n div 2) - 1)"
      using powi_Suc [of "bit_length (n div 2) - 1"] by simp
    ultimately show ?thesis
      using ih up by (simp add: l powi_Suc)
  qed
qed


text \<open>The exponent brackets the ratio.\<close>

lemma ratio_exponent_bounds:
  assumes "0 < num" "0 < den"
  shows "2 powi ratio_exponent num den \<le> real_of_int num / real_of_int den"
    "real_of_int num / real_of_int den < 2 powi (ratio_exponent num den + 1)"
proof -
  let ?n = "real_of_int num" and ?d = "real_of_int den" and ?k = "bit_length num - bit_length den"
  have n: "2 powi (bit_length num - 1) \<le> ?n" "?n < 2 powi bit_length num"
    and d: "2 powi (bit_length den - 1) \<le> ?d" "?d < 2 powi bit_length den"
    using bit_length_bounds assms by blast+
  have pos: "0 < ?n" "0 < ?d" using assms by simp_all
  have upper: "?n < 2 powi (?k + 1) * ?d"
  proof -
    have "2 powi (?k + 1) * 2 powi (bit_length den - 1) \<le> 2 powi (?k + 1) * ?d"
      by (rule mult_left_mono [OF d(1)]) simp
    then show ?thesis using n(2) by (simp add: powi_split)
  qed
  have lower: "2 powi (?k - 1) * ?d \<le> ?n"
  proof -
    have "2 powi (?k - 1) * ?d \<le> 2 powi (?k - 1) * 2 powi bit_length den"
      by (rule mult_left_mono) (use d(2) in simp_all)
    then show ?thesis using n(1) by (simp add: powi_split)
  qed
  have test: "(if ?k \<ge> 0 then den * 2 ^ nat ?k \<le> num else den \<le> num * 2 ^ nat (- ?k)) \<longleftrightarrow> 2 powi ?k * ?d \<le> ?n"
  proof (cases "?k \<ge> 0")
    case True
    have "den * 2 ^ nat ?k \<le> num \<longleftrightarrow> real_of_int (den * 2 ^ nat ?k) \<le> ?n" by (simp only: of_int_le_iff)
    then show ?thesis using True of_int_pow2 [OF True] by (simp add: mult.commute)
  next
    case False
    have "den \<le> num * 2 ^ nat (- ?k) \<longleftrightarrow> ?d \<le> real_of_int (num * 2 ^ nat (- ?k))" by (simp only: of_int_le_iff)
    also have "\<dots> \<longleftrightarrow> ?d \<le> ?n * 2 powi (- ?k)"
      using of_int_pow2 [of "- ?k"] False by (simp only: of_int_mult)
    also have "\<dots> \<longleftrightarrow> 2 powi ?k * ?d \<le> ?n"
    proof -
      have p: "(0 :: real) < 2 powi ?k" by simp
      show ?thesis unfolding powi_neg using p by (simp add: pos_le_divide_eq mult.commute)
    qed
    finally show ?thesis using False by simp
  qed
  have k: "ratio_exponent num den = (if 2 powi ?k * ?d \<le> ?n then ?k else ?k - 1)"
    unfolding ratio_exponent_def Let_def test ..
  show "2 powi ratio_exponent num den \<le> ?n / ?d"
    using lower pos unfolding k by (simp add: pos_le_divide_eq)
  show "?n / ?d < 2 powi (ratio_exponent num den + 1)"
    using upper pos unfolding k by (simp add: pos_divide_less_eq)
qed

lemma half_even_near:
  assumes "0 < den"
  shows "\<bar>real_of_int (half_even num den) - real_of_int num / real_of_int den\<bar> \<le> 1 / 2"
proof -
  let ?q = "num div den" and ?r = "num mod den"
  have "num = ?q * den + ?r" by simp
  then have "real_of_int num = real_of_int ?q * real_of_int den + real_of_int ?r"
    by (metis of_int_add of_int_mult)
  then have ratio: "real_of_int num / real_of_int den = real_of_int ?q + real_of_int ?r / real_of_int den"
    using assms by (simp add: add_divide_distrib)
  have r: "0 \<le> ?r" "?r < den" using assms by simp_all
  show ?thesis
  proof (cases "2 * ?r < den \<or> 2 * ?r = den \<and> even ?q")
    case True
    then have "2 * ?r \<le> den" by auto
    then have "2 * real_of_int ?r \<le> real_of_int den" by linarith
    then have "real_of_int ?r / real_of_int den \<le> 1 / 2" using assms by (simp add: field_simps)
    moreover have "0 \<le> real_of_int ?r / real_of_int den" using r(1) assms by simp
    ultimately show ?thesis using True by (simp add: half_even_def Let_def ratio)
  next
    case False
    then have "den \<le> 2 * ?r" by linarith
    then have "real_of_int den \<le> 2 * real_of_int ?r" by linarith
    then have "1 / 2 \<le> real_of_int ?r / real_of_int den" using assms by (simp add: field_simps)
    moreover have "real_of_int ?r / real_of_int den < 1" using r(2) assms by simp
    moreover have "half_even num den = ?q + 1" using False by (simp add: half_even_def Let_def)
    ultimately show ?thesis by (simp add: ratio)
  qed
qed


text \<open>The value of a finite float, and its distance from the exact ratio.\<close>

definition float_value :: "int \<Rightarrow> int \<Rightarrow> real" where
  "float_value m e = real_of_int m * 2 powi e"

lemma binary64_cases:
  assumes "0 < num" "binary64 negative num den = Finite m e"
  shows "e = max (ratio_exponent num den - 52) (- 1074)"
    "m = signed negative (if e \<ge> 0 then half_even num (den * 2 ^ nat e) else half_even (num * 2 ^ nat (- e)) den)"
  using assms by (auto simp: binary64_def Let_def split: if_splits)

lemma binary64_near:
  assumes "0 < num" "0 < den" "binary64 False num den = Finite m e"
  shows "\<bar>float_value m e - real_of_int num / real_of_int den\<bar> \<le> 2 powi e / 2"
proof -
  let ?x = "real_of_int num / real_of_int den"
  have m: "m = (if e \<ge> 0 then half_even num (den * 2 ^ nat e) else half_even (num * 2 ^ nat (- e)) den)"
    using binary64_cases(2) [OF assms(1,3)] by (simp add: signed_def)
  have near: "\<bar>real_of_int m - ?x / 2 powi e\<bar> \<le> 1 / 2"
  proof (cases "e \<ge> 0")
    case True
    have "0 < den * 2 ^ nat e" using assms(2) by simp
    from half_even_near [OF this, of num] show ?thesis
      using True m of_int_pow2 [OF True] by (simp add: divide_divide_eq_left)
  next
    case False
    have "real_of_int (num * 2 ^ nat (- e)) / real_of_int den = ?x / 2 powi e"
      using of_int_pow2 [of "- e"] False powi_neg [of e] by simp
    then show ?thesis using half_even_near [OF assms(2), of "num * 2 ^ nat (- e)"] False m by simp
  qed
  have p: "(0 :: real) < 2 powi e" by simp
  have val: "float_value m e - ?x = (real_of_int m - ?x / 2 powi e) * 2 powi e"
    using p by (simp add: float_value_def left_diff_distrib)
  have "\<bar>float_value m e - ?x\<bar> = \<bar>real_of_int m - ?x / 2 powi e\<bar> * 2 powi e"
    unfolding val by (simp add: abs_mult)
  also have "\<dots> \<le> 1 / 2 * 2 powi e" by (rule mult_right_mono [OF near]) simp
  finally show ?thesis by simp
qed

text \<open>Below \<open>2^k\<close>, the error is at most \<open>2^(k - 54)\<close>.\<close>

lemma binary64_error:
  assumes "0 \<le> num" "0 < den" "binary64 False num den = Finite m e"
    "real_of_int num / real_of_int den < 2 powi k" "- 1021 \<le> k"
  shows "\<bar>float_value m e - real_of_int num / real_of_int den\<bar> \<le> 2 powi (k - 54)" "0 \<le> m"
proof -
  have "\<bar>float_value m e - real_of_int num / real_of_int den\<bar> \<le> 2 powi (k - 54) \<and> 0 \<le> m"
  proof (cases "num = 0")
    case True
    then show ?thesis using assms(3) by (simp add: binary64_def float_value_def)
  next
    case False
    then have num: "0 < num" using assms(1) by simp
    have "(2 :: real) powi ratio_exponent num den < 2 powi k"
      using ratio_exponent_bounds(1) [OF num assms(2)] assms(4) by linarith
    then have "ratio_exponent num den < k"
      using power_int_increasing [of k "ratio_exponent num den" "2 :: real"] by (cases "k \<le> ratio_exponent num den") simp_all
    then have "e \<le> k - 53" using binary64_cases(1) [OF num assms(3)] assms(5) by linarith
    then have "(2 :: real) powi e \<le> 2 powi (k - 53)" by (rule power_int_increasing) simp
    moreover have "(2 :: real) powi (k - 53) = 2 * 2 powi (k - 54)" using powi_Suc [of "k - 54"] by simp
    moreover have "0 \<le> m"
    proof -
      have "0 \<le> half_even a b" if "0 \<le> a" "0 < b" for a b
        using that pos_imp_zdiv_nonneg_iff [OF that(2), of a] by (simp add: half_even_def Let_def)
      then show ?thesis using binary64_cases(2) [OF num assms(3)] num assms(2) by (simp add: signed_def)
    qed
    ultimately show ?thesis using binary64_near [OF num assms(2,3)] by simp
  qed
  then show "\<bar>float_value m e - real_of_int num / real_of_int den\<bar> \<le> 2 powi (k - 54)" "0 \<le> m" by simp_all
qed

lemma binary64_finite:
  assumes "0 \<le> num" "0 < den" "real_of_int num / real_of_int den < 2 powi k" "k \<le> 1000"
  shows "\<exists>m e. binary64 False num den = Finite m e"
proof (cases "num = 0")
  case False
  then have num: "0 < num" using assms(1) by simp
  have "(2 :: real) powi ratio_exponent num den < 2 powi k"
    using ratio_exponent_bounds(1) [OF num assms(2)] assms(3) by linarith
  then have "ratio_exponent num den < k"
    using power_int_increasing [of k "ratio_exponent num den" "2 :: real"] by (cases "k \<le> ratio_exponent num den") simp_all
  define e where "e = max (ratio_exponent num den - 52) (- 1074)"
  have "e < 971" using \<open>ratio_exponent num den < k\<close> assms(4) by (simp add: e_def)
  then show ?thesis using False unfolding binary64_def e_def [symmetric] Let_def by simp
qed (simp add: binary64_def)

section \<open>timedelta\<close>

lemma split_float_value:
  assumes "0 \<le> m" "split_float m e = (w, num, den)"
  shows "float_value m e = real_of_int w + real_of_int num / real_of_int den"
    "0 \<le> num" "num < den" "0 \<le> w"
proof -
  have "float_value m e = real_of_int w + real_of_int num / real_of_int den \<and> 0 \<le> num \<and> num < den \<and> 0 \<le> w"
  proof (cases "e \<ge> 0")
    case True
    then show ?thesis using assms of_int_pow2 [OF True] by (auto simp: split_float_def float_value_def)
  next
    case False
    let ?d = "2 ^ nat (- e) :: int"
    have d: "0 < ?d" by simp
    have w: "w = m div ?d" "num = m mod ?d" "den = ?d" using assms(2) False unfolding split_float_def by auto
    have "m = w * den + num" unfolding w by (rule div_mult_mod_eq [symmetric])
    then have "real_of_int m = real_of_int w * real_of_int den + real_of_int num" by (metis of_int_add of_int_mult)
    moreover have "float_value m e = real_of_int m / real_of_int den"
      using of_int_pow2 [of "- e"] False powi_neg [of e] unfolding w(3) by (simp add: float_value_def)
    ultimately have "float_value m e = real_of_int w + real_of_int num / real_of_int den"
      using d w(3) by (simp add: add_divide_distrib)
    moreover have "0 \<le> w" unfolding w(1) using assms(1) pos_imp_zdiv_nonneg_iff [OF d, of m] by simp
    ultimately show ?thesis using d pos_mod_bound [OF d, of m] by (simp add: w(2,3))
  qed
  then show "float_value m e = real_of_int w + real_of_int num / real_of_int den"
    "0 \<le> num" "num < den" "0 \<le> w" by simp_all
qed

lemma half_even_nonneg: "0 \<le> a \<Longrightarrow> 0 < b \<Longrightarrow> 0 \<le> half_even a b"
  using pos_imp_zdiv_nonneg_iff [of b a] by (simp add: half_even_def Let_def)

lemma float_microseconds_near:
  assumes "0 \<le> m"
  shows "\<bar>real_of_int (float_microseconds m e) - 1000000 * float_value m e\<bar> \<le> 1 / 2 + 2 powi (- 34)"
    "0 \<le> float_microseconds m e"
proof -
  obtain w num den where s: "split_float m e = (w, num, den)" by (metis prod_cases3)
  note sv = split_float_value [OF assms s]
  have den: "0 < den" using sv(2,3) by simp
  let ?y = "real_of_int (1000000 * num) / real_of_int den"
  have "real_of_int num / real_of_int den < 1" using sv(3) den by simp
  moreover have "?y = 1000000 * (real_of_int num / real_of_int den)" by simp
  ultimately have y: "?y < 2 powi 20" by simp
  obtain m' e' where b: "binary64 False (1000000 * num) den = Finite m' e'"
    using binary64_finite [OF _ den y] sv(2) by auto
  have "\<bar>float_value m' e' - ?y\<bar> \<le> 2 powi (20 - 54)" "0 \<le> m'"
    using binary64_error [OF _ den b y] sv(2) by simp_all
  then have err: "\<bar>float_value m' e' - ?y\<bar> \<le> 2 powi (- 34)" and m': "0 \<le> m'" by simp_all
  obtain w' num' den' where s': "split_float m' e' = (w', num', den')" by (metis prod_cases3)
  note sv' = split_float_value [OF m' s']
  have den': "0 < den'" using sv'(2,3) by simp
  let ?n = "(w * 1000000 + w') * den' + num'"
  have result: "float_microseconds m e = half_even ?n den'"
    by (simp add: float_microseconds_def s b s')
  have exact: "real_of_int ?n / real_of_int den' = 1000000 * real_of_int w + float_value m' e'"
    using den' by (simp add: sv'(1) add_divide_distrib)
  have "1000000 * float_value m e = 1000000 * real_of_int w + ?y" by (simp add: sv(1))
  then show "\<bar>real_of_int (float_microseconds m e) - 1000000 * float_value m e\<bar> \<le> 1 / 2 + 2 powi (- 34)"
    using half_even_near [OF den', of ?n] err unfolding result exact by linarith
  show "0 \<le> float_microseconds m e"
    unfolding result by (rule half_even_nonneg) (use sv sv' den' in simp_all)
qed

text \<open>A positive number of seconds becomes a \<open>timedelta\<close> within a microsecond of it.\<close>

lemma float_seconds_near:
  assumes "positive_float x" "float_seconds x = Inr d"
  obtains m e where "x = Finite m e" "0 < m" "0 \<le> d"
    "\<bar>real_of_int d - 1000000 * float_value m e\<bar> \<le> 1 / 2 + 2 powi (- 34)"
proof (cases x)
  case (Finite m e)
  then have m: "0 < m" using assms(1) by (simp add: positive_float_def)
  then have "d = float_microseconds m e"
    using assms(2) Finite by (auto simp: float_seconds_def checked_timedelta_def signed_def split: if_splits)
  then show thesis using float_microseconds_near [of m e] m by (intro that [OF Finite m]) simp_all
qed (use assms in \<open>simp_all add: float_seconds_def\<close>)

section \<open>Comparing and multiplying\<close>

lemma less_float_value: "less_float (Finite m e) (Finite n f) \<longleftrightarrow> float_value m e < float_value n f"
proof -
  let ?d = "min e f"
  have scale: "real_of_int (k * 2 ^ nat (g - ?d)) * 2 powi ?d = float_value k g" if "?d \<le> g" for k g
    using of_int_pow2 [of "g - ?d"] that powi_split [of "g - ?d" ?d]
    by (simp add: float_value_def mult.assoc)
  have "less_float (Finite m e) (Finite n f) \<longleftrightarrow>
      real_of_int (m * 2 ^ nat (e - ?d)) < real_of_int (n * 2 ^ nat (f - ?d))"
    by (simp only: less_float.simps Let_def of_int_less_iff)
  also have "\<dots> \<longleftrightarrow> real_of_int (m * 2 ^ nat (e - ?d)) * 2 powi ?d < real_of_int (n * 2 ^ nat (f - ?d)) * 2 powi ?d"
    by (rule mult_less_cancel_right_pos [symmetric]) simp
  finally show ?thesis by (simp only: scale [of e] scale [of f] min.cobounded1 min.cobounded2)
qed

lemma times_float_near:
  assumes "0 \<le> k" "0 \<le> m" "real_of_int k * float_value m e < 2 powi j" "- 1021 \<le> j" "j \<le> 1000"
  obtains n f where "times_float k (Finite m e) = Finite n f"
    "\<bar>float_value n f - real_of_int k * float_value m e\<bar> \<le> 2 powi (j - 54)"
proof -
  define num den where "num = (if e \<ge> 0 then k * m * 2 ^ nat e else k * m)" and "den = (if e \<ge> 0 then 1 else (2 :: int) ^ nat (- e))"
  have den: "0 < den" "0 \<le> num" using assms(1,2) by (simp_all add: num_def den_def)
  have ratio: "real_of_int num / real_of_int den = real_of_int k * float_value m e"
    using of_int_pow2 [of e] of_int_pow2 [of "- e"] powi_neg [of e]
    by (simp add: num_def den_def float_value_def)
  have product: "times_float k (Finite m e) = binary64 False num den"
    using assms(2) by (simp add: times_float_def Let_def num_def den_def)
  obtain n f where b: "binary64 False num den = Finite n f"
    using binary64_finite [OF den(2,1)] assms(3,5) ratio by metis
  show thesis
    by (rule that [OF product [unfolded b]])
      (use binary64_error(1) [OF den(2,1) b _ assms(4)] assms(3) ratio in simp)
qed

end
