(* ===== verification/Config_Properties.thy ===== *)
theory Config_Properties
  imports Bootstrap Plugin_Properties Rounding Execution_Queue
begin

text \<open>
  What the validation of the timings guarantees about the intervals the processes run with, and
  what it lets through.
\<close>

section \<open>What a process is built from\<close>

lemmas build_defs =
  build_infrastructure_def create_sqlalchemy_engine_def create_session_factory_def build_unit_of_work_factory_def
  build_execution_queue_def

lemma configured_InrD: "configured env = Inr s \<Longrightarrow> load_settings env = Inr s"
  by (auto simp: configured_def bind_result_eq_Inr_iff)

lemma build_execution_queue_InrD:
  "build_execution_queue infrastructure = Inr q \<Longrightarrow>
     q = PostgresExecutionQueue (infra_session_factory infrastructure) (set_queue_lease_timeout (infra_settings infrastructure))"
  by (simp add: build_execution_queue_def Let_def split: if_splits)

text \<open>
  Every process works on one engine, created from \<open>DATABASE_URL\<close> as it is, with connections checked
  before use and sessions that keep their objects after a commit; its unit of work factory and its
  queue share the session factory.
\<close>

definition process_infrastructure :: "'e create_engine \<Rightarrow> settings \<Rightarrow> 'e session_factory \<Rightarrow> bool" where
  "process_infrastructure create_engine s sessions \<longleftrightarrow>
     create_engine (set_database_url s) (set_echo_sql s) True = Inr (sf_bind sessions)
     \<and> \<not> sf_expire_on_commit sessions"

lemma build_infrastructure_InrD:
  "build_infrastructure create_engine s = Inr infrastructure \<Longrightarrow>
     infra_settings infrastructure = s \<and> process_infrastructure create_engine s (infra_session_factory infrastructure)"
  by (auto simp: build_infrastructure_def bind_result_eq_Inr_iff create_sqlalchemy_engine_def
      create_session_factory_def process_infrastructure_def)

lemma run_worker_InrD:
  assumes "run_worker create_engine env python worker_id = Inr (w, handlers)"
  shows "\<exists>s sessions task_reg. load_settings env = Inr s \<and> process_infrastructure create_engine s sessions
     \<and> task_registry python = Inr task_reg
     \<and> w = worker_init worker_id (PostgresExecutionQueue sessions (set_queue_lease_timeout s))
         \<lparr>tps_uow_factory = SQLAlchemyUnitOfWorkFactory sessions, tps_task_registry = task_reg\<rparr>
         (set_worker_poll_interval s) (set_worker_heartbeat_interval s)
     \<and> handlers = [SIGINT \<mapsto> worker_stop, SIGTERM \<mapsto> worker_stop]"
  using assms unfolding run_worker_def Let_def bind_result_eq_Inr_iff
  by (auto simp: register_worker_signals_def build_unit_of_work_factory_def
      dest!: configured_InrD build_infrastructure_InrD build_execution_queue_InrD)

section \<open>Accepted settings\<close>

text \<open>The floats behind the intervals of accepted settings.\<close>

lemma load_settings_InrD:
  assumes "load_settings env = Inr s"
  obtains lease poll hb sched rec where
    "validate_timing lease poll hb sched rec = Inr ()"
    "float_seconds lease = Inr (set_queue_lease_timeout s)"
    "float_seconds poll = Inr (set_worker_poll_interval s)"
    "float_seconds hb = Inr (set_worker_heartbeat_interval s)"
    "float_seconds sched = Inr (set_scheduler_poll_interval s)"
    "float_seconds rec = Inr (set_reconciliation_interval s)"
  using assms unfolding load_settings_def bind_result_eq_Inr_iff by auto

lemma validate_timing_iff:
  "validate_timing lease poll hb sched rec = Inr () \<longleftrightarrow>
     positive_float lease \<and> positive_float poll \<and> positive_float hb \<and> positive_float sched
     \<and> positive_float rec \<and> \<not> less_float lease (times_float 3 hb)"
  by (simp add: validate_timing_def)

lemma interval_nonneg: "positive_float x \<Longrightarrow> float_seconds x = Inr d \<Longrightarrow> 0 \<le> d"
  by (rule float_seconds_near)

lemma lease_at_least:
  assumes "positive_float lease" "float_seconds lease = Inr a" "positive_float hb" "float_seconds hb = Inr b"
    "\<not> less_float lease (times_float 3 hb)" "b \<le> 10 ^ 12"
  shows "3 * b - 2 \<le> a"
proof -
  obtain m e where x: "lease = Finite m e" and a: "\<bar>real_of_int a - 1000000 * float_value m e\<bar> \<le> 1 / 2 + 2 powi (- 34)"
    by (rule float_seconds_near [OF assms(1,2)])
  obtain n f where y: "hb = Finite n f" "0 < n"
    and b: "\<bar>real_of_int b - 1000000 * float_value n f\<bar> \<le> 1 / 2 + 2 powi (- 34)"
    by (rule float_seconds_near [OF assms(3,4)])
  have tiny: "(2 :: real) powi (- 34) \<le> 1 / 1000"
    by (simp add: power_int_def power_one_over)
  have "real_of_int b \<le> 1000000000000" using assms(6) by simp
  then have "1000000 * float_value n f \<le> 1000000000001" using b tiny by linarith
  then have "real_of_int 3 * float_value n f < 2 powi 22" by simp
  then obtain k g where t: "times_float 3 (Finite n f) = Finite k g"
    "\<bar>float_value k g - real_of_int 3 * float_value n f\<bar> \<le> 2 powi (22 - 54)"
    by (rule times_float_near [of 3 n f 22, rotated 2]) (use y(2) in simp_all)
  have "float_value k g \<le> float_value m e"
    using assms(5) unfolding x y(1) t(1) less_float_value by simp
  moreover have "\<bar>float_value k g - 3 * float_value n f\<bar> \<le> 1 / 4294967296" using t(2) by simp
  ultimately have "3 * (1000000 * float_value n f) - 1 / 1000 \<le> 1000000 * float_value m e" by linarith
  then have "3 * real_of_int b - 3 < real_of_int a" using a b tiny by linarith
  then show ?thesis by linarith
qed

text \<open>
  C35. A worker's lease outlives its heartbeats. A worker starts only with non-negative intervals
  that are legal \<open>timedelta\<close>s, on a PostgreSQL queue whose lease timeout is, up to the two
  microseconds that rounding costs, at least three heartbeat intervals (for heartbeats of at most
  a million seconds), whatever strings the environment holds.
\<close>

theorem worker_lease_covers_heartbeats:
  assumes "run_worker create_engine env python worker_id = Inr (w, handlers)"
  shows "\<exists>sessions lease. wrk_queue w = PostgresExecutionQueue sessions lease \<and> 0 \<le> lease
     \<and> 0 \<le> wrk_poll_interval w \<and> 0 \<le> wrk_heartbeat_interval w
     \<and> (wrk_heartbeat_interval w \<le> 10 ^ 12 \<longrightarrow> 3 * wrk_heartbeat_interval w - 2 \<le> lease)"
proof -
  obtain s sessions where s: "load_settings env = Inr s"
    and p: "wrk_queue w = PostgresExecutionQueue sessions (set_queue_lease_timeout s)"
      "wrk_poll_interval w = set_worker_poll_interval s" "wrk_heartbeat_interval w = set_worker_heartbeat_interval s"
    using run_worker_InrD [OF assms] by (auto simp: worker_init_def)
  show ?thesis
  proof (rule load_settings_InrD [OF s])
    fix lease poll hb sched rec
    assume v: "validate_timing lease poll hb sched rec = Inr ()"
      and f: "float_seconds lease = Inr (set_queue_lease_timeout s)" "float_seconds poll = Inr (set_worker_poll_interval s)"
        "float_seconds hb = Inr (set_worker_heartbeat_interval s)"
    show ?thesis
      using v f interval_nonneg lease_at_least [OF _ f(1) _ f(3)] unfolding p validate_timing_iff by blast
  qed
qed

definition plain_env :: environment where
  "plain_env = map_of [(''DATABASE_URL'', ''postgresql://db''), (''QUEUE_LEASE_TIMEOUT_SECONDS'', ''1.5'' ),
     (''WORKER_HEARTBEAT_INTERVAL_SECONDS'', '' 5e-1 '')]"

lemma plain_configured:
  "configured plain_env = Inr \<lparr>set_database_url = ''postgresql://db'', set_echo_sql = False, set_queue_type = ''postgres'',
     set_queue_lease_timeout = 1500000, set_worker_poll_interval = 1000000, set_worker_heartbeat_interval = 500000,
     set_scheduler_poll_interval = 1000000, set_reconciliation_interval = 30000000, set_api_host = ''0.0.0.0'',
     set_api_port = 8000, set_log_level = ''INFO''\<rparr>"
  by code_simp

definition registered_tasks :: "(string \<times> task_plugin) list" where
  "registered_tasks =
     [(''collect_inputs'', collect_inputs_task), (''fail'', fail_task), (''produce_value'', produce_value_task)]"

text \<open>An engine for the examples: what it was created with.\<close>

definition plain_engine :: "(string \<times> bool \<times> bool) create_engine" where
  "plain_engine database_url echo pre_ping = Inr (database_url, echo, pre_ping)"

definition plain_sessions :: "(string \<times> bool \<times> bool) session_factory" where
  "plain_sessions = \<lparr>sf_bind = (''postgresql://db'', False, True), sf_expire_on_commit = False\<rparr>"

lemma plain_worker:
  "run_worker plain_engine plain_env platform_tasks (Uuid 9) = Inr
     (worker_init (Uuid 9) (PostgresExecutionQueue plain_sessions 1500000)
        \<lparr>tps_uow_factory = SQLAlchemyUnitOfWorkFactory plain_sessions, tps_task_registry = registered_tasks\<rparr> 1000000 500000,
      register_worker_signals Map.empty)"
  by (simp add: run_worker_def plain_configured build_defs plain_engine_def plain_sessions_def
      platform_task_registry registered_tasks_def bind_result_def)

theorem worker_lease_covers_heartbeats_witness:
  "\<exists>sessions lease. PostgresExecutionQueue plain_sessions 1500000 = PostgresExecutionQueue sessions lease \<and> 0 \<le> lease
     \<and> (0 :: int) \<le> 1000000 \<and> (0 :: int) \<le> 500000
     \<and> ((500000 :: int) \<le> 10 ^ 12 \<longrightarrow> 3 * 500000 - 2 \<le> lease)"
  using worker_lease_covers_heartbeats [OF plain_worker]
  by (simp only: worker_object.simps worker_init_def)

section \<open>A configuration that is accepted and does not work\<close>

definition tiny_env :: environment where
  "tiny_env = map_of [(''DATABASE_URL'', ''postgresql://db''), (''QUEUE_LEASE_TIMEOUT_SECONDS'', ''3e-7''),
     (''WORKER_HEARTBEAT_INTERVAL_SECONDS'', ''1e-7'')]"

lemma tiny_configured:
  "configured tiny_env = Inr \<lparr>set_database_url = ''postgresql://db'', set_echo_sql = False, set_queue_type = ''postgres'',
     set_queue_lease_timeout = 0, set_worker_poll_interval = 1000000, set_worker_heartbeat_interval = 0,
     set_scheduler_poll_interval = 1000000, set_reconciliation_interval = 30000000, set_api_host = ''0.0.0.0'',
     set_api_port = 8000, set_log_level = ''INFO''\<rparr>"
  by code_simp

lemma tiny_worker:
  "run_worker plain_engine tiny_env platform_tasks worker_id = Inr
     (worker_init worker_id (PostgresExecutionQueue plain_sessions 0)
        \<lparr>tps_uow_factory = SQLAlchemyUnitOfWorkFactory plain_sessions, tps_task_registry = registered_tasks\<rparr> 1000000 0,
      register_worker_signals Map.empty)"
  by (simp add: run_worker_def tiny_configured build_defs plain_engine_def plain_sessions_def
      platform_task_registry registered_tasks_def bind_result_def)


end
