(* ===== verification/Migrations.thy ===== *)
theory Migrations
  imports Main
begin

text \<open>
  The database schema: the DDL operations the migrations use, the two migrations
  (\<open>alembic/versions/\<close>) as scripts of these operations, and the schema the mapped classes declare
  (\<open>persistence/*/model.py\<close>, \<open>execution_queue/postgres/model.py\<close>). Alembic runs a script in one
  transaction: it applies completely or fails and changes nothing.
\<close>

section \<open>Schemas\<close>

datatype column_type =
    Uuid_Type
  | String_Type
  | Boolean_Type
  | Integer_Type
  | Jsonb_Type
  | Timestamp_Type
  | Enum_Type string
  | Array_Type column_type

record column =
  col_name :: string
  col_type :: column_type
  col_nullable :: bool

record foreign_key =
  fk_columns :: "string list"
  fk_table :: string
  fk_referenced :: "string list"
  fk_cascade :: bool

record db_table =
  tab_name :: string
  tab_columns :: "column list"
  tab_primary_key :: "string list"
  tab_foreign_keys :: "foreign_key list"
  tab_uniques :: "(string \<times> string list) list"

record db_index =
  ix_name :: string
  ix_table :: string
  ix_columns :: "string list"
  ix_unique :: bool

record schema =
  sch_enums :: "(string \<times> string list) list"
  sch_tables :: "db_table list"
  sch_indexes :: "db_index list"

definition empty_schema :: schema where
  "empty_schema = \<lparr>sch_enums = [], sch_tables = [], sch_indexes = []\<rparr>"

fun enum_names :: "column_type \<Rightarrow> string list" where
  "enum_names (Enum_Type n) = [n]"
| "enum_names (Array_Type t) = enum_names t"
| "enum_names _ = []"

definition table_enums :: "db_table \<Rightarrow> string list" where
  "table_enums t = concat (map (\<lambda>c. enum_names (col_type c)) (tab_columns t))"

definition table_targets :: "db_table \<Rightarrow> string list" where
  "table_targets t = map fk_table (tab_foreign_keys t)"

definition find_table :: "string \<Rightarrow> schema \<Rightarrow> db_table option" where
  "find_table n s = find (\<lambda>t. tab_name t = n) (sch_tables s)"

definition has_columns :: "db_table \<Rightarrow> string list \<Rightarrow> bool" where
  "has_columns t cs \<longleftrightarrow> set cs \<subseteq> set (map col_name (tab_columns t))"

section \<open>DDL operations\<close>

text \<open>
  The operations as PostgreSQL performs them; \<open>None\<close> is a statement that fails. Enum types are
  created and dropped with \<open>checkfirst=True\<close>; nothing is dropped with \<open>CASCADE\<close>.
\<close>

datatype ddl =
    Create_Enum string "string list"
  | Create_Table db_table
  | Create_Index db_index
  | Drop_Index string string
  | Drop_Table string
  | Drop_Enum string

definition relation_names :: "schema \<Rightarrow> string list" where
  "relation_names s = map tab_name (sch_tables s) @ map ix_name (sch_indexes s)"

definition valid_foreign_key :: "schema \<Rightarrow> db_table \<Rightarrow> foreign_key \<Rightarrow> bool" where
  "valid_foreign_key s t fk \<longleftrightarrow>
     has_columns t (fk_columns fk)
     \<and> (case find_table (fk_table fk) s of None \<Rightarrow> False | Some u \<Rightarrow> tab_primary_key u = fk_referenced fk)"

fun run_ddl :: "ddl \<Rightarrow> schema \<Rightarrow> schema option" where
  "run_ddl (Create_Enum n values) s =
     (if n \<in> set (map fst (sch_enums s)) then Some s
      else Some (s\<lparr>sch_enums := sch_enums s @ [(n, values)]\<rparr>))"
| "run_ddl (Create_Table t) s =
     (if tab_name t \<notin> set (relation_names s) \<and> has_columns t (tab_primary_key t)
         \<and> (\<forall>n \<in> set (table_enums t). n \<in> set (map fst (sch_enums s)))
         \<and> (\<forall>fk \<in> set (tab_foreign_keys t). valid_foreign_key s t fk)
         \<and> (\<forall>(n, cs) \<in> set (tab_uniques t). has_columns t cs)
      then Some (s\<lparr>sch_tables := sch_tables s @ [t]\<rparr>) else None)"
| "run_ddl (Create_Index i) s =
     (case find_table (ix_table i) s of
        None \<Rightarrow> None
      | Some t \<Rightarrow>
          if ix_name i \<notin> set (relation_names s) \<and> has_columns t (ix_columns i)
          then Some (s\<lparr>sch_indexes := sch_indexes s @ [i]\<rparr>) else None)"
| "run_ddl (Drop_Index n table_name) s =
     (if n \<in> set (map ix_name (sch_indexes s))
      then Some (s\<lparr>sch_indexes := filter (\<lambda>i. ix_name i \<noteq> n) (sch_indexes s)\<rparr>) else None)"
| "run_ddl (Drop_Table n) s =
     (if n \<in> set (map tab_name (sch_tables s))
         \<and> (\<forall>t \<in> set (sch_tables s). tab_name t \<noteq> n \<longrightarrow> n \<notin> set (table_targets t))
      then Some (s\<lparr>sch_tables := filter (\<lambda>t. tab_name t \<noteq> n) (sch_tables s),
                   sch_indexes := filter (\<lambda>i. ix_table i \<noteq> n) (sch_indexes s)\<rparr>) else None)"
| "run_ddl (Drop_Enum n) s =
     (if \<exists>t \<in> set (sch_tables s). n \<in> set (table_enums t) then None
      else Some (s\<lparr>sch_enums := filter (\<lambda>e. fst e \<noteq> n) (sch_enums s)\<rparr>))"

fun run_script :: "ddl list \<Rightarrow> schema \<Rightarrow> schema option" where
  "run_script [] s = Some s"
| "run_script (d # ds) s = (case run_ddl d s of None \<Rightarrow> None | Some s' \<Rightarrow> run_script ds s')"

section \<open>The initial schema\<close>

definition required :: "string \<Rightarrow> column_type \<Rightarrow> column" where
  "required n ty = \<lparr>col_name = n, col_type = ty, col_nullable = False\<rparr>"

definition optional :: "string \<Rightarrow> column_type \<Rightarrow> column" where
  "optional n ty = \<lparr>col_name = n, col_type = ty, col_nullable = True\<rparr>"

text \<open>\<open>sa.ForeignKeyConstraint([column], [table.id])\<close> and \<open>op.create_index\<close> of one column.\<close>

definition references :: "string \<Rightarrow> string \<Rightarrow> foreign_key" where
  "references c t = \<lparr>fk_columns = [c], fk_table = t, fk_referenced = [''id''], fk_cascade = False\<rparr>"

definition index_on :: "string \<Rightarrow> string \<Rightarrow> string \<Rightarrow> db_index" where
  "index_on n t c = \<lparr>ix_name = n, ix_table = t, ix_columns = [c], ix_unique = False\<rparr>"

definition workflow_status_enum :: ddl where
  "workflow_status_enum = Create_Enum ''workflowstatus'' [''RUNNING'', ''COMPLETED'', ''FAILED'', ''CANCELLED'']"

definition task_status_enum :: ddl where
  "task_status_enum =
     Create_Enum ''taskstatus'' [''PENDING'', ''RUNNING'', ''COMPLETED'', ''FAILED'', ''CANCELLED'']"

definition workflow_definitions_table :: db_table where
  "workflow_definitions_table =
     \<lparr>tab_name = ''workflow_definitions'',
      tab_columns =
       [required ''id'' Uuid_Type,
        required ''name'' String_Type,
        required ''description'' String_Type,
        required ''enabled'' Boolean_Type],
      tab_primary_key = [''id''],
      tab_foreign_keys = [],
      tab_uniques = []\<rparr>"

definition task_definitions_table :: db_table where
  "task_definitions_table =
     \<lparr>tab_name = ''task_definitions'',
      tab_columns =
       [required ''id'' Uuid_Type,
        required ''workflow_definition_id'' Uuid_Type,
        required ''key'' String_Type,
        required ''plugin_type'' String_Type,
        required ''configuration'' Jsonb_Type,
        required ''max_tries'' Integer_Type],
      tab_primary_key = [''id''],
      tab_foreign_keys = [references ''workflow_definition_id'' ''workflow_definitions''],
      tab_uniques = [(''uq_task_definition_workflow_key'', [''workflow_definition_id'', ''key''])]\<rparr>"

definition trigger_definitions_table :: db_table where
  "trigger_definitions_table =
     \<lparr>tab_name = ''trigger_definitions'',
      tab_columns =
       [required ''id'' Uuid_Type,
        required ''workflow_definition_id'' Uuid_Type,
        required ''plugin_type'' String_Type,
        required ''configuration'' Jsonb_Type,
        required ''enabled'' Boolean_Type],
      tab_primary_key = [''id''],
      tab_foreign_keys = [references ''workflow_definition_id'' ''workflow_definitions''],
      tab_uniques = []\<rparr>"

definition workflow_executions_table :: db_table where
  "workflow_executions_table =
     \<lparr>tab_name = ''workflow_executions'',
      tab_columns =
       [required ''id'' Uuid_Type,
        required ''workflow_definition_id'' Uuid_Type,
        required ''status'' (Enum_Type ''workflowstatus''),
        required ''created_at'' Timestamp_Type,
        optional ''started_at'' Timestamp_Type,
        optional ''completed_at'' Timestamp_Type],
      tab_primary_key = [''id''],
      tab_foreign_keys = [references ''workflow_definition_id'' ''workflow_definitions''],
      tab_uniques = []\<rparr>"

definition chronological_trigger_state_table :: db_table where
  "chronological_trigger_state_table =
     \<lparr>tab_name = ''chronological_trigger_state'',
      tab_columns =
       [required ''trigger_definition_id'' Uuid_Type,
        required ''next_run_at'' Timestamp_Type],
      tab_primary_key = [''trigger_definition_id''],
      tab_foreign_keys = [(references ''trigger_definition_id'' ''trigger_definitions'')\<lparr>fk_cascade := True\<rparr>],
      tab_uniques = []\<rparr>"

definition task_definition_dependencies_table :: db_table where
  "task_definition_dependencies_table =
     \<lparr>tab_name = ''task_definition_dependencies'',
      tab_columns =
       [required ''task_definition_id'' Uuid_Type,
        required ''depends_on_task_definition_id'' Uuid_Type],
      tab_primary_key = [''task_definition_id'', ''depends_on_task_definition_id''],
      tab_foreign_keys = [references ''depends_on_task_definition_id'' ''task_definitions'',
        references ''task_definition_id'' ''task_definitions''],
      tab_uniques = []\<rparr>"

definition task_executions_table :: db_table where
  "task_executions_table =
     \<lparr>tab_name = ''task_executions'',
      tab_columns =
       [required ''id'' Uuid_Type,
        required ''workflow_execution_id'' Uuid_Type,
        required ''task_definition_id'' Uuid_Type,
        required ''key'' String_Type,
        required ''plugin_type'' String_Type,
        required ''configuration'' Jsonb_Type,
        required ''status'' (Enum_Type ''taskstatus''),
        required ''remaining_dependencies'' Integer_Type,
        required ''parent_task_ids'' (Array_Type Uuid_Type),
        required ''child_task_ids'' (Array_Type Uuid_Type),
        required ''remaining_tries'' Integer_Type,
        optional ''output'' Jsonb_Type,
        optional ''error_message'' String_Type,
        optional ''started_at'' Timestamp_Type,
        optional ''completed_at'' Timestamp_Type],
      tab_primary_key = [''id''],
      tab_foreign_keys = [references ''task_definition_id'' ''task_definitions'',
        references ''workflow_execution_id'' ''workflow_executions''],
      tab_uniques = []\<rparr>"

definition initial_upgrade :: "ddl list" where
  "initial_upgrade =
     [workflow_status_enum,
      task_status_enum,
      Create_Table workflow_definitions_table,
      Create_Table task_definitions_table,
      Create_Index (index_on ''ix_task_definitions_workflow_definition_id'' ''task_definitions'' ''workflow_definition_id''),
      Create_Table trigger_definitions_table,
      Create_Index (index_on ''ix_trigger_definitions_workflow_definition_id'' ''trigger_definitions'' ''workflow_definition_id''),
      Create_Table workflow_executions_table,
      Create_Index (index_on ''ix_workflow_executions_workflow_definition_id'' ''workflow_executions'' ''workflow_definition_id''),
      Create_Table chronological_trigger_state_table,
      Create_Index (index_on ''ix_chronological_trigger_state_next_run_at'' ''chronological_trigger_state'' ''next_run_at''),
      Create_Table task_definition_dependencies_table,
      Create_Table task_executions_table,
      Create_Index (index_on ''ix_task_executions_task_definition_id'' ''task_executions'' ''task_definition_id''),
      Create_Index (index_on ''ix_task_executions_workflow_execution_id'' ''task_executions'' ''workflow_execution_id'')]"

definition initial_downgrade :: "ddl list" where
  "initial_downgrade =
     [Drop_Index ''ix_task_executions_workflow_execution_id'' ''task_executions'',
      Drop_Index ''ix_task_executions_task_definition_id'' ''task_executions'',
      Drop_Table ''task_executions'',
      Drop_Table ''task_definition_dependencies'',
      Drop_Index ''ix_chronological_trigger_state_next_run_at'' ''chronological_trigger_state'',
      Drop_Table ''chronological_trigger_state'',
      Drop_Index ''ix_workflow_executions_workflow_definition_id'' ''workflow_executions'',
      Drop_Table ''workflow_executions'',
      Drop_Index ''ix_trigger_definitions_workflow_definition_id'' ''trigger_definitions'',
      Drop_Table ''trigger_definitions'',
      Drop_Index ''ix_task_definitions_workflow_definition_id'' ''task_definitions'',
      Drop_Table ''task_definitions'',
      Drop_Table ''workflow_definitions'',
      Drop_Enum ''taskstatus'',
      Drop_Enum ''workflowstatus'']"

section \<open>The execution queue\<close>

definition execution_queue_table :: db_table where
  "execution_queue_table =
     \<lparr>tab_name = ''execution_queue'',
      tab_columns =
       [required ''task_execution_id'' Uuid_Type,
        optional ''claim_token'' Uuid_Type,
        optional ''claimed_by'' Uuid_Type,
        required ''queued_at'' Timestamp_Type,
        optional ''claimed_at'' Timestamp_Type,
        optional ''last_heartbeat'' Timestamp_Type],
      tab_primary_key = [''task_execution_id''],
      tab_foreign_keys = [],
      tab_uniques = []\<rparr>"

definition queue_upgrade :: "ddl list" where
  "queue_upgrade =
     [Create_Table execution_queue_table,
      Create_Index (index_on ''ix_execution_queue_claimed_by'' ''execution_queue'' ''claimed_by''),
      Create_Index (index_on ''ix_execution_queue_last_heartbeat'' ''execution_queue'' ''last_heartbeat''),
      Create_Index (index_on ''ix_execution_queue_queued_at'' ''execution_queue'' ''queued_at'')]"

definition queue_downgrade :: "ddl list" where
  "queue_downgrade =
     [Drop_Index ''ix_execution_queue_queued_at'' ''execution_queue'',
      Drop_Index ''ix_execution_queue_last_heartbeat'' ''execution_queue'',
      Drop_Index ''ix_execution_queue_claimed_by'' ''execution_queue'',
      Drop_Table ''execution_queue'']"

section \<open>The schema of the mapped classes\<close>

text \<open>
  A mapped column: its attribute name, its SQL type if \<open>mapped_column\<close> gives one, whether the
  annotation allows \<open>None\<close>, what \<open>nullable\<close> says, and its options. SQLAlchemy takes the nullability
  from \<open>nullable\<close>, from the primary key, and else from the annotation; a column with a foreign key
  and no type has the type of the column it references, a \<open>UUID\<close> here; an index of a column is
  named after table and column, an enum type after its class.
\<close>

record mapped_column =
  mc_name :: string
  mc_type :: "column_type option"
  mc_optional :: bool
  mc_nullable :: "bool option"
  mc_primary_key :: bool
  mc_foreign_key :: "(string \<times> bool) option"
  mc_index :: bool

record mapped_class =
  mpd_table :: string
  mpd_columns :: "mapped_column list"
  mpd_uniques :: "(string \<times> string list) list"

definition mapped :: "string \<Rightarrow> column_type option \<Rightarrow> mapped_column" where
  "mapped n ty = \<lparr>mc_name = n, mc_type = ty, mc_optional = False, mc_nullable = None,
     mc_primary_key = False, mc_foreign_key = None, mc_index = False\<rparr>"

definition mapped_table :: "mapped_class \<Rightarrow> db_table" where
  "mapped_table m =
     \<lparr>tab_name = mpd_table m,
      tab_columns = map (\<lambda>c. \<lparr>col_name = mc_name c,
          col_type = (case mc_type c of Some ty \<Rightarrow> ty | None \<Rightarrow> Uuid_Type),
          col_nullable = (case mc_nullable c of Some b \<Rightarrow> b
                          | None \<Rightarrow> \<not> mc_primary_key c \<and> mc_optional c)\<rparr>) (mpd_columns m),
      tab_primary_key = map mc_name (filter mc_primary_key (mpd_columns m)),
      tab_foreign_keys = concat (map (\<lambda>c. case mc_foreign_key c of
          None \<Rightarrow> []
        | Some (t, cascade) \<Rightarrow> [\<lparr>fk_columns = [mc_name c], fk_table = t, fk_referenced = [''id''],
                                 fk_cascade = cascade\<rparr>]) (mpd_columns m)),
      tab_uniques = mpd_uniques m\<rparr>"

definition mapped_indexes :: "mapped_class \<Rightarrow> db_index list" where
  "mapped_indexes m = map (\<lambda>c. index_on (''ix_'' @ mpd_table m @ ''_'' @ mc_name c) (mpd_table m) (mc_name c))
     (filter mc_index (mpd_columns m))"

definition workflow_definition_model :: mapped_class where
  "workflow_definition_model =
     \<lparr>mpd_table = ''workflow_definitions'',
      mpd_columns =
       [(mapped ''id'' (Some Uuid_Type))\<lparr>mc_primary_key := True\<rparr>,
        (mapped ''name'' (Some String_Type))\<lparr>mc_nullable := Some False\<rparr>,
        (mapped ''description'' (Some String_Type))\<lparr>mc_nullable := Some False\<rparr>,
        (mapped ''enabled'' (Some Boolean_Type))\<lparr>mc_nullable := Some False\<rparr>],
      mpd_uniques = []\<rparr>"

definition task_definition_model :: mapped_class where
  "task_definition_model =
     \<lparr>mpd_table = ''task_definitions'',
      mpd_columns =
       [(mapped ''id'' (Some Uuid_Type))\<lparr>mc_primary_key := True\<rparr>,
        (mapped ''workflow_definition_id'' None)\<lparr>mc_nullable := Some False, mc_foreign_key := Some (''workflow_definitions'', False), mc_index := True\<rparr>,
        (mapped ''key'' (Some String_Type))\<lparr>mc_nullable := Some False\<rparr>,
        (mapped ''plugin_type'' (Some String_Type))\<lparr>mc_nullable := Some False\<rparr>,
        (mapped ''configuration'' (Some Jsonb_Type))\<lparr>mc_nullable := Some False\<rparr>,
        (mapped ''max_tries'' (Some Integer_Type))\<lparr>mc_nullable := Some False\<rparr>],
      mpd_uniques = [(''uq_task_definition_workflow_key'', [''workflow_definition_id'', ''key''])]\<rparr>"

definition task_definition_dependency_model :: mapped_class where
  "task_definition_dependency_model =
     \<lparr>mpd_table = ''task_definition_dependencies'',
      mpd_columns =
       [(mapped ''task_definition_id'' None)\<lparr>mc_primary_key := True, mc_foreign_key := Some (''task_definitions'', False)\<rparr>,
        (mapped ''depends_on_task_definition_id'' None)\<lparr>mc_primary_key := True, mc_foreign_key := Some (''task_definitions'', False)\<rparr>],
      mpd_uniques = []\<rparr>"

definition trigger_definition_model :: mapped_class where
  "trigger_definition_model =
     \<lparr>mpd_table = ''trigger_definitions'',
      mpd_columns =
       [(mapped ''id'' (Some Uuid_Type))\<lparr>mc_primary_key := True\<rparr>,
        (mapped ''workflow_definition_id'' None)\<lparr>mc_nullable := Some False, mc_foreign_key := Some (''workflow_definitions'', False), mc_index := True\<rparr>,
        (mapped ''plugin_type'' (Some String_Type))\<lparr>mc_nullable := Some False\<rparr>,
        (mapped ''configuration'' (Some Jsonb_Type))\<lparr>mc_nullable := Some False\<rparr>,
        (mapped ''enabled'' (Some Boolean_Type))\<lparr>mc_nullable := Some False\<rparr>],
      mpd_uniques = []\<rparr>"

definition chronological_trigger_state_model :: mapped_class where
  "chronological_trigger_state_model =
     \<lparr>mpd_table = ''chronological_trigger_state'',
      mpd_columns =
       [(mapped ''trigger_definition_id'' (Some Uuid_Type))\<lparr>mc_primary_key := True, mc_foreign_key := Some (''trigger_definitions'', True)\<rparr>,
        (mapped ''next_run_at'' (Some Timestamp_Type))\<lparr>mc_nullable := Some False, mc_index := True\<rparr>],
      mpd_uniques = []\<rparr>"

definition workflow_execution_model :: mapped_class where
  "workflow_execution_model =
     \<lparr>mpd_table = ''workflow_executions'',
      mpd_columns =
       [(mapped ''id'' (Some Uuid_Type))\<lparr>mc_primary_key := True\<rparr>,
        (mapped ''workflow_definition_id'' None)\<lparr>mc_nullable := Some False, mc_foreign_key := Some (''workflow_definitions'', False), mc_index := True\<rparr>,
        (mapped ''status'' (Some (Enum_Type ''workflowstatus'')))\<lparr>mc_nullable := Some False\<rparr>,
        (mapped ''created_at'' (Some Timestamp_Type))\<lparr>mc_nullable := Some False\<rparr>,
        (mapped ''started_at'' (Some Timestamp_Type))\<lparr>mc_optional := True\<rparr>,
        (mapped ''completed_at'' (Some Timestamp_Type))\<lparr>mc_optional := True\<rparr>],
      mpd_uniques = []\<rparr>"

definition task_execution_model :: mapped_class where
  "task_execution_model =
     \<lparr>mpd_table = ''task_executions'',
      mpd_columns =
       [(mapped ''id'' (Some Uuid_Type))\<lparr>mc_primary_key := True\<rparr>,
        (mapped ''workflow_execution_id'' None)\<lparr>mc_nullable := Some False, mc_foreign_key := Some (''workflow_executions'', False), mc_index := True\<rparr>,
        (mapped ''task_definition_id'' None)\<lparr>mc_nullable := Some False, mc_foreign_key := Some (''task_definitions'', False), mc_index := True\<rparr>,
        (mapped ''key'' (Some String_Type))\<lparr>mc_nullable := Some False\<rparr>,
        (mapped ''plugin_type'' (Some String_Type))\<lparr>mc_nullable := Some False\<rparr>,
        (mapped ''configuration'' (Some Jsonb_Type))\<lparr>mc_nullable := Some False\<rparr>,
        (mapped ''status'' (Some (Enum_Type ''taskstatus'')))\<lparr>mc_nullable := Some False\<rparr>,
        (mapped ''remaining_dependencies'' (Some Integer_Type))\<lparr>mc_nullable := Some False\<rparr>,
        (mapped ''parent_task_ids'' (Some (Array_Type Uuid_Type)))\<lparr>mc_nullable := Some False\<rparr>,
        (mapped ''child_task_ids'' (Some (Array_Type Uuid_Type)))\<lparr>mc_nullable := Some False\<rparr>,
        (mapped ''remaining_tries'' (Some Integer_Type))\<lparr>mc_nullable := Some False\<rparr>,
        (mapped ''output'' (Some Jsonb_Type))\<lparr>mc_optional := True\<rparr>,
        (mapped ''error_message'' (Some String_Type))\<lparr>mc_optional := True\<rparr>,
        (mapped ''started_at'' (Some Timestamp_Type))\<lparr>mc_optional := True\<rparr>,
        (mapped ''completed_at'' (Some Timestamp_Type))\<lparr>mc_optional := True\<rparr>],
      mpd_uniques = []\<rparr>"

definition queue_entry_model :: mapped_class where
  "queue_entry_model =
     \<lparr>mpd_table = ''execution_queue'',
      mpd_columns =
       [(mapped ''task_execution_id'' (Some Uuid_Type))\<lparr>mc_primary_key := True\<rparr>,
        (mapped ''claim_token'' (Some Uuid_Type))\<lparr>mc_optional := True\<rparr>,
        (mapped ''claimed_by'' (Some Uuid_Type))\<lparr>mc_optional := True, mc_index := True\<rparr>,
        (mapped ''queued_at'' (Some Timestamp_Type))\<lparr>mc_nullable := Some False, mc_index := True\<rparr>,
        (mapped ''claimed_at'' (Some Timestamp_Type))\<lparr>mc_optional := True\<rparr>,
        (mapped ''last_heartbeat'' (Some Timestamp_Type))\<lparr>mc_optional := True, mc_index := True\<rparr>],
      mpd_uniques = []\<rparr>"

definition orm_classes :: "mapped_class list" where
  "orm_classes = [workflow_definition_model, task_definition_model, task_definition_dependency_model,
     trigger_definition_model, chronological_trigger_state_model, workflow_execution_model,
     task_execution_model, queue_entry_model]"

text \<open>The metadata; an enum type holds the names of the members of its class.\<close>

definition orm_schema :: schema where
  "orm_schema =
     \<lparr>sch_enums = [(''workflowstatus'', [''RUNNING'', ''COMPLETED'', ''FAILED'', ''CANCELLED'']),
        (''taskstatus'', [''PENDING'', ''RUNNING'', ''COMPLETED'', ''FAILED'', ''CANCELLED''])],
      sch_tables = map mapped_table orm_classes,
      sch_indexes = concat (map mapped_indexes orm_classes)\<rparr>"

text \<open>The same schema, in whatever order tables, foreign keys and indexes were created.\<close>

definition same_table :: "db_table \<Rightarrow> db_table \<Rightarrow> bool" where
  "same_table t u \<longleftrightarrow> t\<lparr>tab_foreign_keys := []\<rparr> = u\<lparr>tab_foreign_keys := []\<rparr>
     \<and> set (tab_foreign_keys t) = set (tab_foreign_keys u)"

definition same_schema :: "schema \<Rightarrow> schema \<Rightarrow> bool" where
  "same_schema s r \<longleftrightarrow>
     set (sch_enums s) = set (sch_enums r) \<and> set (sch_indexes s) = set (sch_indexes r)
     \<and> list_all (\<lambda>t. list_ex (same_table t) (sch_tables r)) (sch_tables s)
     \<and> list_all (\<lambda>u. list_ex (\<lambda>t. same_table t u) (sch_tables s)) (sch_tables r)"

end
