(* ===== verification/Schema_Properties.thy ===== *)
theory Schema_Properties
  imports Migrations
begin

text \<open>
  The migrations fit the mapped classes and undo themselves. DDL operations are local: what a
  schema holds besides the names an operation mentions neither changes nor matters, so it is enough
  to run the scripts on an empty schema.
\<close>

section \<open>Locality of DDL operations\<close>

definition extend :: "schema \<Rightarrow> schema \<Rightarrow> schema" where
  "extend s d = \<lparr>sch_enums = sch_enums s @ sch_enums d, sch_tables = sch_tables s @ sch_tables d,
                 sch_indexes = sch_indexes s @ sch_indexes d\<rparr>"

definition table_names :: "db_table \<Rightarrow> string list" where
  "table_names t = tab_name t # table_targets t @ table_enums t"

definition mentioned :: "schema \<Rightarrow> string set" where
  "mentioned s = fst ` set (sch_enums s) \<union> (\<Union>t \<in> set (sch_tables s). set (table_names t))
     \<union> ix_name ` set (sch_indexes s) \<union> ix_table ` set (sch_indexes s)"

fun ddl_names :: "ddl \<Rightarrow> string list" where
  "ddl_names (Create_Enum n values) = [n]"
| "ddl_names (Create_Table t) = table_names t"
| "ddl_names (Create_Index i) = [ix_name i, ix_table i]"
| "ddl_names (Drop_Index n table_name) = [n]"
| "ddl_names (Drop_Table n) = [n]"
| "ddl_names (Drop_Enum n) = [n]"

definition script_names :: "ddl list \<Rightarrow> string set" where
  "script_names ds = set (concat (map ddl_names ds))"

lemma extend_simps [simp]:
  "sch_enums (extend s d) = sch_enums s @ sch_enums d"
  "sch_tables (extend s d) = sch_tables s @ sch_tables d"
  "sch_indexes (extend s d) = sch_indexes s @ sch_indexes d"
  by (simp_all add: extend_def)

lemma extend_empty [simp]: "extend s empty_schema = s"
  by (simp add: extend_def empty_schema_def)

lemma extend_updates:
  "(extend s d)\<lparr>sch_enums := sch_enums s @ es\<rparr> = extend s (d\<lparr>sch_enums := es\<rparr>)"
  "(extend s d)\<lparr>sch_tables := sch_tables s @ ts\<rparr> = extend s (d\<lparr>sch_tables := ts\<rparr>)"
  "(extend s d)\<lparr>sch_indexes := sch_indexes s @ ixs\<rparr> = extend s (d\<lparr>sch_indexes := ixs\<rparr>)"
  by (simp_all add: extend_def)

text \<open>What a schema that does not mention a name says of that name.\<close>

lemma unmentioned:
  assumes "n \<notin> mentioned s"
  shows "n \<notin> fst ` set (sch_enums s)" "n \<notin> tab_name ` set (sch_tables s)"
    "t \<in> set (sch_tables s) \<Longrightarrow> n \<notin> set (table_targets t)" "t \<in> set (sch_tables s) \<Longrightarrow> n \<notin> set (table_enums t)"
    "n \<notin> ix_name ` set (sch_indexes s)" "n \<notin> ix_table ` set (sch_indexes s)"
  using assms by (auto simp: mentioned_def table_names_def)

lemma find_append_none: "(\<And>x. x \<in> set xs \<Longrightarrow> \<not> P x) \<Longrightarrow> find P (xs @ ys) = find P ys"
  by (induction xs) simp_all

lemma find_table_extend: "n \<notin> mentioned s \<Longrightarrow> find_table n (extend s d) = find_table n d"
  unfolding find_table_def extend_simps by (rule find_append_none) (use unmentioned(2) in blast)

lemma relation_names_extend:
  "n \<notin> mentioned s \<Longrightarrow> n \<in> set (relation_names (extend s d)) \<longleftrightarrow> n \<in> set (relation_names d)"
  using unmentioned(2,5) by (auto simp: relation_names_def)

lemma filter_extend:
  "(\<And>x. x \<in> set xs \<Longrightarrow> P x) \<Longrightarrow> filter P (xs @ ys) = xs @ filter P ys"
  by (simp add: filter_id_conv)

lemma run_ddl_extend:
  assumes apart: "set (ddl_names stmt) \<inter> mentioned s = {}"
  shows "run_ddl stmt (extend s d) = map_option (extend s) (run_ddl stmt d)"
proof (cases stmt)
  case (Create_Enum n vs)
  then have "n \<notin> mentioned s" using apart by simp
  then show ?thesis using unmentioned(1) by (auto simp: Create_Enum extend_updates)
next
  case (Create_Table t)
  then have names: "n \<notin> mentioned s" if "n \<in> set (table_names t)" for n using apart that by auto
  then have enums: "(\<forall>n \<in> set (table_enums t). n \<in> set (map fst (sch_enums (extend s d)))) \<longleftrightarrow>
      (\<forall>n \<in> set (table_enums t). n \<in> set (map fst (sch_enums d)))"
    using unmentioned(1) by (auto simp: table_names_def)
  have keys: "(\<forall>fk \<in> set (tab_foreign_keys t). valid_foreign_key (extend s d) t fk) \<longleftrightarrow>
      (\<forall>fk \<in> set (tab_foreign_keys t). valid_foreign_key d t fk)"
    using names by (intro ball_cong refl)
      (simp add: valid_foreign_key_def find_table_extend table_names_def table_targets_def)
  have "tab_name t \<in> set (relation_names (extend s d)) \<longleftrightarrow> tab_name t \<in> set (relation_names d)"
    by (rule relation_names_extend) (simp add: names table_names_def)
  then show ?thesis
    unfolding Create_Table run_ddl.simps enums keys by (simp add: extend_updates)
next
  case (Create_Index i)
  then have "ix_name i \<notin> mentioned s" "ix_table i \<notin> mentioned s" using apart by auto
  then show ?thesis
    by (simp add: Create_Index find_table_extend relation_names_extend extend_updates split: option.split)
next
  case (Drop_Index n table_name)
  then have n: "n \<notin> ix_name ` set (sch_indexes s)" using apart unmentioned(5) by simp
  then have "filter (\<lambda>i. ix_name i \<noteq> n) (sch_indexes s @ ixs) = sch_indexes s @ filter (\<lambda>i. ix_name i \<noteq> n) ixs" for ixs
    by (intro filter_extend) auto
  then show ?thesis using n by (simp add: Drop_Index extend_updates del: filter_append)
next
  case (Drop_Table n)
  then have n: "n \<notin> tab_name ` set (sch_tables s)" "n \<notin> ix_table ` set (sch_indexes s)"
    "\<forall>t \<in> set (sch_tables s). n \<notin> set (table_targets t)"
    using apart unmentioned(2,3,6) by simp_all
  then have "filter (\<lambda>t. tab_name t \<noteq> n) (sch_tables s @ ts) = sch_tables s @ filter (\<lambda>t. tab_name t \<noteq> n) ts"
    "filter (\<lambda>i. ix_table i \<noteq> n) (sch_indexes s @ ixs) = sch_indexes s @ filter (\<lambda>i. ix_table i \<noteq> n) ixs" for ts ixs
    by (intro filter_extend; auto)+
  then show ?thesis using n by (auto simp: Drop_Table extend_def simp del: filter_append)
next
  case (Drop_Enum n)
  then have n: "n \<notin> fst ` set (sch_enums s)" "\<forall>t \<in> set (sch_tables s). n \<notin> set (table_enums t)"
    using apart unmentioned(1,4) by simp_all
  then have "filter (\<lambda>e. fst e \<noteq> n) (sch_enums s @ es) = sch_enums s @ filter (\<lambda>e. fst e \<noteq> n) es" for es
    by (intro filter_extend) auto
  then show ?thesis using n by (auto simp: Drop_Enum extend_updates simp del: filter_append)
qed

lemma run_script_extend:
  assumes "script_names ds \<inter> mentioned s = {}"
  shows "run_script ds (extend s d) = map_option (extend s) (run_script ds d)"
  using assms
proof (induction ds arbitrary: d)
  case Nil
  then show ?case by simp
next
  case (Cons stmt ds)
  then have "set (ddl_names stmt) \<inter> mentioned s = {}" "script_names ds \<inter> mentioned s = {}"
    by (auto simp: script_names_def)
  then show ?case using Cons.IH run_ddl_extend by (simp split: option.split)
qed

section \<open>The two migrations\<close>

lemma run_script_append:
  "run_script (ds @ es) s = (case run_script ds s of None \<Rightarrow> None | Some s' \<Rightarrow> run_script es s')"
  by (induction ds arbitrary: s) (simp_all split: option.split)

definition initial_schema :: schema where
  "initial_schema = the (run_script initial_upgrade empty_schema)"

definition queue_schema :: schema where
  "queue_schema = the (run_script queue_upgrade initial_schema)"

lemma migrations_from_empty:
  "run_script initial_upgrade empty_schema = Some initial_schema"
  "run_script queue_upgrade initial_schema = Some queue_schema"
  "run_script queue_downgrade queue_schema = Some initial_schema"
  "run_script initial_downgrade initial_schema = Some empty_schema"
  by code_simp+

lemma script_names_append: "script_names (ds @ es) = script_names ds \<union> script_names es"
  by (simp add: script_names_def)

lemma downgrade_names:
  "script_names queue_downgrade \<subseteq> script_names queue_upgrade"
  "script_names initial_downgrade \<subseteq> script_names initial_upgrade"
  by code_simp+

text \<open>
  C38. Migrations are reversible. On any schema that does not use the names of the platform, both
  upgrades succeed in order, each downgrade restores exactly the schema its upgrade started from,
  and undoing both leaves what was there before.
\<close>

theorem migrations_reversible:
  assumes "script_names (initial_upgrade @ queue_upgrade) \<inter> mentioned s = {}"
  shows "\<exists>s1 s2. run_script initial_upgrade s = Some s1 \<and> run_script queue_upgrade s1 = Some s2
     \<and> run_script queue_downgrade s2 = Some s1 \<and> run_script initial_downgrade s1 = Some s"
proof -
  have apart: "script_names initial_upgrade \<inter> mentioned s = {}" "script_names queue_upgrade \<inter> mentioned s = {}"
    "script_names initial_downgrade \<inter> mentioned s = {}" "script_names queue_downgrade \<inter> mentioned s = {}"
    using assms downgrade_names unfolding script_names_append by blast+
  have "run_script initial_upgrade s = Some (extend s initial_schema)"
    using run_script_extend [OF apart(1), of empty_schema] by (simp add: migrations_from_empty)
  moreover have "run_script queue_upgrade (extend s initial_schema) = Some (extend s queue_schema)"
    using run_script_extend [OF apart(2), of initial_schema] by (simp add: migrations_from_empty)
  moreover have "run_script queue_downgrade (extend s queue_schema) = Some (extend s initial_schema)"
    using run_script_extend [OF apart(4), of queue_schema] by (simp add: migrations_from_empty)
  moreover have "run_script initial_downgrade (extend s initial_schema) = Some s"
    using run_script_extend [OF apart(3), of initial_schema] by (simp add: migrations_from_empty)
  ultimately show ?thesis by blast
qed

text \<open>A schema with a table of another application.\<close>

definition foreign_schema :: schema where
  "foreign_schema = \<lparr>sch_enums = [], sch_tables = [\<lparr>tab_name = ''audit_log'',
      tab_columns = [required ''id'' Uuid_Type, required ''entry'' String_Type], tab_primary_key = [''id''],
      tab_foreign_keys = [], tab_uniques = []\<rparr>], sch_indexes = [index_on ''ix_audit_log_entry'' ''audit_log'' ''entry'']\<rparr>"

theorem migrations_reversible_witness:
  "\<exists>s1 s2. run_script initial_upgrade foreign_schema = Some s1 \<and> run_script queue_upgrade s1 = Some s2
     \<and> run_script queue_downgrade s2 = Some s1 \<and> run_script initial_downgrade s1 = Some foreign_schema"
  by (rule migrations_reversible) code_simp


end
