(* ===== verification/Schema_Conformance.thy ===== *)
theory Schema_Conformance
  imports Walkthrough Schema_Properties
begin

text \<open>
  What the tables hold fits the schema the migrations create: the constraints of the DDL (columns,
  types, \<open>NOT NULL\<close>, enum labels, primary keys, unique constraints, foreign keys) are evaluated on
  the rows of the platform. The statements of \<open>Database\<close> check some of them when they insert; that all
  of them hold in every reachable state also rests on what updates and deletions leave behind.
\<close>

section \<open>Rows as the database stores them\<close>

datatype sql_value =
    Sql_Null
  | Sql_Uuid uuid
  | Sql_String string
  | Sql_Boolean bool
  | Sql_Integer int
  | Sql_Jsonb json_object
  | Sql_Timestamp datetime
  | Sql_Label string
  | Sql_Array "sql_value list"

type_synonym sql_row = "(string \<times> sql_value) list"

text \<open>\<open>None\<close> is stored as a null; for \<open>output\<close>, SQL and JSON null are not distinguished.\<close>

definition sql_option :: "('a \<Rightarrow> sql_value) \<Rightarrow> 'a option \<Rightarrow> sql_value" where
  "sql_option f x = (case x of None \<Rightarrow> Sql_Null | Some y \<Rightarrow> f y)"

text \<open>SQLAlchemy stores an enum member under its name.\<close>

fun workflow_label :: "workflow_status \<Rightarrow> string" where
  "workflow_label WfRunning = ''RUNNING''"
| "workflow_label WfCompleted = ''COMPLETED''"
| "workflow_label WfFailed = ''FAILED''"
| "workflow_label WfCancelled = ''CANCELLED''"

fun task_label :: "task_status \<Rightarrow> string" where
  "task_label Pending = ''PENDING''"
| "task_label Running = ''RUNNING''"
| "task_label Completed = ''COMPLETED''"
| "task_label Failed = ''FAILED''"
| "task_label Cancelled = ''CANCELLED''"

definition sql_workflow_definition :: "workflow_definition_row \<Rightarrow> sql_row" where
  "sql_workflow_definition w =
     [(''id'', Sql_Uuid (wdr_id w)), (''name'', Sql_String (wdr_name w)),
      (''description'', Sql_String (wdr_description w)), (''enabled'', Sql_Boolean (wdr_enabled w))]"

definition sql_task_definition :: "task_definition_row \<Rightarrow> sql_row" where
  "sql_task_definition t =
     [(''id'', Sql_Uuid (tdr_id t)), (''workflow_definition_id'', Sql_Uuid (tdr_workflow_definition_id t)),
      (''key'', Sql_String (tdr_key t)), (''plugin_type'', Sql_String (tdr_plugin_type t)),
      (''configuration'', Sql_Jsonb (tdr_configuration t)), (''max_tries'', Sql_Integer (tdr_max_tries t))]"

definition sql_dependency :: "dependency_row \<Rightarrow> sql_row" where
  "sql_dependency d =
     [(''task_definition_id'', Sql_Uuid (dep_task_definition_id d)),
      (''depends_on_task_definition_id'', Sql_Uuid (dep_depends_on d))]"

definition sql_trigger_definition :: "trigger_definition_row \<Rightarrow> sql_row" where
  "sql_trigger_definition t =
     [(''id'', Sql_Uuid (trr_id t)), (''workflow_definition_id'', Sql_Uuid (trr_workflow_definition_id t)),
      (''plugin_type'', Sql_String (trr_plugin_type t)), (''configuration'', Sql_Jsonb (trr_configuration t)),
      (''enabled'', Sql_Boolean (trr_enabled t))]"

definition sql_trigger_state :: "trigger_state_row \<Rightarrow> sql_row" where
  "sql_trigger_state s =
     [(''trigger_definition_id'', Sql_Uuid (cts_trigger_definition_id s)),
      (''next_run_at'', Sql_Timestamp (cts_next_run_at s))]"

definition sql_workflow :: "workflow_row \<Rightarrow> sql_row" where
  "sql_workflow w =
     [(''id'', Sql_Uuid (w_id w)), (''workflow_definition_id'', Sql_Uuid (w_workflow_definition_id w)),
      (''status'', Sql_Label (workflow_label (w_status w))), (''created_at'', Sql_Timestamp (w_created_at w)),
      (''started_at'', sql_option Sql_Timestamp (w_started_at w)),
      (''completed_at'', sql_option Sql_Timestamp (w_completed_at w))]"

definition sql_task :: "task_row \<Rightarrow> sql_row" where
  "sql_task t =
     [(''id'', Sql_Uuid (t_id t)), (''workflow_execution_id'', Sql_Uuid (t_workflow_execution_id t)),
      (''task_definition_id'', Sql_Uuid (t_task_definition_id t)), (''key'', Sql_String (t_key t)),
      (''plugin_type'', Sql_String (t_plugin_type t)), (''configuration'', Sql_Jsonb (t_configuration t)),
      (''status'', Sql_Label (task_label (t_status t))),
      (''remaining_dependencies'', Sql_Integer (t_remaining_dependencies t)),
      (''parent_task_ids'', Sql_Array (map Sql_Uuid (t_parent_task_ids t))),
      (''child_task_ids'', Sql_Array (map Sql_Uuid (t_child_task_ids t))),
      (''remaining_tries'', Sql_Integer (t_remaining_tries t)),
      (''output'', sql_option Sql_Jsonb (t_output t)), (''error_message'', sql_option Sql_String (t_error_message t)),
      (''started_at'', sql_option Sql_Timestamp (t_started_at t)),
      (''completed_at'', sql_option Sql_Timestamp (t_completed_at t))]"

definition sql_queue_entry :: "queue_entry \<Rightarrow> sql_row" where
  "sql_queue_entry e =
     [(''task_execution_id'', Sql_Uuid (qe_task_execution_id e)),
      (''claim_token'', sql_option Sql_Uuid (qe_claim_token e)),
      (''claimed_by'', sql_option Sql_Uuid (qe_claimed_by e)), (''queued_at'', Sql_Timestamp (qe_queued_at e)),
      (''claimed_at'', sql_option Sql_Timestamp (qe_claimed_at e)),
      (''last_heartbeat'', sql_option Sql_Timestamp (qe_last_heartbeat e))]"

definition stored_rows :: "database \<Rightarrow> queue_table \<Rightarrow> string \<Rightarrow> sql_row list" where
  "stored_rows db q name =
     (if name = ''workflow_definitions'' then map sql_workflow_definition (workflow_definitions db)
      else if name = ''task_definitions'' then map sql_task_definition (task_definitions db)
      else if name = ''task_definition_dependencies'' then map sql_dependency (task_definition_dependencies db)
      else if name = ''trigger_definitions'' then map sql_trigger_definition (trigger_definitions db)
      else if name = ''chronological_trigger_state'' then map sql_trigger_state (chronological_trigger_state db)
      else if name = ''workflow_executions'' then map sql_workflow (workflow_executions db)
      else if name = ''task_executions'' then map sql_task (task_executions db)
      else if name = ''execution_queue'' then map sql_queue_entry q
      else [])"

section \<open>Constraints\<close>

fun has_type :: "schema \<Rightarrow> column_type \<Rightarrow> sql_value \<Rightarrow> bool" where
  "has_type s Uuid_Type (Sql_Uuid u) = True"
| "has_type s String_Type (Sql_String x) = True"
| "has_type s Boolean_Type (Sql_Boolean b) = True"
| "has_type s Integer_Type (Sql_Integer n) = int4 n"
| "has_type s Jsonb_Type (Sql_Jsonb j) = True"
| "has_type s Timestamp_Type (Sql_Timestamp t) = True"
| "has_type s (Enum_Type n) (Sql_Label l) =
     (case map_of (sch_enums s) n of None \<Rightarrow> False | Some labels \<Rightarrow> l \<in> set labels)"
| "has_type s (Array_Type ty) (Sql_Array vs) = list_all (has_type s ty) vs"
| "has_type s _ _ = False"

definition column_fits :: "schema \<Rightarrow> column \<Rightarrow> sql_value \<Rightarrow> bool" where
  "column_fits s c v \<longleftrightarrow> (if v = Sql_Null then col_nullable c else has_type s (col_type c) v)"

definition row_fits :: "schema \<Rightarrow> db_table \<Rightarrow> sql_row \<Rightarrow> bool" where
  "row_fits s t row \<longleftrightarrow>
     map fst row = map col_name (tab_columns t)
     \<and> list_all2 (column_fits s) (tab_columns t) (map snd row)"

definition project :: "string list \<Rightarrow> sql_row \<Rightarrow> sql_value option list" where
  "project cs row = map (map_of row) cs"

definition table_fits :: "schema \<Rightarrow> (string \<Rightarrow> sql_row list) \<Rightarrow> db_table \<Rightarrow> bool" where
  "table_fits s contents t \<longleftrightarrow>
     list_all (row_fits s t) (contents (tab_name t))
     \<and> distinct (map (project (tab_primary_key t)) (contents (tab_name t)))
     \<and> list_all (\<lambda>(n, cs). distinct (map (project cs) (contents (tab_name t)))) (tab_uniques t)
     \<and> list_all (\<lambda>fk. set (map (project (fk_columns fk)) (contents (tab_name t)))
                        \<subseteq> set (map (project (fk_referenced fk)) (contents (fk_table fk)))) (tab_foreign_keys t)"

definition contents_fit :: "schema \<Rightarrow> (string \<Rightarrow> sql_row list) \<Rightarrow> bool" where
  "contents_fit s contents \<longleftrightarrow> list_all (table_fits s contents) (sch_tables s)"

section \<open>References and ranges of the execution tables\<close>

text \<open>What \<open>sys_inv\<close> does not say: executions refer to stored definitions, counters fit.\<close>

definition task_row_refers :: "database \<Rightarrow> task_row \<Rightarrow> bool" where
  "task_row_refers db t \<longleftrightarrow>
     t_task_definition_id t \<in> tdr_id ` set (task_definitions db)
     \<and> int4 (t_remaining_dependencies t) \<and> int4 (t_remaining_tries t)"

definition executions_refer :: "database \<Rightarrow> bool" where
  "executions_refer db \<longleftrightarrow>
     (\<forall>w \<in> set (workflow_executions db). w_workflow_definition_id w \<in> wdr_id ` set (workflow_definitions db))
     \<and> (\<forall>t \<in> set (task_executions db). task_row_refers db t)"

definition row_from :: "task_row \<Rightarrow> task_row \<Rightarrow> bool" where
  "row_from t u \<longleftrightarrow>
     t_task_definition_id u = t_task_definition_id t
     \<and> min 0 (t_remaining_dependencies t) \<le> t_remaining_dependencies u
     \<and> t_remaining_dependencies u \<le> t_remaining_dependencies t
     \<and> min 0 (t_remaining_tries t) \<le> t_remaining_tries u \<and> t_remaining_tries u \<le> t_remaining_tries t"

text \<open>A transaction that only rewrites execution rows.\<close>

definition rewrites_executions :: "database \<Rightarrow> database \<Rightarrow> bool" where
  "rewrites_executions db db' \<longleftrightarrow>
     workflow_definitions db' = workflow_definitions db \<and> task_definitions db' = task_definitions db
     \<and> (\<forall>w' \<in> set (workflow_executions db'). \<exists>w \<in> set (workflow_executions db).
           w_workflow_definition_id w' = w_workflow_definition_id w)
     \<and> (\<forall>u \<in> set (task_executions db'). \<exists>t \<in> set (task_executions db). row_from t u)"

lemma row_from_refl [simp]: "row_from t t"
  by (simp add: row_from_def)

lemma row_from_trans: "row_from t u \<Longrightarrow> row_from u v \<Longrightarrow> row_from t v"
  by (auto simp: row_from_def)

lemma row_from_refers: "row_from t u \<Longrightarrow> task_row_refers db t \<Longrightarrow> task_row_refers db u"
  by (auto simp: row_from_def task_row_refers_def int4_def)

lemma rewrites_refl [simp]: "rewrites_executions db db"
  unfolding rewrites_executions_def using row_from_refl by blast

lemma rewrites_trans:
  "rewrites_executions a b \<Longrightarrow> rewrites_executions b c \<Longrightarrow> rewrites_executions a c"
  unfolding rewrites_executions_def using row_from_trans by metis

lemma rewrites_refers: "rewrites_executions db db' \<Longrightarrow> executions_refer db \<Longrightarrow> executions_refer db'"
  unfolding rewrites_executions_def executions_refer_def
  using row_from_refers by (simp add: task_row_refers_def) metis

lemma rewrites_tasks:
  "(\<And>t. t \<in> set (task_executions db) \<Longrightarrow> P t \<Longrightarrow> row_from t (f t)) \<Longrightarrow>
   rewrites_executions db (db\<lparr>task_executions := update_where P f (task_executions db)\<rparr>)"
  by (auto simp: rewrites_executions_def set_update_where intro: row_from_refl)

lemma rewrites_workflows:
  "(\<And>w. w_workflow_definition_id (f w) = w_workflow_definition_id w) \<Longrightarrow>
   rewrites_executions db (db\<lparr>workflow_executions := update_where P f (workflow_executions db)\<rparr>)"
  by (auto simp: rewrites_executions_def set_update_where intro: row_from_refl)

lemma children_rewrite: "rewrites_executions db (fst (update_child_dependencies cs db))"
proof (induction cs arbitrary: db)
  case (Cons c cs)
  let ?db = "db\<lparr>task_executions := update_where
      (\<lambda>t. t_id t = c \<and> t_status t = Pending \<and> t_remaining_dependencies t > 0)
      (\<lambda>t. t\<lparr>t_remaining_dependencies := t_remaining_dependencies t - 1\<rparr>) (task_executions db)\<rparr>"
  have "rewrites_executions db ?db" by (rule rewrites_tasks) (simp add: row_from_def)
  from rewrites_trans [OF this Cons] show ?case by (simp add: Let_def split_beta)
qed simp

lemma complete_rewrites: "rewrites_executions db (fst (complete_task request db))"
proof -
  obtain db1 r where h: "complete_task_helper request db = (db1, r)" by fastforce
  obtain db2 ids where c: "update_child_dependencies (chr_child_task_ids r) db1 = (db2, ids)" by fastforce
  have "rewrites_executions db db1"
  proof -
    have "db1 = db\<lparr>task_executions := update_where
        (\<lambda>t. t_id t = creq_task_execution_id request \<and> t_status t = Running)
        (\<lambda>t. t\<lparr>t_status := Completed, t_output := Some (output_values (creq_output request)),
              t_completed_at := Some (creq_completed_at request)\<rparr>) (task_executions db)\<rparr>"
      using h by (auto simp: complete_task_helper_def Let_def split: option.splits)
    then show ?thesis using rewrites_tasks by (simp add: row_from_def)
  qed
  moreover have "rewrites_executions db1 db2" using children_rewrite [of db1 "chr_child_task_ids r"] c by simp
  moreover have "rewrites_executions db2 (fst (complete_workflow_if_finished w at db2))" for w at
    unfolding complete_workflow_if_finished_def Let_def fst_conv by (rule rewrites_workflows) simp
  ultimately show ?thesis
    using h c rewrites_trans
    by (auto simp: complete_task_def ret_def split_beta)
qed

lemma retry_rewrites: "rewrites_executions db (fst (retry_task request db))"
proof -
  obtain db1 r where h: "retry_task_helper request db = (db1, r)" by fastforce
  have "rewrites_executions db db1"
  proof -
    have "db1 = db\<lparr>task_executions := update_where
        (\<lambda>t. t_id t = rreq_task_execution_id request \<and> t_status t = Running \<and> t_remaining_tries t > 0)
        (\<lambda>t. t\<lparr>t_remaining_tries := t_remaining_tries t - 1,
                        t_status := (if t_remaining_tries t > 1 then Running else Failed),
                        t_error_message := rreq_error_message request,
                        t_completed_at := (if t_remaining_tries t > 1 then None
                                           else Some (rreq_completed_at request))\<rparr>) (task_executions db)\<rparr>"
      using h by (auto simp: retry_task_helper_def Let_def split: option.splits prod.splits)
    then show ?thesis by (simp only:) (rule rewrites_tasks, simp add: row_from_def)
  qed
  moreover have "rewrites_executions db1 (fst (fail_workflow w at db1))" for w at
  proof -
    let ?db = "db1\<lparr>workflow_executions := update_where (\<lambda>v. Some (w_id v) = w \<and> w_status v = WfRunning)
        (\<lambda>w. w\<lparr>w_status := WfFailed, w_completed_at := Some at\<rparr>) (workflow_executions db1)\<rparr>"
    have "rewrites_executions db1 ?db" by (rule rewrites_workflows) simp
    moreover have "rewrites_executions ?db (?db\<lparr>task_executions := update_where
        (\<lambda>t. Some (t_workflow_execution_id t) = w \<and> (t_status t = Pending \<or> t_status t = Running))
        (\<lambda>t. t\<lparr>t_status := Cancelled, t_completed_at := Some at\<rparr>) (task_executions ?db)\<rparr>)"
      by (rule rewrites_tasks) (simp add: row_from_def)
    ultimately show ?thesis using rewrites_trans by (simp add: fail_workflow_def Let_def)
  qed
  ultimately show ?thesis
    using h rewrites_trans by (auto simp: retry_task_def ret_def split_beta)
qed

lemma start_rewrites: "rewrites_executions db (fst (service_start_task tid now db))"
proof -
  have "rewrites_executions db (db\<lparr>task_executions := map (start_row tid now) (task_executions db)\<rparr>)"
    unfolding rewrites_executions_def by (auto simp: row_from_def start_row_def split: if_splits)
  then show ?thesis using service_start_db [of tid now db] by auto
qed

lemma persist_rewrites: "rewrites_executions db (fst (persist_result tid now res db))"
  using complete_rewrites retry_rewrites
  by (simp add: persist_result_def service_complete_eq service_retry_eq Let_def)

lemma worker_rewrites:
  "rewrites_executions db (fst (worker_starts now c u db))"
  "rewrites_executions db (fst (worker_executes treg now c u task db))"
proof -
  have "fst (worker_starts now c u db) = fst (service_start_task (cl_task_execution_id c) now db)"
    by (auto simp: worker_starts_def split: prod.splits sum.splits option.splits)
  then show "rewrites_executions db (fst (worker_starts now c u db))" using start_rewrites by simp
  show "rewrites_executions db (fst (worker_executes treg now c u task db))"
  proof (cases "execute_plugin treg task")
    case (Inr res)
    obtain d x where "persist_result (cl_task_execution_id c) now res db = (d, x)" by fastforce
    with Inr persist_rewrites [of db "cl_task_execution_id c" now res] show ?thesis
      by (cases x) (simp_all add: worker_executes_def)
  qed (simp add: worker_executes_def)
qed

section \<open>Kept by every step\<close>

lemma refers_tables:
  assumes "executions_refer db" "workflow_executions db' = workflow_executions db" "task_executions db' = task_executions db"
    "wdr_id ` set (workflow_definitions db) \<subseteq> wdr_id ` set (workflow_definitions db')"
    "tdr_id ` set (task_definitions db) \<subseteq> tdr_id ` set (task_definitions db')"
  shows "executions_refer db'"
  using assms unfolding executions_refer_def task_row_refers_def by (metis subsetD)

lemma refers_deleted:
  assumes "executions_refer db" "\<not> definition_referenced wid db" "distinct (map tdr_id (task_definitions db))"
  shows "executions_refer (without_definition wid db)"
  unfolding executions_refer_def
proof (intro conjI ballI)
  let ?db = "without_definition wid db"
  fix w assume w: "w \<in> set (workflow_executions ?db)"
  then have "w \<in> set (workflow_executions db)" by (simp add: without_definition_def)
  then have "w_workflow_definition_id w \<in> wdr_id ` set (workflow_definitions db)" "w_workflow_definition_id w \<noteq> wid"
    using assms(1,2) by (auto simp: executions_refer_def definition_referenced_def)
  then show "w_workflow_definition_id w \<in> wdr_id ` set (workflow_definitions ?db)"
    by (auto simp: without_definition_def)
next
  let ?db = "without_definition wid db"
  fix t assume "t \<in> set (task_executions ?db)"
  then have t: "t \<in> set (task_executions db)" by (simp add: without_definition_def)
  then have r: "task_row_refers db t" using assms(1) by (simp add: executions_refer_def)
  then obtain d where d: "d \<in> set (task_definitions db)" "tdr_id d = t_task_definition_id t"
    by (auto simp: task_row_refers_def)
  then have "tdr_workflow_definition_id d \<noteq> wid" using assms(2) t d unfolding definition_referenced_def by metis
  then have "d \<in> set (task_definitions ?db)" using d(1) by (simp add: without_definition_def)
  then show "task_row_refers ?db t" using r d(2) unfolding task_row_refers_def by (metis imageI)
qed

lemma refers_started:
  assumes refers: "executions_refer db" and inv: "definitions_inv db"
    and load: "load_definition wid db = (db, Inr (Some wd))" and small: "length (wd_task_definitions wd) < 2 ^ 31"
  shows "executions_refer (with_execution (started_row fresh now wid)
     (execution_rows f root (wd_task_definitions wd)) db)"
proof -
  note ok = load_definition_ok [OF inv load]
  have row: "task_row_refers db t" if t: "t \<in> set (execution_rows f root (wd_task_definitions wd))" for t
  proof -
    obtain td where td: "td \<in> set (wd_task_definitions wd)"
      "t = task_to_model (execution_of f root (wd_task_definitions wd) td)"
      using t by (auto simp: execution_rows_def)
    then have "t_task_definition_id t = td_id td" "t_remaining_tries t = td_max_tries td"
      "t_remaining_dependencies t = int (length (td_dependencies td))" by simp_all
    then show ?thesis
      using ok(2,3) td(1) dependencies_int4 [OF ok(1) small td(1)] by (auto simp: task_row_refers_def)
  qed
  then show ?thesis
    using refers load_definition_SomeD(3) [OF load]
    by (auto simp: executions_refer_def with_execution_def started_row_def task_row_refers_def)
qed

lemma start_ids_small:
  "start_ids_unused fresh db wid \<Longrightarrow> load_definition wid db = (db, Inr (Some wd)) \<Longrightarrow>
   length (wd_task_definitions wd) < 2 ^ 31"
  by (simp add: start_ids_unused_def)

lemma executions_refer_step:
  assumes inv: "sys_inv s" and refers: "executions_refer (sys_db s)" and step: "sys_step treg greg lease s s'"
  shows "executions_refer (sys_db s')"
  using step
proof (cases rule: sys_step.cases)
  case (step_create fresh clock request db' wid)
  obtain wd rows where "db' = with_schedule rows (with_definition wd (sys_db s))"
    by (rule create_definition_ok [OF sys_invD(2) [OF inv] step_create(3,4,2)]) blast
  then show ?thesis
    unfolding step_create(1) by (intro refers_tables [OF refers]) (auto simp: with_definition_def)
next
  case (step_delete wid db')
  have "distinct (map tdr_id (task_definitions (sys_db s)))"
    using sys_invD(2) [OF inv] by (simp add: definitions_inv_def schema_ok_def)
  then show ?thesis
    using delete_cases [OF step_delete(2)] refers refers_deleted unfolding step_delete(1) by auto
next
  case (step_start fresh now at wid db' q' i)
  show ?thesis
    by (rule start_workflow_cases [OF sys_invD(2) [OF inv] step_start(3,2)])
      (use refers_started [OF refers sys_invD(2) [OF inv]] start_ids_small [OF step_start(3)] in
        \<open>simp add: step_start(1)\<close>)
next
  case (step_schedule locked fresh now created_at at db' q' b)
  show ?thesis
  proof (rule process_due_cases [OF sys_invD(2) [OF inv] step_schedule(3,2)])
    assume "db' = sys_db s"
    then show ?thesis using refers by (simp add: step_schedule(1))
  next
    fix d :: due_trigger and wd :: workflow_definition and n
    let ?sched = "next_schedule (due_trigger_definition_id d) n (chronological_trigger_state (sys_db s))"
    let ?wid = "due_workflow_definition_id d" and ?tds = "wd_task_definitions wd"
    assume due: "get_next_due locked now (sys_db s) = (sys_db s, Inr (Some d))"
      and load: "load_definition ?wid (sys_db s) = (sys_db s, Inr (Some wd))"
      and db': "db' = with_execution (started_row fresh created_at ?wid)
         (execution_rows (\<lambda>i. fresh (Suc i)) (fresh 0) ?tds) (with_schedule ?sched (sys_db s))"
    have "executions_refer (with_execution (started_row fresh created_at ?wid)
         (execution_rows (\<lambda>i. fresh (Suc i)) (fresh 0) ?tds) (sys_db s))"
      using refers_started [OF refers sys_invD(2) [OF inv] load] start_ids_small [OF step_schedule(3) [OF due] load] by simp
    then show ?thesis
      by (rule refers_tables) (simp_all add: step_schedule(1) db' with_execution_def)
  qed
next
  case (step_begin w c u now db' st)
  show ?thesis
    using rewrites_refers [OF worker_rewrites(1) refers, of now c u] step_begin by simp
next
  case (step_execute w c u task now db' st)
  show ?thesis
    using rewrites_refers [OF worker_rewrites(2) refers, of treg now c u task] step_execute by simp
qed (use refers in simp_all)

lemma reachable_refers: "reachable treg greg lease s \<Longrightarrow> executions_refer (sys_db s) \<and> sys_inv s"
  unfolding reachable_def
proof (induction rule: rtranclp_induct)
  case base
  show ?case using sys_inv_initial by (simp add: executions_refer_def initial_system_def empty_database_def)
next
  case (step y z)
  then show ?case using executions_refer_step sys_inv_step by blast
qed

section \<open>The migrated schema holds\<close>

lemma stored_rows_simps:
  "stored_rows db q ''workflow_definitions'' = map sql_workflow_definition (workflow_definitions db)"
  "stored_rows db q ''task_definitions'' = map sql_task_definition (task_definitions db)"
  "stored_rows db q ''task_definition_dependencies'' = map sql_dependency (task_definition_dependencies db)"
  "stored_rows db q ''trigger_definitions'' = map sql_trigger_definition (trigger_definitions db)"
  "stored_rows db q ''chronological_trigger_state'' = map sql_trigger_state (chronological_trigger_state db)"
  "stored_rows db q ''workflow_executions'' = map sql_workflow (workflow_executions db)"
  "stored_rows db q ''task_executions'' = map sql_task (task_executions db)"
  "stored_rows db q ''execution_queue'' = map sql_queue_entry q"
  by (simp_all add: stored_rows_def)

lemma queue_schema_parts:
  "sch_tables queue_schema = [workflow_definitions_table, task_definitions_table, trigger_definitions_table,
     workflow_executions_table, chronological_trigger_state_table, task_definition_dependencies_table,
     task_executions_table, execution_queue_table]"
  "map_of (sch_enums queue_schema) ''workflowstatus'' = Some [''RUNNING'', ''COMPLETED'', ''FAILED'', ''CANCELLED'']"
  "map_of (sch_enums queue_schema) ''taskstatus'' =
     Some [''PENDING'', ''RUNNING'', ''COMPLETED'', ''FAILED'', ''CANCELLED'']"
  by code_simp+

lemmas table_defs = workflow_definitions_table_def task_definitions_table_def trigger_definitions_table_def
  workflow_executions_table_def chronological_trigger_state_table_def task_definition_dependencies_table_def
  task_executions_table_def execution_queue_table_def required_def optional_def references_def

lemmas sql_defs = sql_workflow_definition_def sql_task_definition_def sql_dependency_def sql_trigger_definition_def
  sql_trigger_state_def sql_workflow_def sql_task_def sql_queue_entry_def

lemma labels_fit:
  "has_type queue_schema (Enum_Type ''workflowstatus'') (Sql_Label (workflow_label ws))"
  "has_type queue_schema (Enum_Type ''taskstatus'') (Sql_Label (task_label ts))"
  by (cases ws; simp add: queue_schema_parts) (cases ts; simp add: queue_schema_parts)

lemma option_fits:
  "column_fits s \<lparr>col_name = n, col_type = ty, col_nullable = True\<rparr> (sql_option f x) \<longleftrightarrow>
     (\<forall>y. x = Some y \<longrightarrow> f y = Sql_Null \<or> has_type s ty (f y))"
  by (cases x) (auto simp: column_fits_def sql_option_def)

lemma uuids_fit: "has_type s (Array_Type Uuid_Type) (Sql_Array (map Sql_Uuid us))"
  by (induction us) simp_all

lemma required_fits:
  "v \<noteq> Sql_Null \<Longrightarrow> column_fits s \<lparr>col_name = n, col_type = ty, col_nullable = False\<rparr> v \<longleftrightarrow> has_type s ty v"
  by (simp add: column_fits_def)

lemma rows_fit:
  "row_fits queue_schema workflow_definitions_table (sql_workflow_definition wd)"
  "int4 (tdr_max_tries td) \<Longrightarrow> row_fits queue_schema task_definitions_table (sql_task_definition td)"
  "row_fits queue_schema task_definition_dependencies_table (sql_dependency d)"
  "row_fits queue_schema trigger_definitions_table (sql_trigger_definition tr)"
  "row_fits queue_schema chronological_trigger_state_table (sql_trigger_state st)"
  "row_fits queue_schema workflow_executions_table (sql_workflow w)"
  "int4 (t_remaining_dependencies t) \<Longrightarrow> int4 (t_remaining_tries t) \<Longrightarrow>
     row_fits queue_schema task_executions_table (sql_task t)"
  "row_fits queue_schema execution_queue_table (sql_queue_entry e)"
  by (simp_all add: row_fits_def table_defs sql_defs option_fits required_fits labels_fit uuids_fit
      del: has_type.simps(7,8))

lemma composite_keys_fit:
  "distinct (map (\<lambda>t. (tdr_workflow_definition_id t, tdr_key t)) tds) \<Longrightarrow>
     distinct (map (\<lambda>t. project [''workflow_definition_id'', ''key''] (sql_task_definition t)) tds)"
  "distinct ds \<Longrightarrow> distinct (map (\<lambda>d. project [''task_definition_id'', ''depends_on_task_definition_id''] (sql_dependency d)) ds)"
proof -
  assume "distinct ds"
  moreover have "inj_on (\<lambda>d. project [''task_definition_id'', ''depends_on_task_definition_id''] (sql_dependency d)) (set ds)"
    by (rule inj_onI, rule dependency_row.equality) (simp_all add: project_def sql_dependency_def)
  ultimately show "distinct (map (\<lambda>d. project [''task_definition_id'', ''depends_on_task_definition_id''] (sql_dependency d)) ds)"
    by (simp add: distinct_map)
qed (simp add: distinct_map inj_on_def project_def sql_task_definition_def)

text \<open>The foreign keys of the migrations, over the rows.\<close>

definition references_hold :: "database \<Rightarrow> bool" where
  "references_hold db \<longleftrightarrow>
     tdr_workflow_definition_id ` set (task_definitions db) \<subseteq> wdr_id ` set (workflow_definitions db)
     \<and> trr_workflow_definition_id ` set (trigger_definitions db) \<subseteq> wdr_id ` set (workflow_definitions db)
     \<and> dep_task_definition_id ` set (task_definition_dependencies db) \<subseteq> tdr_id ` set (task_definitions db)
     \<and> dep_depends_on ` set (task_definition_dependencies db) \<subseteq> tdr_id ` set (task_definitions db)
     \<and> cts_trigger_definition_id ` set (chronological_trigger_state db) \<subseteq> trr_id ` set (trigger_definitions db)
     \<and> w_workflow_definition_id ` set (workflow_executions db) \<subseteq> wdr_id ` set (workflow_definitions db)
     \<and> t_workflow_execution_id ` set (task_executions db) \<subseteq> w_id ` set (workflow_executions db)
     \<and> t_task_definition_id ` set (task_executions db) \<subseteq> tdr_id ` set (task_definitions db)"

lemma project_keys:
  "project [''id''] (sql_workflow_definition w) = [Some (Sql_Uuid (wdr_id w))]"
  "project [''id''] (sql_task_definition td) = [Some (Sql_Uuid (tdr_id td))]"
  "project [''workflow_definition_id''] (sql_task_definition td) = [Some (Sql_Uuid (tdr_workflow_definition_id td))]"
  "project [''task_definition_id''] (sql_dependency d) = [Some (Sql_Uuid (dep_task_definition_id d))]"
  "project [''depends_on_task_definition_id''] (sql_dependency d) = [Some (Sql_Uuid (dep_depends_on d))]"
  "project [''id''] (sql_trigger_definition tr) = [Some (Sql_Uuid (trr_id tr))]"
  "project [''workflow_definition_id''] (sql_trigger_definition tr) = [Some (Sql_Uuid (trr_workflow_definition_id tr))]"
  "project [''trigger_definition_id''] (sql_trigger_state st) = [Some (Sql_Uuid (cts_trigger_definition_id st))]"
  "project [''id''] (sql_workflow we) = [Some (Sql_Uuid (w_id we))]"
  "project [''workflow_definition_id''] (sql_workflow we) = [Some (Sql_Uuid (w_workflow_definition_id we))]"
  "project [''task_definition_id''] (sql_task t) = [Some (Sql_Uuid (t_task_definition_id t))]"
  "project [''id''] (sql_task t) = [Some (Sql_Uuid (t_id t))]"
  "project [''task_execution_id''] (sql_queue_entry e) = [Some (Sql_Uuid (qe_task_execution_id e))]"
  "project [''workflow_execution_id''] (sql_task t) = [Some (Sql_Uuid (t_workflow_execution_id t))]"
  by (simp_all add: project_def sql_defs)

lemma uuid_keys:
  "distinct (map (\<lambda>x. [Some (Sql_Uuid (f x))]) xs) \<longleftrightarrow> distinct (map f xs)"
  "(\<lambda>x. [Some (Sql_Uuid (f x))]) ` A \<subseteq> (\<lambda>y. [Some (Sql_Uuid (g y))]) ` B \<longleftrightarrow> f ` A \<subseteq> g ` B"
  by (simp add: distinct_map inj_on_def) (auto simp: image_iff subset_iff)

lemma constraints:
  "tab_name workflow_definitions_table = ''workflow_definitions''"
  "tab_name task_definitions_table = ''task_definitions''"
  "tab_name trigger_definitions_table = ''trigger_definitions''"
  "tab_name workflow_executions_table = ''workflow_executions''"
  "tab_name chronological_trigger_state_table = ''chronological_trigger_state''"
  "tab_name task_definition_dependencies_table = ''task_definition_dependencies''"
  "tab_name task_executions_table = ''task_executions''"
  "tab_name execution_queue_table = ''execution_queue''"
  "tab_primary_key workflow_definitions_table = [''id'']"
  "tab_primary_key task_definitions_table = [''id'']"
  "tab_primary_key trigger_definitions_table = [''id'']"
  "tab_primary_key workflow_executions_table = [''id'']"
  "tab_primary_key chronological_trigger_state_table = [''trigger_definition_id'']"
  "tab_primary_key task_definition_dependencies_table = [''task_definition_id'', ''depends_on_task_definition_id'']"
  "tab_primary_key task_executions_table = [''id'']"
  "tab_primary_key execution_queue_table = [''task_execution_id'']"
  "tab_uniques task_definitions_table = [(''uq_task_definition_workflow_key'', [''workflow_definition_id'', ''key''])]"
  "tab_uniques workflow_definitions_table = []" "tab_uniques trigger_definitions_table = []"
  "tab_uniques workflow_executions_table = []" "tab_uniques chronological_trigger_state_table = []"
  "tab_uniques task_definition_dependencies_table = []" "tab_uniques task_executions_table = []"
  "tab_uniques execution_queue_table = []"
  "tab_foreign_keys workflow_definitions_table = []"
  "tab_foreign_keys task_definitions_table = [references ''workflow_definition_id'' ''workflow_definitions'']"
  "tab_foreign_keys trigger_definitions_table = [references ''workflow_definition_id'' ''workflow_definitions'']"
  "tab_foreign_keys workflow_executions_table = [references ''workflow_definition_id'' ''workflow_definitions'']"
  "tab_foreign_keys chronological_trigger_state_table =
     [(references ''trigger_definition_id'' ''trigger_definitions'')\<lparr>fk_cascade := True\<rparr>]"
  "tab_foreign_keys task_definition_dependencies_table =
     [references ''depends_on_task_definition_id'' ''task_definitions'', references ''task_definition_id'' ''task_definitions'']"
  "tab_foreign_keys task_executions_table =
     [references ''task_definition_id'' ''task_definitions'', references ''workflow_execution_id'' ''workflow_executions'']"
  "tab_foreign_keys execution_queue_table = []"
  "fk_columns (references c tb) = [c]" "fk_table (references c tb) = tb" "fk_referenced (references c tb) = [''id'']"
  by (simp_all add: table_defs)

lemma tables_fit:
  assumes refs: "references_hold db" and keys: "schema_ok db" "distinct (map w_id (workflow_executions db))"
      "distinct (map t_id (task_executions db))" "distinct (map qe_task_execution_id q)"
    and ranges: "\<forall>t \<in> set (task_definitions db). int4 (tdr_max_tries t)"
      "\<forall>t \<in> set (task_executions db). int4 (t_remaining_dependencies t) \<and> int4 (t_remaining_tries t)"
  shows "contents_fit queue_schema (stored_rows db q)"
proof -
  let ?fits = "table_fits queue_schema (stored_rows db q)"
  note r = refs [unfolded references_hold_def] and k = keys(1) [unfolded schema_ok_def]
  note defs = table_fits_def constraints stored_rows_simps list_all_iff rows_fit composite_keys_fit
    comp_def image_image project_keys uuid_keys
  have "?fits workflow_definitions_table" "?fits execution_queue_table"
    using k keys(4) by (simp_all add: defs)
  moreover have "?fits task_definitions_table" "?fits trigger_definitions_table"
    using k ranges(1) r by (simp_all add: defs)
  moreover have "?fits workflow_executions_table" "?fits chronological_trigger_state_table"
    using k keys(2) r by (simp_all add: defs)
  moreover have "?fits task_definition_dependencies_table" "?fits task_executions_table"
    using k keys(3) ranges(2) r by (simp_all add: defs)
  ultimately show ?thesis by (simp add: contents_fit_def queue_schema_parts)
qed

text \<open>
  C12. The tables conform to their schema. Run both migrations on an empty database. In every
  reachable state, the rows of all tables, the execution queue included, satisfy every constraint
  of the schema this gives: each row has the columns of its table with values of their types, no
  null where it is forbidden, integers in the range of \<open>INTEGER\<close>, statuses among the labels of their
  enum; primary keys and unique constraints have no duplicates; every foreign key finds its row.
\<close>

theorem tables_conform:
  assumes "reachable treg greg lease s"
  shows "case run_script (initial_upgrade @ queue_upgrade) empty_schema of
     None \<Rightarrow> False | Some schema \<Rightarrow> contents_fit schema (stored_rows (sys_db s) (sys_queue s))"
proof -
  let ?db = "sys_db s"
  have refers: "executions_refer ?db" and inv: "sys_inv s" using reachable_refers [OF assms] by simp_all
  note parts = exec_invD [OF sys_invD(1) [OF inv]]
  have defs: "schema_ok ?db" "\<forall>t \<in> set (task_definitions ?db). int4 (tdr_max_tries t)"
    using sys_invD(2) [OF inv] by (simp_all add: definitions_inv_def)
  have "references_hold ?db"
    using defs(1) refers parts(3)
    by (auto simp: references_hold_def schema_ok_def executions_refer_def task_row_refers_def workflows_ok_def)
  moreover have "\<forall>t \<in> set (task_executions ?db). int4 (t_remaining_dependencies t) \<and> int4 (t_remaining_tries t)"
    using refers by (simp add: executions_refer_def task_row_refers_def)
  moreover have "distinct (map qe_task_execution_id (sys_queue s))"
    using sys_invD(3) [OF inv] by (simp add: queue_inv_def)
  ultimately have "contents_fit queue_schema (stored_rows ?db (sys_queue s))"
    using tables_fit defs parts(4,5) by simp
  then show ?thesis by (simp add: run_script_append migrations_from_empty)
qed

theorem tables_conform_witness:
  "case run_script (initial_upgrade @ queue_upgrade) empty_schema of
     None \<Rightarrow> False | Some schema \<Rightarrow> contents_fit schema (stored_rows (sys_db walk9) (sys_queue walk9))"
  by (rule tables_conform [OF walk9_reachable])

end
