(* ===== verification/Spec2Isabelle.thy ===== *)
theory Spec2Isabelle
  imports Loop_Refinement Queue_Properties Trigger_Properties Service_Contracts Concurrent_Safety Request_Bodies Migration_Environment Schema_Conformance
begin

text \<open>
  A workflow platform on PostgreSQL (\<open>src/src/automation_platform\<close>). Clients create workflow
  definitions over HTTP: tasks with dependencies, each run by a plugin, and triggers. A workflow is
  started by a request or by a scheduler that follows interval triggers. Starting compiles the
  definition into one row per task; the tasks without dependencies are put into an execution
  queue, a table with leases. Workers claim entries, run the plugin, store the result and release
  the tasks whose last dependency has completed. A reconciler puts back what the queue has lost.

  \<^bold>\<open>Theories and code.\<close> Paths are relative to \<open>src/src/automation_platform\<close>.

  \<^item> \<open>Prelude\<close>: identifiers, JSON, results, generic lemmas. \<open>Domain\<close>: the records and enumerations
    of \<open>domain\<close>. \<open>Database\<close>: the tables, the statements the code issues (select, update, delete,
    insert with the checks of the schema) and the unit of work of \<open>persistence/database\<close>.
  \<^item> \<open>Definition_Repository\<close>, \<open>Trigger_Repository\<close>, \<open>Execution_Repository\<close>: the repositories,
    operations and mappers under \<open>persistence\<close>. \<open>Repository_Interface\<close> is the contract of a keyed
    store; the repositories of definitions and of executions (\<open>Execution_Lifecycle\<close>) interpret it.
  \<^item> \<open>Dependency_Graph\<close>, \<open>Definition_Validation\<close>, \<open>Definition_Service\<close>: \<open>application/workflow_definitions\<close>
    and \<open>application/workflow_execution_query\<close>; \<open>Workflow_Start\<close>: \<open>application/workflow_start\<close>;
    \<open>Trigger_Service\<close>: \<open>application/chronological_triggers\<close> and \<open>trigger_initialization\<close>;
    \<open>Task_Processing\<close>: \<open>application/task_processing\<close>.
  \<^item> \<open>Execution_Queue\<close>: \<open>execution_queue\<close>, its interface as a locale with the laws its docstrings
    give, interpreted by the PostgreSQL implementation.
  \<^item> \<open>Plugins\<close>, \<open>Plugin_Discovery\<close>: \<open>plugins\<close>, with the module search of \<open>pkgutil\<close>.
    \<open>Python_Numbers\<close>, \<open>Python_Strings\<close>: Python's floats, timedeltas, string parsing, \<open>repr\<close> and \<open>join\<close> as
    far as plugins, messages and configuration use them.
  \<^item> \<open>Runtime\<close>: the worker, reconciler and scheduler of \<open>runtime\<close>, by stages of one claim and by
    iterations. \<open>System\<close>: their interleaving with the API as a step relation. \<open>Runtime_Loops\<close>: the
    loops of worker, heartbeat thread and reconciler in full; \<open>Loop_Refinement\<close> shows that they and the
    loop of the scheduler are runs of \<open>System\<close>.
  \<^item> \<open>Api\<close>: \<open>runtime/api\<close>, request and response models, handlers, exception handlers, routes;
    \<open>Request_Bodies\<close>: the endpoints from JSON bodies and path parameters on.
    \<open>Config\<close>, \<open>Rounding\<close>: \<open>config\<close>. \<open>Bootstrap\<close>: the composition roots \<open>runtime/*/bootstrap.py\<close> with
    \<open>infrastructure\<close>, the constructors of the services and the signal handlers.
    \<open>Migrations\<close>: \<open>src/alembic/versions\<close> and the tables the mapped classes declare.
    \<open>Migration_Environment\<close>: \<open>src/alembic/env.py\<close>.
  \<^item> \<open>Read_Committed\<close>: transactions whose statements interleave as at PostgreSQL's default level, and
    the completion of a workflow that two of them miss. \<open>Concurrent_Transitions\<close>, \<open>Concurrent_Effects\<close>,
    \<open>Concurrent_Safety\<close>: any number of transactions that start, complete and fail tasks, and what
    they guarantee together.

  \<^bold>\<open>State.\<close> \<open>database\<close> holds one list of rows per table in insertion order; a key is looked up in the
  list. An operation takes the database and returns it with an exception or a value (\<open>Inl\<close>, \<open>Inr\<close>);
  \<open>with_uow\<close> restores the old database when the block raises or ends without a commit. \<open>system\<close> adds
  the queue, the publications that processes still have to make, and a state per worker.

  \<^bold>\<open>Lemmas.\<close> \<open>Execution_Invariants\<close> defines \<open>exec_inv\<close>: the task graph is closed and acyclic, counters
  count the open parents, statuses agree; every repository operation preserves it.
  \<open>definitions_inv\<close> is the same for the definition tables. \<open>System\<close> proves that every step keeps
  \<open>sys_inv\<close>, \<open>Progress\<close> what steps never undo, \<open>Completion\<close> that running workflows can finish,
  \<open>Draining\<close> that the loop of one worker does finish them within a bound. \<open>Schema_Conformance\<close>
  evaluates the constraints of the migrated schema on the rows of every reachable state. The
  theories \<open>*_Properties\<close> and \<open>Service_Contracts\<close> hold the properties of each component,
  \<open>Walkthrough\<close> a concrete history that witnesses use, and this theory the properties of the
  platform as a whole.

  \<^bold>\<open>Parameters and hypotheses.\<close> Clocks are arguments of the operations. \<open>uuid4\<close> is a sequence of
  identifiers, assumed not to be in use, and claim tokens are new. Rows that other transactions
  have locked are a parameter of the queries that skip them. Plugins are functions; the theorem
  that workflows can finish assumes that they return. The number of tasks of a definition is below
  \<open>2 ^ 31\<close>, the range of the counter columns. No recursion uses fuel: the cycle check terminates by a
  measure, and the loops of the processes run over the list of rounds they make, whose number
  \<open>recovery_completes\<close> bounds by \<open>work_left\<close>: the tries of the open tasks plus the number of tasks
  that are open or queued.

  \<^bold>\<open>What the model leaves out.\<close> Transactions are atomic and serial, except in
  \<open>Read_Committed\<close> and the theories on it, which leave out the transactions that insert or delete
  executions; there, one call of a repository operation (for the children of a task: one child) is
  one statement. Rows
  are scanned in list order where PostgreSQL leaves the order open. JSONB does
  not keep the order of members, the model does: configurations and outputs that a theorem calls
  equal are equal as Python dictionaries. Text values are storable and characters are below 256. A request
  that fails changes nothing (\<open>failed_calls_leave_no_trace\<close>) and has no step in \<open>System\<close>.

  \<^bold>\<open>Not modelled.\<close> Log output, uvicorn and the ASGI stack, the parsing of JSON text, and
  the re-exports of package files. How pydantic reads a value of a given type, which handler Starlette
  chooses (both with their documented laws), what importing a plugin module yields, SQLAlchemy's engines and
  Alembic's configuration object are parameters.
\<close>

section \<open>The platform: every reachable state\<close>

text \<open>
  C1. Dependency safety. Whatever the interleaving of API requests, schedulers, reconcilers,
  workers, lost publications, expired leases and repeated claims: a task that has been started (it
  runs, has completed or has failed) has only completed parents.
\<close>

theorem dependency_safety:
  assumes "reachable treg greg lease s" "t \<in> set (sys_tasks s)"
    "t_status t = Running \<or> t_status t = Completed \<or> t_status t = Failed"
    "p \<in> set (t_parent_task_ids t)"
  shows "\<exists>u \<in> set (sys_tasks s). t_id u = p \<and> t_status u = Completed"
proof -
  have "progress_ok (sys_tasks s)"
    by (rule exec_invD [OF sys_invD(1) [OF sys_inv_reachable [OF assms(1)]]])
  then have "ready (sys_tasks s) t" using assms(2,3) by (auto simp: progress_ok_def row_ok_def)
  then show ?thesis using assms(4) by (simp add: ready_def completed_def)
qed

theorem dependency_safety_witness:
  "\<exists>u \<in> set (sys_tasks walk9). t_id u = Uuid 11 \<and> t_status u = Completed"
  by (rule dependency_safety [OF walk9_reachable, of walk_load])
    (simp_all add: walk9_def db_loading_def)

text \<open>
  C2. No lost work. In every reachable state, a task in status \<open>RUNNING\<close> has an entry in the
  execution queue, so that some worker holds it or can claim it again once the lease expires, even
  if the worker that started it is gone.
\<close>

theorem running_tasks_queued:
  assumes "reachable treg greg lease s" "t \<in> set (sys_tasks s)" "t_status t = Running"
  shows "\<exists>e \<in> set (sys_queue s). qe_task_execution_id e = t_id t"
proof -
  have "queued s (t_id t)"
    using sys_invD(7) [OF sys_inv_reachable [OF assms(1)]] assms(2,3) by (simp add: running_queued_def)
  then show ?thesis by (auto simp: queued_def dom_queue_leases)
qed

theorem running_tasks_queued_witness:
  "\<exists>e \<in> set (sys_queue walk9). qe_task_execution_id e = t_id walk_load"
  by (rule running_tasks_queued [OF walk9_reachable]) (simp_all add: walk9_def db_loading_def)

text \<open>
  C3. Finished tasks are final. Once a task is completed, failed or cancelled, its row (status,
  output, error, times, counters) never changes again, whatever runs, duplicate claims and late
  results of a worker that lost its lease included.
\<close>

theorem finished_tasks_final:
  assumes "reachable treg greg lease s" "(sys_step treg greg lease)\<^sup>*\<^sup>* s s'"
    "t \<in> set (sys_tasks s)" "terminal_task (t_status t)"
  shows "t \<in> set (sys_tasks s')"
  using run_advances [OF assms(2) sys_inv_reachable [OF assms(1)]] finished_row_stays assms(3,4)
  by blast

theorem finished_tasks_final_witness: "walk_extract \<in> set (sys_tasks walk9)"
  by (rule finished_tasks_final [OF walk7_reachable
        rtranclp.rtrancl_into_rtrancl [OF r_into_rtranclp [of "sys_step walk_tasks walk_triggers 30", OF walk_step8] walk_step9]])
    (simp_all add: walk7_def db_released_def)



text \<open>
  No deadlock. In every reachable state, a workflow in status \<open>RUNNING\<close> has a task that is
  running or can be started: pending with every parent completed.
\<close>

lemma running_workflow_not_stuck:
  assumes "reachable treg greg lease s" "w \<in> set (workflow_executions (sys_db s))" "w_status w = WfRunning"
  shows "\<exists>t \<in> set (sys_tasks s). t_workflow_execution_id t = w_id w
     \<and> (t_status t = Running
        \<or> t_status t = Pending \<and> (\<forall>p \<in> set (t_parent_task_ids t). completed (sys_tasks s) p))"
  using running_workflow_startable [OF sys_invD(1) [OF sys_inv_reachable [OF assms(1)]] assms(2,3)]
  by (auto simp: tasks_of_def startable_def ready_def)

text \<open>
  C8. Inputs of a task. While a worker executes a task, what it gives to the plugin is the stored
  plugin type and configuration of that task and, for each parent and nothing else, the output
  that the completed parent has stored, under the key of the parent.
\<close>

theorem worker_inputs:
  assumes "reachable treg greg lease s" "sys_workers s w = Executing c u task"
  shows "\<exists>t \<in> set (sys_tasks s). t_id t = cl_task_execution_id c
     \<and> sres_plugin_type task = t_plugin_type t \<and> sres_configuration task = t_configuration t
     \<and> (\<forall>p \<in> set (t_parent_task_ids t). \<exists>u \<in> set (sys_tasks s). t_id u = p \<and> t_status u = Completed
           \<and> map_of (sres_parent_outputs task) (t_key u) = Some \<lparr>output_values = the (t_output u)\<rparr>)
     \<and> length (sres_parent_outputs task) = length (t_parent_task_ids t)"
  using reachable_inputs [OF assms(1)] assms(2) unfolding workers_inputs_ok_def inputs_ok_def by blast

theorem worker_inputs_witness:
  "\<exists>t \<in> set (sys_tasks walk9). t_id t = cl_task_execution_id walk_held2
     \<and> sres_plugin_type walk_task2 = t_plugin_type t \<and> sres_configuration walk_task2 = t_configuration t
     \<and> (\<forall>p \<in> set (t_parent_task_ids t). \<exists>u \<in> set (sys_tasks walk9). t_id u = p \<and> t_status u = Completed
           \<and> map_of (sres_parent_outputs walk_task2) (t_key u) = Some \<lparr>output_values = the (t_output u)\<rparr>)
     \<and> length (sres_parent_outputs walk_task2) = length (t_parent_task_ids t)"
  by (rule worker_inputs [OF walk9_reachable, of "Uuid 51" walk_held2 False]) (simp add: walk9_def)





text \<open>
  C11. Reconciliation restores what was lost. In every reachable state, one pass of the reconciler
  leaves the database as it is and the queue with exactly its old entries and every pending task
  whose parents are all completed, each in the queue once.
\<close>

theorem reconcile_enqueues_runnable:
  assumes "reachable treg greg lease s"
  shows "\<exists>q'. reconcile now (sys_db s, sys_queue s) = ((sys_db s, q'), Inr ())
     \<and> distinct (map qe_task_execution_id q')
     \<and> qe_task_execution_id ` set q' = qe_task_execution_id ` set (sys_queue s)
         \<union> {t_id t | t. t \<in> set (sys_tasks s) \<and> t_status t = Pending
                       \<and> (\<forall>p \<in> set (t_parent_task_ids t). completed (sys_tasks s) p)}"
proof (intro exI conjI)
  let ?q = "enqueue (runnable_ids (sys_db s)) now (sys_queue s)"
  have inv: "sys_inv s" by (rule sys_inv_reachable [OF assms])
  note qi = sys_invD(3) [OF inv]
  show "reconcile now (sys_db s, sys_queue s) = ((sys_db s, ?q), Inr ())" by (rule reconcile_eq)
  show "distinct (map qe_task_execution_id ?q)" using pg.inv_enqueue [OF qi] by (simp add: queue_inv_def)
  have ready: "t_remaining_dependencies t = 0 \<longleftrightarrow> (\<forall>p \<in> set (t_parent_task_ids t). completed (sys_tasks s) p)"
    if "t \<in> set (sys_tasks s)" "t_status t = Pending" for t
    using counter_zero_iff_ready [OF exec_invD(2) [OF sys_invD(1) [OF inv]] that] by (simp add: ready_def)
  have "set (runnable_ids (sys_db s)) = {t_id t | t. t \<in> set (sys_tasks s) \<and> t_status t = Pending
      \<and> (\<forall>p \<in> set (t_parent_task_ids t). completed (sys_tasks s) p)}"
    using ready by (auto simp: runnable_ids_eq)
  then show "qe_task_execution_id ` set ?q = qe_task_execution_id ` set (sys_queue s)
      \<union> {t_id t | t. t \<in> set (sys_tasks s) \<and> t_status t = Pending
                    \<and> (\<forall>p \<in> set (t_parent_task_ids t). completed (sys_tasks s) p)}"
    using pg.leases_enqueue [OF qi, of "runnable_ids (sys_db s)" now]
    by (simp add: dom_queue_leases [symmetric] dom_add_missing)
qed

theorem reconcile_enqueues_runnable_witness:
  "\<exists>q'. reconcile 20 (sys_db walk2, sys_queue walk2) = ((sys_db walk2, q'), Inr ())
     \<and> distinct (map qe_task_execution_id q')
     \<and> qe_task_execution_id ` set q' = qe_task_execution_id ` set (sys_queue walk2)
         \<union> {t_id t | t. t \<in> set (sys_tasks walk2) \<and> t_status t = Pending
                       \<and> (\<forall>p \<in> set (t_parent_task_ids t). completed (sys_tasks walk2) p)}"
  by (rule reconcile_enqueues_runnable [OF walk2_reachable])

text \<open>
  C13. One holder per lease. In every reachable state, no two workers hold the live lease of the
  same queue entry: leases that have expired and been claimed again leave their former holder with
  a claim that matches no entry.
\<close>

theorem one_lease_holder:
  assumes "reachable treg greg lease s"
    "worker_claim (sys_workers s w) = Some c" "worker_claim (sys_workers s v) = Some d"
    "e \<in> set (sys_queue s)" "held_by c e" "held_by d e"
  shows "w = v"
proof -
  have "c = d" using assms(5,6) by (simp add: held_by_def)
  then show ?thesis using reachable_claims [OF assms(1)] assms(2,3) unfolding claims_ok_def by blast
qed

theorem one_lease_holder_witness:
  "held_by walk_held2 (claimed_entry (Uuid 12) 13 (Uuid 61) (Uuid 51) 14)
     \<and> {v. worker_claim (sys_workers walk9 v) = Some walk_held2} = {Uuid 51}"
proof
  let ?e = "claimed_entry (Uuid 12) 13 (Uuid 61) (Uuid 51) 14"
  show held: "held_by walk_held2 ?e" by (simp add: held_by_def walk_held2_def claimed_entry_def)
  have w: "worker_claim (sys_workers walk9 (Uuid 51)) = Some walk_held2" by (simp add: walk9_def)
  have e: "?e \<in> set (sys_queue walk9)" by (simp add: walk9_def)
  have only: "v = Uuid 51" if "worker_claim (sys_workers walk9 v) = Some walk_held2" for v
    by (rule one_lease_holder [OF walk9_reachable that w e held held])
  show "{v. worker_claim (sys_workers walk9 v) = Some walk_held2} = {Uuid 51}"
    using w only by blast
qed

end
